(* ===== verification/Xv6_Prelude.thy ===== *)
theory Xv6_Prelude
  imports Main "HOL-Library.Word"
begin

text \<open>
  Shared vocabulary of the development: machine integers, the outcome of a kernel
  routine, the names of the kernel's locks and sleep channels, the scan loop over a
  fixed table, and the bit-mask lemmas that the signal code relies on.
\<close>

unbundle bit_operations_syntax

named_theorems outcome_simps \<open>evaluation of kernel routines\<close>
named_theorems mask_simps \<open>single-bit masks\<close>

section \<open>Machine integers\<close>

type_synonym u8 = "8 word"
type_synonym u16 = "16 word"
type_synonym u32 = "32 word"

lemma unat_of_nat32 [simp]: "i < 4294967296 \<Longrightarrow> unat (of_nat i :: u32) = i"
  by (simp add: unat_of_nat)

lemma unat_less_2_32: "unat (x :: u32) < 4294967296"
  using unsigned_less [of x] by simp

section \<open>Names of locks and of sleep channels\<close>

text \<open>
  A \<open>struct sleeplock\<close> is embedded in a buffer or an in-memory inode; a
  \<open>struct spinlock\<close> is a global, is embedded in a pipe (named by the pipe's
  address) or protects a sleep lock. Only the identity of a lock or of a channel
  (a \<open>void*\<close> compared for equality) matters to the code.
\<close>

datatype slid = SL_buf nat | SL_inode nat

datatype lockid =
    L_ptable | L_tickslock | L_kmem | L_ftable | L_icache | L_bcache | L_log
  | L_cons | L_ide | L_pipe u32 | L_sleep slid

datatype chan =
    Ch_null | Ch_ticks | Ch_proc nat | Ch_sleeplock slid | Ch_log
  | Ch_nread u32 | Ch_nwrite u32 | Ch_input | Ch_buf nat

section \<open>Outcomes\<close>

text \<open>
  A kernel routine either delivers a value or stops on the way: \<open>panic\<close> was
  called, the thread goes to sleep on a channel, the CPU spins on a lock that
  another CPU holds, the hardware faults on an address, the code does something that C
  leaves undefined, or a loop bound of the model is exhausted. The stop is the left
  summand.
\<close>

datatype halt =
    Panic string
  | Sleeping chan
  | Spinning lockid
  | Fault u32
  | Undefined string
  | OutOfFuel

type_synonym 'a outcome = "halt + 'a"

definition and_then :: "'a outcome \<Rightarrow> ('a \<Rightarrow> 'b outcome) \<Rightarrow> 'b outcome" where
  "and_then r f = (case r of Inl h \<Rightarrow> Inl h | Inr x \<Rightarrow> f x)"

lemma and_then_Inl [simp, outcome_simps]: "and_then (Inl h) f = Inl h"
  by (simp add: and_then_def)

lemma and_then_Inr [simp, outcome_simps]: "and_then (Inr x) f = f x"
  by (simp add: and_then_def)

lemma and_then_eq_Inr:
  "and_then r f = Inr y \<longleftrightarrow> (\<exists>x. r = Inr x \<and> f x = Inr y)"
  by (cases r) auto

lemma and_then_cong [fundef_cong]:
  assumes "r = r'" and "\<And>x. r' = Inr x \<Longrightarrow> f x = g x"
  shows "and_then r f = and_then r' g"
  using assms by (cases r') auto

lemma and_then_assoc: "and_then (and_then r f) g = and_then r (\<lambda>x. and_then (f x) g)"
  by (cases r) auto

lemma and_then_InrE:
  assumes "and_then r f = Inr y"
  obtains x where "r = Inr x" and "f x = Inr y"
  using assms by (auto simp: and_then_eq_Inr)

section \<open>Loops\<close>

text \<open>
  A \<open>for\<close> loop whose body works on the state; and one whose body may leave the
  enclosing function with a result.
\<close>

primrec for_each :: "('i \<Rightarrow> 's \<Rightarrow> 's outcome) \<Rightarrow> 'i list \<Rightarrow> 's \<Rightarrow> 's outcome" where
  "for_each f [] s = Inr s"
| "for_each f (x # xs) s = and_then (f x s) (for_each f xs)"

primrec for_until ::
    "('i \<Rightarrow> 's \<Rightarrow> ('r option \<times> 's) outcome) \<Rightarrow> 'i list \<Rightarrow> 's \<Rightarrow> ('r option \<times> 's) outcome" where
  "for_until f [] s = Inr (None, s)"
| "for_until f (x # xs) s =
     and_then (f x s) (\<lambda>(r, s). case r of Some v \<Rightarrow> Inr (Some v, s) | None \<Rightarrow> for_until f xs s)"

lemma for_each_append:
  "for_each f (xs @ ys) s = and_then (for_each f xs s) (for_each f ys)"
  by (induction xs arbitrary: s) (auto simp: and_then_def split: sum.splits)

lemma for_each_inv:
  assumes "I s" and "\<And>x s. x \<in> set xs \<Longrightarrow> I s \<Longrightarrow> \<exists>t. f x s = Inr t \<and> I t"
  shows "\<exists>t. for_each f xs s = Inr t \<and> I t"
  using assms
proof (induction xs arbitrary: s)
  case (Cons x xs)
  from Cons.prems(2) [of x s] Cons.prems(1) obtain t where t: "f x s = Inr t" "I t" by auto
  have "\<exists>u. for_each f xs t = Inr u \<and> I u" by (rule Cons.IH) (use t Cons.prems(2) in auto)
  then show ?case using t by simp
qed simp

lemma for_each_pure:
  assumes "\<And>x s. x \<in> set xs \<Longrightarrow> f x s = Inr (g x s)"
  shows "for_each f xs s = Inr (fold g xs s)"
  using assms by (induction xs arbitrary: s) auto

section \<open>Scanning a fixed table\<close>

text \<open>
  The kernel finds a slot of a table with \<open>for(p = t; p < &t[N]; p++) if(test) ...\<close>:
  the first index at which the test holds.
\<close>

primrec scan_from :: "nat \<Rightarrow> ('a \<Rightarrow> bool) \<Rightarrow> 'a list \<Rightarrow> nat option" where
  "scan_from i P [] = None"
| "scan_from i P (x # xs) = (if P x then Some i else scan_from (Suc i) P xs)"

definition scan :: "('a \<Rightarrow> bool) \<Rightarrow> 'a list \<Rightarrow> nat option" where
  "scan P xs = scan_from 0 P xs"

lemma scan_from_None: "scan_from i P xs = None \<longleftrightarrow> (\<forall>x \<in> set xs. \<not> P x)"
  by (induction xs arbitrary: i) auto

lemma scan_from_Some:
  "scan_from i P xs = Some k \<longleftrightarrow>
     i \<le> k \<and> k - i < length xs \<and> P (xs ! (k - i)) \<and> (\<forall>j < k - i. \<not> P (xs ! j))"
proof (induction xs arbitrary: i)
  case Nil
  then show ?case by simp
next
  case (Cons x xs)
  show ?case
  proof (cases "P x")
    case True
    then show ?thesis by (auto simp: nth_Cons split: nat.splits)
  next
    case False
    have "scan_from i P (x # xs) = Some k \<longleftrightarrow> scan_from (Suc i) P xs = Some k"
      using False by simp
    also have "\<dots> \<longleftrightarrow> Suc i \<le> k \<and> k - Suc i < length xs \<and> P (xs ! (k - Suc i)) \<and>
        (\<forall>j < k - Suc i. \<not> P (xs ! j))"
      by (rule Cons.IH)
    also have "\<dots> \<longleftrightarrow> i \<le> k \<and> k - i < length (x # xs) \<and> P ((x # xs) ! (k - i)) \<and>
        (\<forall>j < k - i. \<not> P ((x # xs) ! j))"
    proof (cases "k - i")
      case 0
      with False show ?thesis by auto
    next
      case (Suc m)
      then have "k - Suc i = m" and "Suc i \<le> k" by arith+
      with Suc False show ?thesis by (auto simp: nth_Cons less_Suc_eq_0_disj)
    qed
    finally show ?thesis .
  qed
qed

lemma scan_None: "scan P xs = None \<longleftrightarrow> (\<forall>x \<in> set xs. \<not> P x)"
  by (simp add: scan_def scan_from_None)

lemma scan_Some:
  "scan P xs = Some k \<longleftrightarrow> k < length xs \<and> P (xs ! k) \<and> (\<forall>j < k. \<not> P (xs ! j))"
  by (simp add: scan_def scan_from_Some)

lemma scan_SomeD:
  assumes "scan P xs = Some k"
  shows "k < length xs" and "P (xs ! k)" and "\<And>j. j < k \<Longrightarrow> \<not> P (xs ! j)"
  using assms by (auto simp: scan_Some)

lemma scan_eqI:
  assumes "k < length xs" and "P (xs ! k)" and "\<And>j. j < k \<Longrightarrow> \<not> P (xs ! j)"
  shows "scan P xs = Some k"
  using assms by (simp add: scan_Some)

section \<open>Single-bit masks\<close>

text \<open>\<open>sigbit n\<close> is the C expression \<open>1 << n\<close>.\<close>

definition sigbit :: "nat \<Rightarrow> u32" where
  "sigbit n = push_bit n 1"

lemma bit_sigbit [mask_simps]: "bit (sigbit n) m \<longleftrightarrow> m = n \<and> n < 32"
  by (auto simp: sigbit_def bit_simps)

lemma and_sigbit_eq [mask_simps]:
  assumes "n < 32"
  shows "(x AND sigbit n = sigbit n) \<longleftrightarrow> bit x n"
proof
  assume "x AND sigbit n = sigbit n"
  then have "bit (x AND sigbit n) n = bit (sigbit n) n" by simp
  with assms show "bit x n" by (simp add: bit_simps bit_sigbit)
next
  assume "bit x n"
  then show "x AND sigbit n = sigbit n"
    by (intro bit_eqI) (auto simp: bit_simps bit_sigbit)
qed

lemma and_sigbit_zero [mask_simps]:
  assumes "n < 32"
  shows "(x AND sigbit n = 0) \<longleftrightarrow> \<not> bit x n"
proof
  assume "x AND sigbit n = 0"
  then have "\<not> bit (x AND sigbit n) n" by simp
  with assms show "\<not> bit x n" by (simp add: bit_simps bit_sigbit)
next
  assume "\<not> bit x n"
  then show "x AND sigbit n = 0"
    by (intro bit_eqI) (auto simp: bit_simps bit_sigbit)
qed

lemma bit_or_sigbit [mask_simps]:
  "bit (x OR sigbit n) m \<longleftrightarrow> bit x m \<or> (m = n \<and> n < 32)"
  by (simp add: bit_simps bit_sigbit)

lemma bit_and_not_sigbit [mask_simps]:
  "bit (x AND NOT (sigbit n)) m \<longleftrightarrow> bit x m \<and> m \<noteq> n"
  by (auto simp: bit_simps bit_sigbit dest: bit_imp_le_length)

lemma word_nonzero_bit: "(x::u32) \<noteq> 0 \<longleftrightarrow> (\<exists>n<32. bit x n)"
proof
  assume "x \<noteq> 0"
  then obtain n where "bit x n" by (auto simp: bit_eq_iff)
  moreover from this have "n < 32" using bit_imp_le_length [of x n] by simp
  ultimately show "\<exists>n<32. bit x n" by blast
next
  assume "\<exists>n<32. bit x n"
  then show "x \<noteq> 0" by auto
qed

end
