(* ===== verification/Spinlock.thy ===== *)
theory Spinlock
  imports Xv6_Prelude
begin

text \<open>
  CPUs, interrupt masking and spin locks: \<open>src/spinlock.c\<close>, \<open>mycpu\<close>, \<open>cpuid\<close> and
  \<open>myproc\<close> of \<open>src/proc.c\<close>, and the lock and CPU structures of \<open>src/spinlock.h\<close> and
  \<open>src/proc.h\<close>.

  The state \<open>machine\<close> is the base record of the kernel state; later theories extend
  it. It is seen from the CPU that runs the code: \<open>lapic_id\<close> is that CPU's local APIC
  id and \<open>ifl\<close> its interrupt flag; \<open>cpus\<close> holds the \<open>ncpu\<close> detected entries of the
  array \<open>cpus\<close>. The debugging fields \<open>pcs\<close> of a lock (a dump of the C call stack) are
  not part of the model.

  The second half gives the effect of the routines as plain state functions
  (\<open>pushed\<close>, \<open>popped\<close>, \<open>enter\<close>, \<open>leave\<close>), on which all later components rest, and the
  interleaving of several CPUs that contend for one lock as a step relation.
\<close>

record spinlock =
  lk_locked :: u32
  lk_name :: string
  lk_cpu :: "nat option"

text \<open>
  Of a \<open>struct cpu\<close> the scheduler's saved context pointer is left out: kernel threads are
  not resumed from saved registers in this development. \<open>c_esp0\<close>, \<open>c_ss0\<close> and \<open>c_iomb\<close> are
  the fields of the task state segment that the kernel sets, \<open>c_gdt\<close> the descriptor
  table (\<open>c_gdtr\<close>: whether the CPU's table register points at it), and \<open>c_cr3\<close> and \<open>c_tr\<close>
  are the page-table and task registers of the CPU.
\<close>

record segdesc =
  sd_lim_15_0 :: u32
  sd_base_15_0 :: u32
  sd_base_23_16 :: u32
  sd_type :: u32
  sd_s :: u32
  sd_dpl :: u32
  sd_p :: u32
  sd_lim_19_16 :: u32
  sd_avl :: u32
  sd_rsv1 :: u32
  sd_db :: u32
  sd_g :: u32
  sd_base_31_24 :: u32

record cpu =
  c_apicid :: u8
  c_esp0 :: u32
  c_ss0 :: u16
  c_iomb :: u16
  c_gdt :: "nat \<Rightarrow> segdesc"
  c_gdtr :: bool
  c_cr3 :: u32
  c_tr :: u16
  c_started :: bool
  c_ncli :: int
  c_intena :: bool
  c_proc :: "nat option"

text \<open>
  Messages on the console, as format string and arguments, in the order printed.
\<close>

datatype karg = A_int int | A_hex u32 | A_str "u8 list" | A_name string

type_synonym kmsg = "string \<times> karg list"

record machine =
  cpus :: "cpu list"
  lapic_id :: u8
  ifl :: bool
  locks :: "lockid \<Rightarrow> spinlock"
  printed :: "kmsg list"

section \<open>The routines\<close>

definition cprintf :: "string \<Rightarrow> karg list \<Rightarrow> 'a machine_scheme \<Rightarrow> 'a machine_scheme" where
  "cprintf fmt args s = s\<lparr>printed := printed s @ [(fmt, args)]\<rparr>"

definition mycpu :: "'a machine_scheme \<Rightarrow> nat outcome" where
  "mycpu s =
     (if ifl s then Inl (Panic ''mycpu called with interrupts enabled'')
      else case scan (\<lambda>c. c_apicid c = lapic_id s) (cpus s) of
             Some i \<Rightarrow> Inr i
           | None \<Rightarrow> Inl (Panic ''unknown apicid''))"

definition cpuid :: "'a machine_scheme \<Rightarrow> nat outcome" where
  "cpuid s = mycpu s"

definition set_cpu :: "nat \<Rightarrow> (cpu \<Rightarrow> cpu) \<Rightarrow> 'a machine_scheme \<Rightarrow> 'a machine_scheme" where
  "set_cpu i f s = s\<lparr>cpus := (cpus s)[i := f (cpus s ! i)]\<rparr>"

definition set_lock ::
    "lockid \<Rightarrow> (spinlock \<Rightarrow> spinlock) \<Rightarrow> 'a machine_scheme \<Rightarrow> 'a machine_scheme" where
  "set_lock l f s = s\<lparr>locks := (locks s)(l := f (locks s l))\<rparr>"

definition pushcli :: "'a machine_scheme \<Rightarrow> ('a machine_scheme) outcome" where
  "pushcli s =
     (let eflags_if = ifl s; s = s\<lparr>ifl := False\<rparr> in
      and_then (mycpu s) (\<lambda>i.
        let s = (if c_ncli (cpus s ! i) = 0
                 then set_cpu i (\<lambda>c. c\<lparr>c_intena := eflags_if\<rparr>) s else s)
        in Inr (set_cpu i (\<lambda>c. c\<lparr>c_ncli := c_ncli c + 1\<rparr>) s)))"

definition popcli :: "'a machine_scheme \<Rightarrow> ('a machine_scheme) outcome" where
  "popcli s =
     (if ifl s then Inl (Panic ''popcli - interruptible'')
      else and_then (mycpu s) (\<lambda>i.
        let s = set_cpu i (\<lambda>c. c\<lparr>c_ncli := c_ncli c - 1\<rparr>) s in
        if c_ncli (cpus s ! i) < 0 then Inl (Panic ''popcli'')
        else if c_ncli (cpus s ! i) = 0 \<and> c_intena (cpus s ! i) then Inr (s\<lparr>ifl := True\<rparr>)
        else Inr s))"

definition myproc :: "'a machine_scheme \<Rightarrow> (nat option \<times> 'a machine_scheme) outcome" where
  "myproc s =
     and_then (pushcli s) (\<lambda>s.
     and_then (mycpu s) (\<lambda>c.
       let p = c_proc (cpus s ! c) in
       and_then (popcli s) (\<lambda>s. Inr (p, s))))"

definition initlock :: "lockid \<Rightarrow> string \<Rightarrow> 'a machine_scheme \<Rightarrow> 'a machine_scheme" where
  "initlock l name s =
     set_lock l (\<lambda>k. k\<lparr>lk_name := name, lk_locked := 0, lk_cpu := None\<rparr>) s"

definition holding :: "lockid \<Rightarrow> 'a machine_scheme \<Rightarrow> (bool \<times> 'a machine_scheme) outcome" where
  "holding l s =
     and_then (pushcli s) (\<lambda>s.
     and_then (mycpu s) (\<lambda>c.
       let r = (lk_locked (locks s l) \<noteq> 0 \<and> lk_cpu (locks s l) = Some c) in
       and_then (popcli s) (\<lambda>s. Inr (r, s))))"

definition xchg_locked ::
    "lockid \<Rightarrow> u32 \<Rightarrow> 'a machine_scheme \<Rightarrow> u32 \<times> 'a machine_scheme" where
  "xchg_locked l v s = (lk_locked (locks s l), set_lock l (\<lambda>k. k\<lparr>lk_locked := v\<rparr>) s)"

definition acquire :: "lockid \<Rightarrow> 'a machine_scheme \<Rightarrow> ('a machine_scheme) outcome" where
  "acquire l s =
     and_then (pushcli s) (\<lambda>s.
     and_then (holding l s) (\<lambda>(r, s).
       if r then Inl (Panic ''acquire'')
       else let (old, s) = xchg_locked l 1 s in
         if old \<noteq> 0 then Inl (Spinning l)
         else and_then (mycpu s) (\<lambda>c. Inr (set_lock l (\<lambda>k. k\<lparr>lk_cpu := Some c\<rparr>) s))))"

definition release :: "lockid \<Rightarrow> 'a machine_scheme \<Rightarrow> ('a machine_scheme) outcome" where
  "release l s =
     and_then (holding l s) (\<lambda>(r, s).
       if \<not> r then Inl (Panic ''release'')
       else popcli (set_lock l (\<lambda>k. k\<lparr>lk_locked := 0\<rparr>)
                     (set_lock l (\<lambda>k. k\<lparr>lk_cpu := None\<rparr>) s)))"

section \<open>Effect of the routines\<close>

definition here :: "'a machine_scheme \<Rightarrow> nat option" where
  "here s = scan (\<lambda>c. c_apicid c = lapic_id s) (cpus s)"

definition self :: "'a machine_scheme \<Rightarrow> nat" where
  "self s = (case here s of Some i \<Rightarrow> i | None \<Rightarrow> 0)"

definition self_cpu :: "'a machine_scheme \<Rightarrow> cpu" where
  "self_cpu s = cpus s ! self s"

definition running :: "'a machine_scheme \<Rightarrow> nat option" where
  "running s = c_proc (self_cpu s)"

text \<open>
  A CPU is in order when it is a detected one, its nesting depth is not negative, and
  interrupts are off whenever the depth is positive.
\<close>

definition cpu_ok :: "'a machine_scheme \<Rightarrow> bool" where
  "cpu_ok s \<longleftrightarrow>
     here s \<noteq> None \<and> 0 \<le> c_ncli (self_cpu s) \<and> (ifl s \<longrightarrow> c_ncli (self_cpu s) = 0)"

definition pushed :: "'a machine_scheme \<Rightarrow> 'a machine_scheme" where
  "pushed s = s\<lparr>ifl := False,
     cpus := (cpus s)[self s := (self_cpu s)\<lparr>
       c_intena := (if c_ncli (self_cpu s) = 0 then ifl s else c_intena (self_cpu s)),
       c_ncli := c_ncli (self_cpu s) + 1\<rparr>]\<rparr>"

definition popped :: "'a machine_scheme \<Rightarrow> 'a machine_scheme" where
  "popped s = s\<lparr>ifl := (c_ncli (self_cpu s) = 1 \<and> c_intena (self_cpu s)),
     cpus := (cpus s)[self s := (self_cpu s)\<lparr>c_ncli := c_ncli (self_cpu s) - 1\<rparr>]\<rparr>"

text \<open>
  What a balanced \<open>pushcli\<close>/\<open>popcli\<close> pair leaves behind: at depth 0 the saved
  interrupt flag is refreshed, nothing else changes.
\<close>

definition balanced :: "'a machine_scheme \<Rightarrow> 'a machine_scheme" where
  "balanced s = s\<lparr>cpus := (cpus s)[self s := (self_cpu s)\<lparr>
     c_intena := (if c_ncli (self_cpu s) = 0 then ifl s else c_intena (self_cpu s))\<rparr>]\<rparr>"

definition enter :: "lockid \<Rightarrow> 'a machine_scheme \<Rightarrow> 'a machine_scheme" where
  "enter l s = set_lock l (\<lambda>k. k\<lparr>lk_locked := 1, lk_cpu := Some (self s)\<rparr>) (pushed s)"

definition leave :: "lockid \<Rightarrow> 'a machine_scheme \<Rightarrow> 'a machine_scheme" where
  "leave l s = popped (set_lock l (\<lambda>k. k\<lparr>lk_locked := 0, lk_cpu := None\<rparr>) s)"

definition lock_free :: "lockid \<Rightarrow> 'a machine_scheme \<Rightarrow> bool" where
  "lock_free l s \<longleftrightarrow> lk_locked (locks s l) = 0 \<and> lk_cpu (locks s l) = None"

definition lock_held :: "lockid \<Rightarrow> 'a machine_scheme \<Rightarrow> bool" where
  "lock_held l s \<longleftrightarrow> lk_locked (locks s l) \<noteq> 0 \<and> lk_cpu (locks s l) = Some (self s)"

text \<open>As \<open>acquire\<close> leaves the lock for this CPU.\<close>

definition lock_mine :: "lockid \<Rightarrow> 'a machine_scheme \<Rightarrow> bool" where
  "lock_mine l s \<longleftrightarrow> lk_locked (locks s l) = 1 \<and> lk_cpu (locks s l) = Some (self s)"

lemma lock_mine_held: "lock_mine l s \<Longrightarrow> lock_held l s"
  by (simp add: lock_mine_def lock_held_def)

lemma scan_update_same:
  assumes "P x = P (xs ! i)"
  shows "scan P (xs[i := x]) = scan P xs"
proof -
  have "scan_from k P (xs[i := x]) = scan_from k P xs" for k
    using assms by (induction xs arbitrary: i k) (auto split: nat.splits)
  then show ?thesis by (simp add: scan_def)
qed

lemma scan_cpus_update [simp]:
  assumes "c_apicid c = c_apicid (cs ! i)"
  shows "scan (\<lambda>c. c_apicid c = a) (cs[i := c]) = scan (\<lambda>c. c_apicid c = a) cs"
  using assms by (intro scan_update_same) simp

lemma here_update_cpus [simp]:
  assumes "c_apicid c = c_apicid (cpus s ! i)"
  shows "here (s\<lparr>cpus := (cpus s)[i := c]\<rparr>) = here s"
  using assms by (simp add: here_def)

lemma here_update [simp]:
  "here (s\<lparr>ifl := b\<rparr>) = here s"
  "here (s\<lparr>locks := k\<rparr>) = here s"
  by (simp_all add: here_def)

lemma ifl_same: "\<not> ifl s \<Longrightarrow> s\<lparr>ifl := False\<rparr> = s"
  by (cases s) simp

lemma self_cong: "cpus s = cpus t \<Longrightarrow> lapic_id s = lapic_id t \<Longrightarrow> self s = self t"
  by (simp add: self_def here_def)

lemma self_less: "cpu_ok s \<Longrightarrow> self s < length (cpus s)"
  by (auto simp: cpu_ok_def self_def here_def dest: scan_SomeD split: option.splits)

lemma mycpu_ok: "cpu_ok s \<Longrightarrow> \<not> ifl s \<Longrightarrow> mycpu s = Inr (self s)"
  by (auto simp: mycpu_def cpu_ok_def self_def here_def)


lemma lock_free_not_held: "lock_free l s \<Longrightarrow> \<not> lock_held l s"
  by (simp add: lock_free_def lock_held_def)

subsection \<open>Interrupt masking\<close>

lemma here_simps [simp]:
  "here (pushed s) = here s"
  "here (popped s) = here s"
  "here (balanced s) = here s"
  "here (set_lock l f s) = here s"
  by (simp_all add: here_def pushed_def popped_def balanced_def set_lock_def self_cpu_def)

lemma self_simps [simp]:
  "self (pushed s) = self s"
  "self (popped s) = self s"
  "self (balanced s) = self s"
  "self (set_lock l f s) = self s"
  by (simp_all add: self_def)

lemma self_cpu_set_lock [simp]: "self_cpu (set_lock l f s) = self_cpu s"
  by (simp add: self_cpu_def) (simp add: set_lock_def)

lemma cpu_ok_set_lock [simp]: "cpu_ok (set_lock l f s) = cpu_ok s"
  by (simp add: cpu_ok_def) (simp add: set_lock_def)

lemma self_cpu_pushed [simp]:
  "cpu_ok s \<Longrightarrow> self_cpu (pushed s) = (self_cpu s)\<lparr>
       c_intena := (if c_ncli (self_cpu s) = 0 then ifl s else c_intena (self_cpu s)),
       c_ncli := c_ncli (self_cpu s) + 1\<rparr>"
  using self_less [of s]
  by (simp add: self_cpu_def [of "pushed s"]) (simp add: pushed_def)

lemma self_cpu_popped [simp]:
  "cpu_ok s \<Longrightarrow> self_cpu (popped s) = (self_cpu s)\<lparr>c_ncli := c_ncli (self_cpu s) - 1\<rparr>"
  using self_less [of s]
  by (simp add: self_cpu_def [of "popped s"]) (simp add: popped_def)

lemma self_cpu_balanced [simp]:
  "cpu_ok s \<Longrightarrow> self_cpu (balanced s) = (self_cpu s)\<lparr>
       c_intena := (if c_ncli (self_cpu s) = 0 then ifl s else c_intena (self_cpu s))\<rparr>"
  using self_less [of s]
  by (simp add: self_cpu_def [of "balanced s"]) (simp add: balanced_def)

lemma ifl_simps [simp]:
  "ifl (pushed s) = False"
  "ifl (popped s) = (c_ncli (self_cpu s) = 1 \<and> c_intena (self_cpu s))"
  "ifl (balanced s) = ifl s"
  "ifl (set_lock l f s) = ifl s"
  by (simp_all add: pushed_def popped_def balanced_def set_lock_def)

lemma locks_simps [simp]:
  "locks (pushed s) = locks s"
  "locks (popped s) = locks s"
  "locks (balanced s) = locks s"
  "locks (set_lock l f s) = (locks s)(l := f (locks s l))"
  by (simp_all add: pushed_def popped_def balanced_def set_lock_def)

lemma cpu_ok_pushed [simp]: "cpu_ok s \<Longrightarrow> cpu_ok (pushed s)"
  unfolding cpu_ok_def [of "pushed s"] by (auto simp: cpu_ok_def)

lemma cpu_ok_balanced [simp]: "cpu_ok s \<Longrightarrow> cpu_ok (balanced s)"
  unfolding cpu_ok_def [of "balanced s"] by (auto simp: cpu_ok_def)

lemma cpu_ok_popped [simp]:
  "cpu_ok s \<Longrightarrow> 0 < c_ncli (self_cpu s) \<Longrightarrow> cpu_ok (popped s)"
  unfolding cpu_ok_def [of "popped s"] by (auto simp: cpu_ok_def)

lemma pushcli_ok [outcome_simps]: "cpu_ok s \<Longrightarrow> pushcli s = Inr (pushed s)"
proof -
  assume ok: "cpu_ok s"
  have "mycpu (s\<lparr>ifl := False\<rparr>) = Inr (self s)"
    using ok by (auto simp: mycpu_def cpu_ok_def self_def here_def)
  then show ?thesis
    using self_less [OF ok] by (simp add: pushcli_def set_cpu_def pushed_def self_cpu_def)
qed

lemma popcli_ok [outcome_simps]:
  assumes ok: "cpu_ok s" and off: "\<not> ifl s" and pos: "0 < c_ncli (self_cpu s)"
  shows "popcli s = Inr (popped s)"
  using self_less [OF ok] mycpu_ok [OF ok off] off pos
  by (simp add: popcli_def set_cpu_def popped_def self_cpu_def Let_def ifl_same)

lemma popcli_unbalanced:
  assumes ok: "cpu_ok s" and off: "\<not> ifl s" and zero: "c_ncli (self_cpu s) = 0"
  shows "popcli s = Inl (Panic ''popcli'')"
  using self_less [OF ok] mycpu_ok [OF ok off] off zero
  by (simp add: popcli_def set_cpu_def self_cpu_def)

lemma popped_pushed: "cpu_ok s \<Longrightarrow> popped (pushed s) = balanced s"
  using self_less [of s]
  by (simp add: popped_def [of "pushed s"]) (auto simp: pushed_def balanced_def cpu_ok_def)

lemma balanced_deep: "cpu_ok s \<Longrightarrow> c_ncli (self_cpu s) \<noteq> 0 \<Longrightarrow> balanced s = s"
  using self_less [of s] by (simp add: balanced_def self_cpu_def)

lemma balanced_idem [simp]: "cpu_ok s \<Longrightarrow> balanced (balanced s) = balanced s"
  using self_less [of s]
  by (simp add: balanced_def [of "balanced s"]) (simp add: balanced_def)

lemma running_simps [simp]:
  "cpu_ok s \<Longrightarrow> running (pushed s) = running s"
  "cpu_ok s \<Longrightarrow> running (popped s) = running s"
  "cpu_ok s \<Longrightarrow> running (balanced s) = running s"
  "running (set_lock l f s) = running s"
  by (simp_all add: running_def)

lemma myproc_ok [outcome_simps]: "cpu_ok s \<Longrightarrow> myproc s = Inr (running s, balanced s)"
proof -
  assume ok: "cpu_ok s"
  then have pos: "0 < c_ncli (self_cpu (pushed s))" by (simp add: cpu_ok_def)
  have "c_proc (cpus (pushed s) ! self s) = running s"
    using running_simps(1) [OF ok] by (simp add: running_def [of "pushed s"] self_cpu_def)
  then show ?thesis
    using ok pos
    by (simp add: myproc_def pushcli_ok mycpu_ok popcli_ok popped_pushed)
qed

lemma holding_ok [outcome_simps]: "cpu_ok s \<Longrightarrow> holding l s = Inr (lock_held l s, balanced s)"
proof -
  assume ok: "cpu_ok s"
  then have pos: "0 < c_ncli (self_cpu (pushed s))" by (simp add: cpu_ok_def)
  show ?thesis
    using ok pos
    by (simp add: holding_def pushcli_ok mycpu_ok popcli_ok popped_pushed lock_held_def)
qed

subsection \<open>Acquiring and releasing\<close>

lemma enter_simps [simp]:
  "self (enter l s) = self s"
  "here (enter l s) = here s"
  "ifl (enter l s) = False"
  "cpu_ok s \<Longrightarrow> cpu_ok (enter l s)"
  "cpu_ok s \<Longrightarrow> running (enter l s) = running s"
  "cpu_ok s \<Longrightarrow> self_cpu (enter l s) = self_cpu (pushed s)"
  "locks (enter l s) =
     (locks s)(l := (locks s l)\<lparr>lk_locked := 1, lk_cpu := Some (self s)\<rparr>)"
  by (simp_all add: enter_def)

lemma lock_held_enter [simp]: "lock_held k (enter l s) \<longleftrightarrow> k = l \<or> lock_held k s"
  by (simp add: lock_held_def)

lemma lock_free_enter [simp]: "lock_free k (enter l s) \<longleftrightarrow> k \<noteq> l \<and> lock_free k s"
  by (simp add: lock_free_def)

lemma ncli_enter_pos: "cpu_ok s \<Longrightarrow> 0 < c_ncli (self_cpu (enter l s))"
  by (simp add: cpu_ok_def)

lemma leave_simps [simp]:
  "self (leave l s) = self s"
  "here (leave l s) = here s"
  "cpu_ok s \<Longrightarrow> 0 < c_ncli (self_cpu s) \<Longrightarrow> cpu_ok (leave l s)"
  "cpu_ok s \<Longrightarrow> running (leave l s) = running s"
  "cpu_ok s \<Longrightarrow>
     self_cpu (leave l s) = (self_cpu s)\<lparr>c_ncli := c_ncli (self_cpu s) - 1\<rparr>"
  "locks (leave l s) = (locks s)(l := (locks s l)\<lparr>lk_locked := 0, lk_cpu := None\<rparr>)"
  by (simp_all add: leave_def)

lemma lock_free_leave [simp]: "lock_free k (leave l s) \<longleftrightarrow> k = l \<or> lock_free k s"
  by (simp add: lock_free_def)

lemma lock_held_leave [simp]: "lock_held k (leave l s) \<longleftrightarrow> k \<noteq> l \<and> lock_held k s"
  by (simp add: lock_held_def)

lemma lock_held_balanced [simp]:
  "lock_held l (balanced s) = lock_held l s"
  "lock_free l (balanced s) = lock_free l s"
  by (simp_all add: lock_held_def lock_free_def)

lemma lock_mine_simps [simp]:
  "lock_mine l (balanced s) = lock_mine l s"
  "lock_mine l (pushed s) = lock_mine l s"
  "lock_mine k (enter l s) \<longleftrightarrow> k = l \<or> lock_mine k s"
  "lock_mine k (leave l s) \<longleftrightarrow> k \<noteq> l \<and> lock_mine k s"
  by (simp_all add: lock_mine_def)

lemma lock_held_pushed [simp]:
  "lock_held l (pushed s) = lock_held l s"
  "lock_free l (pushed s) = lock_free l s"
  by (simp_all add: lock_held_def lock_free_def)

lemma lock_held_set_lock:
  "lock_held k (set_lock l f s) \<longleftrightarrow>
     (if k = l then lk_locked (f (locks s l)) \<noteq> 0 \<and> lk_cpu (f (locks s l)) = Some (self s)
      else lock_held k s)"
  by (simp add: lock_held_def)

lemma balanced_pushed [simp]: "cpu_ok s \<Longrightarrow> balanced (pushed s) = pushed s"
  by (rule balanced_deep) (auto simp: cpu_ok_def)

lemma balanced_enter [simp]: "cpu_ok s \<Longrightarrow> balanced (enter l s) = enter l s"
  by (rule balanced_deep) (auto simp: cpu_ok_def)

lemma set_lock_set_lock [simp]: "set_lock l f (set_lock l g s) = set_lock l (\<lambda>k. f (g k)) s"
  by (simp add: set_lock_def)

lemma acquire_ok [outcome_simps]:
  assumes "cpu_ok s" and "lk_locked (locks s l) = 0"
  shows "acquire l s = Inr (enter l s)"
  using assms
  by (simp add: acquire_def pushcli_ok holding_ok mycpu_ok lock_held_def xchg_locked_def
      enter_def)

lemma acquire_held:
  assumes "cpu_ok s" and "lock_held l s"
  shows "acquire l s = Inl (Panic ''acquire'')"
  using assms by (simp add: acquire_def pushcli_ok holding_ok)

lemma acquire_contended:
  assumes "cpu_ok s" and "lk_locked (locks s l) \<noteq> 0" and "\<not> lock_held l s"
  shows "acquire l s = Inl (Spinning l)"
  using assms by (simp add: acquire_def pushcli_ok holding_ok xchg_locked_def)

lemma release_ok [outcome_simps]:
  assumes ok: "cpu_ok s" and held: "lock_held l s" and pos: "0 < c_ncli (self_cpu s)"
  shows "release l s = Inr (leave l s)"
proof -
  have off: "\<not> ifl s" using ok pos by (auto simp: cpu_ok_def)
  have bal: "balanced s = s" using ok pos by (intro balanced_deep) auto
  let ?t = "set_lock l (\<lambda>k. k\<lparr>lk_locked := 0\<rparr>) (set_lock l (\<lambda>k. k\<lparr>lk_cpu := None\<rparr>) s)"
  have "(\<lambda>k::spinlock. k\<lparr>lk_cpu := None, lk_locked := 0\<rparr>) =
      (\<lambda>k. k\<lparr>lk_locked := 0, lk_cpu := None\<rparr>)"
    by (rule ext) (simp add: spinlock.equality)
  then have "?t = set_lock l (\<lambda>k. k\<lparr>lk_locked := 0, lk_cpu := None\<rparr>) s"
    by simp
  then show ?thesis
    using ok held pos off bal by (simp add: release_def holding_ok popcli_ok leave_def)
qed

lemma release_not_held:
  assumes "cpu_ok s" and "\<not> lock_held l s"
  shows "release l s = Inl (Panic ''release'')"
  using assms by (simp add: release_def holding_ok)

lemma leave_enter:
  assumes "cpu_ok s" and "lock_free l s"
  shows "leave l (enter l s) = balanced s"
proof -
  have lk: "(locks s l)\<lparr>lk_locked := 0, lk_cpu := None\<rparr> = locks s l"
    using assms(2) by (cases "locks s l") (simp add: lock_free_def)
  have "set_lock l (\<lambda>k. k\<lparr>lk_locked := 0, lk_cpu := None\<rparr>) (enter l s) = pushed s"
    unfolding enter_def set_lock_def by (simp add: lk)
  then show ?thesis using assms(1) by (simp add: leave_def popped_pushed)
qed

text \<open>Letting go of a lock and taking it back at once restores the state.\<close>

lemma enter_leave:
  assumes "cpu_ok s" and "lock_mine l s" and "0 < c_ncli (self_cpu s)"
  shows "enter l (balanced (leave l s)) = s"
proof -
  have lt: "self s < length (cpus s)" using assms(1) by (rule self_less)
  have off: "\<not> ifl s" using assms(1,3) by (auto simp: cpu_ok_def)
  have lk: "(locks s l)\<lparr>lk_locked := 1, lk_cpu := Some (self s)\<rparr> = locks s l"
    using assms(2) by (cases "locks s l") (simp add: lock_mine_def)
  have cpu: "cpu_ok (leave l s)" using assms by simp
  have cpus_leave: "cpus (leave l s) = (cpus s)[self s := (self_cpu s)\<lparr>c_ncli := c_ncli (self_cpu s) - 1\<rparr>]"
    unfolding leave_def popped_def self_simps self_cpu_set_lock by (simp add: set_lock_def)
  have cpus_balanced: "cpus (balanced t) = (cpus t)[self t := (self_cpu t)\<lparr>
      c_intena := (if c_ncli (self_cpu t) = 0 then ifl t else c_intena (self_cpu t))\<rparr>]"
    for t :: "'a machine_scheme" by (simp add: balanced_def)
  have cpus_enter: "cpus (enter l t) = (cpus t)[self t := (self_cpu t)\<lparr>
       c_intena := (if c_ncli (self_cpu t) = 0 then ifl t else c_intena (self_cpu t)),
       c_ncli := c_ncli (self_cpu t) + 1\<rparr>]"
    for t :: "'a machine_scheme" by (simp add: enter_def set_lock_def pushed_def)
  have i1: "ifl (leave l s) = (c_ncli (self_cpu s) = 1 \<and> c_intena (self_cpu s))"
    by (simp add: leave_def)
  have "(self_cpu s)\<lparr>c_intena := c_intena (self_cpu s), c_ncli := c_ncli (self_cpu s)\<rparr> = cpus s ! self s"
    by (simp add: self_cpu_def)
  then have "cpus (enter l (balanced (leave l s))) = cpus s"
    using i1 lt assms cpu by (auto simp: cpus_leave cpus_balanced cpus_enter)
  moreover have "locks (enter l (balanced (leave l s))) = locks s" using lk by simp
  moreover have "ifl (enter l (balanced (leave l s))) = ifl s" using off by simp
  moreover have "lapic_id (enter l (balanced (leave l s))) = lapic_id s"
    "printed (enter l (balanced (leave l s))) = printed s"
    "machine.more (enter l (balanced (leave l s))) = machine.more s"
    by (simp_all add: enter_def leave_def balanced_def popped_def pushed_def set_lock_def)
  ultimately show ?thesis by (intro machine.equality)
qed

subsection \<open>Console output\<close>

text \<open>The lock routines do not print, and do not depend on what was printed.\<close>

lemma printed_fields [simp]:
  "printed (pushed s) = printed s" "printed (popped s) = printed s"
  "printed (balanced s) = printed s" "printed (set_lock l f s) = printed s"
  "printed (enter l s) = printed s" "printed (leave l s) = printed s"
  by (simp_all add: enter_def leave_def balanced_def popped_def pushed_def set_lock_def)

lemma printed_updates [simp]:
  "here (s\<lparr>printed := v0\<rparr>) = here s" "self (s\<lparr>printed := v0\<rparr>) = self s"
  "self_cpu (s\<lparr>printed := v0\<rparr>) = self_cpu s"
  "running (s\<lparr>printed := v0\<rparr>) = running s"
  "cpu_ok (s\<lparr>printed := v0\<rparr>) = cpu_ok s"
  "lock_free l (s\<lparr>printed := v0\<rparr>) = lock_free l s"
  "lock_held l (s\<lparr>printed := v0\<rparr>) = lock_held l s"
  "lock_mine l (s\<lparr>printed := v0\<rparr>) = lock_mine l s"
  by (simp_all add: here_def self_def self_cpu_def running_def cpu_ok_def lock_free_def lock_held_def
      lock_mine_def)

lemma printed_commute [simp]:
  "pushed (s\<lparr>printed := v0\<rparr>) = (pushed s)\<lparr>printed := v0\<rparr>"
  "popped (s\<lparr>printed := v0\<rparr>) = (popped s)\<lparr>printed := v0\<rparr>"
  "balanced (s\<lparr>printed := v0\<rparr>) = (balanced s)\<lparr>printed := v0\<rparr>"
  "set_lock l f (s\<lparr>printed := v0\<rparr>) = (set_lock l f s)\<lparr>printed := v0\<rparr>"
  by (simp_all add: pushed_def popped_def balanced_def set_lock_def)

lemma printed_commute_lock [simp]:
  "enter l (s\<lparr>printed := v0\<rparr>) = (enter l s)\<lparr>printed := v0\<rparr>"
  "leave l (s\<lparr>printed := v0\<rparr>) = (leave l s)\<lparr>printed := v0\<rparr>"
  by (simp_all add: enter_def leave_def)

lemma printed_plain [simp]:
  "ifl (s\<lparr>printed := v\<rparr>) = ifl s" "locks (s\<lparr>printed := v\<rparr>) = locks s"
  by simp_all

subsection \<open>The contract of a lock-protected section\<close>

text \<open>
  Clients take a lock, run a section that keeps holding it, and release it. Whatever
  the section does, the bracket returns and leaves the lock free.
\<close>

locale section_lock =
  fixes acq :: "'s \<Rightarrow> 's outcome"
    and rel :: "'s \<Rightarrow> 's outcome"
    and idle :: "'s \<Rightarrow> bool"
    and inside :: "'s \<Rightarrow> bool"
  assumes acq_idle: "idle s \<Longrightarrow> \<exists>t. acq s = Inr t \<and> inside t"
    and rel_inside: "inside t \<Longrightarrow> \<exists>u. rel t = Inr u \<and> idle u"
begin

lemma bracket:
  assumes "idle s" and "\<And>t. inside t \<Longrightarrow> \<exists>u. f t = Inr u \<and> inside u"
  shows "\<exists>u. and_then (acq s) (\<lambda>t. and_then (f t) rel) = Inr u \<and> idle u"
proof -
  from acq_idle [OF assms(1)] obtain t where t: "acq s = Inr t" "inside t" by blast
  from assms(2) [OF t(2)] obtain u where u: "f t = Inr u" "inside u" by blast
  from rel_inside [OF u(2)] show ?thesis using t u by simp
qed

lemma bracket_ret:
  assumes "idle s" and "\<And>t. inside t \<Longrightarrow> \<exists>r u. f t = Inr (r, u) \<and> inside u"
  shows "\<exists>r u. and_then (acq s) (\<lambda>t. and_then (f t) (\<lambda>(r, u).
           and_then (rel u) (\<lambda>u. Inr (r, u)))) = Inr (r, u) \<and> idle u"
proof -
  from acq_idle [OF assms(1)] obtain t where t: "acq s = Inr t" "inside t" by blast
  from assms(2) [OF t(2)] obtain r u where u: "f t = Inr (r, u)" "inside u" by blast
  from rel_inside [OF u(2)] show ?thesis using t u by auto
qed

end

definition lock_idle :: "lockid \<Rightarrow> 'a machine_scheme \<Rightarrow> bool" where
  "lock_idle l s \<longleftrightarrow> cpu_ok s \<and> lock_free l s"

definition lock_inside :: "lockid \<Rightarrow> 'a machine_scheme \<Rightarrow> bool" where
  "lock_inside l s \<longleftrightarrow> cpu_ok s \<and> lock_held l s \<and> 0 < c_ncli (self_cpu s)"

interpretation spin: section_lock "acquire l" "release l" "lock_idle l" "lock_inside l" for l
proof unfold_locales
  fix s :: "'a machine_scheme"
  assume "lock_idle l s"
  then show "\<exists>t. acquire l s = Inr t \<and> lock_inside l t"
    using ncli_enter_pos [of s l]
    by (auto simp: lock_idle_def lock_inside_def lock_free_def acquire_ok)
next
  fix t :: "'a machine_scheme"
  assume "lock_inside l t"
  then show "\<exists>u. release l t = Inr u \<and> lock_idle l u"
    by (auto simp: lock_idle_def lock_inside_def release_ok)
qed

section \<open>Nesting of interrupt masking\<close>

primrec iterate :: "nat \<Rightarrow> ('s \<Rightarrow> 's outcome) \<Rightarrow> 's \<Rightarrow> 's outcome" where
  "iterate 0 f s = Inr s"
| "iterate (Suc n) f s = and_then (f s) (iterate n f)"

lemma iterate_pushcli:
  assumes "cpu_ok s"
  shows "\<exists>t. iterate n pushcli s = Inr t \<and> cpu_ok t \<and> here t = here s \<and>
    c_ncli (self_cpu t) = c_ncli (self_cpu s) + int n \<and>
    (0 < n \<longrightarrow> \<not> ifl t \<and> c_intena (self_cpu t) =
       (if c_ncli (self_cpu s) = 0 then ifl s else c_intena (self_cpu s))) \<and>
    (n = 0 \<longrightarrow> t = s)"
  using assms
proof (induction n arbitrary: s)
  case 0
  then show ?case by simp
next
  case (Suc n)
  then obtain t where t: "iterate n pushcli (pushed s) = Inr t" "cpu_ok t"
      "here t = here (pushed s)"
      "c_ncli (self_cpu t) = c_ncli (self_cpu (pushed s)) + int n"
      "0 < n \<longrightarrow> \<not> ifl t \<and> c_intena (self_cpu t) =
         (if c_ncli (self_cpu (pushed s)) = 0 then ifl (pushed s)
          else c_intena (self_cpu (pushed s)))"
      "n = 0 \<longrightarrow> t = pushed s"
    using Suc.IH [of "pushed s"] by auto
  have "c_ncli (self_cpu (pushed s)) \<noteq> 0" using Suc.prems by (simp add: cpu_ok_def)
  then show ?case
    using Suc.prems t by (cases "n = 0") (auto simp: pushcli_ok)
qed

lemma iterate_popcli:
  assumes "cpu_ok s" and "int n \<le> c_ncli (self_cpu s)" and "\<not> ifl s"
  shows "\<exists>t. iterate n popcli s = Inr t \<and> cpu_ok t \<and>
    c_ncli (self_cpu t) = c_ncli (self_cpu s) - int n \<and>
    ifl t = (0 < n \<and> int n = c_ncli (self_cpu s) \<and> c_intena (self_cpu s))"
  using assms
proof (induction n arbitrary: s)
  case 0
  then show ?case by simp
next
  case (Suc n)
  then have pos: "0 < c_ncli (self_cpu s)" by simp
  then have pop: "popcli s = Inr (popped s)" and ok: "cpu_ok (popped s)"
    and n: "int n \<le> c_ncli (self_cpu (popped s))"
    using Suc.prems by (simp_all add: popcli_ok)
  show ?case
  proof (cases "n = 0")
    case True
    then show ?thesis using pop ok pos Suc.prems by auto
  next
    case False
    then have "\<not> ifl (popped s)" using Suc.prems by simp
    from Suc.IH [OF ok n this] show ?thesis
      using pop ok Suc.prems False by auto
  qed
qed

section \<open>Several CPUs contend for one lock\<close>

text \<open>
  The interleaving semantics of \<open>acquire\<close> and \<open>release\<close> on one lock. A CPU is outside,
  spins on the atomic exchange, has won the exchange but not yet recorded itself in
  \<open>lk->cpu\<close>, is in its critical section, or has cleared \<open>lk->cpu\<close> and not yet stored 0
  into \<open>lk->locked\<close>. Each rule is one atomic access to the lock.
\<close>

datatype lock_pc = Outside | Trying | Won | Critical | Leaving

record contention =
  ct_lock :: spinlock
  ct_pc :: "nat \<Rightarrow> lock_pc"

definition contention_init :: contention where
  "contention_init = \<lparr>ct_lock = \<lparr>lk_locked = 0, lk_name = [], lk_cpu = None\<rparr>,
     ct_pc = (\<lambda>_. Outside)\<rparr>"

definition ct_holding :: "contention \<Rightarrow> nat \<Rightarrow> bool" where
  "ct_holding t i \<longleftrightarrow> lk_locked (ct_lock t) \<noteq> 0 \<and> lk_cpu (ct_lock t) = Some i"

inductive contention_step :: "contention \<Rightarrow> contention \<Rightarrow> bool" where
  start: "ct_pc t i = Outside \<Longrightarrow> \<not> ct_holding t i \<Longrightarrow>
     contention_step t (t\<lparr>ct_pc := (ct_pc t)(i := Trying)\<rparr>)"
| xchg_fail: "ct_pc t i = Trying \<Longrightarrow> lk_locked (ct_lock t) \<noteq> 0 \<Longrightarrow>
     contention_step t (t\<lparr>ct_lock := (ct_lock t)\<lparr>lk_locked := 1\<rparr>\<rparr>)"
| xchg_win: "ct_pc t i = Trying \<Longrightarrow> lk_locked (ct_lock t) = 0 \<Longrightarrow>
     contention_step t (t\<lparr>ct_lock := (ct_lock t)\<lparr>lk_locked := 1\<rparr>,
       ct_pc := (ct_pc t)(i := Won)\<rparr>)"
| record_cpu: "ct_pc t i = Won \<Longrightarrow>
     contention_step t (t\<lparr>ct_lock := (ct_lock t)\<lparr>lk_cpu := Some i\<rparr>,
       ct_pc := (ct_pc t)(i := Critical)\<rparr>)"
| clear_cpu: "ct_pc t i = Critical \<Longrightarrow> ct_holding t i \<Longrightarrow>
     contention_step t (t\<lparr>ct_lock := (ct_lock t)\<lparr>lk_cpu := None\<rparr>,
       ct_pc := (ct_pc t)(i := Leaving)\<rparr>)"
| unlock: "ct_pc t i = Leaving \<Longrightarrow>
     contention_step t (t\<lparr>ct_lock := (ct_lock t)\<lparr>lk_locked := 0\<rparr>,
       ct_pc := (ct_pc t)(i := Outside)\<rparr>)"

inductive contention_reach :: "contention \<Rightarrow> bool" where
  init: "contention_reach contention_init"
| step: "contention_reach t \<Longrightarrow> contention_step t u \<Longrightarrow> contention_reach u"

definition owns :: "lock_pc \<Rightarrow> bool" where
  "owns pc \<longleftrightarrow> pc = Won \<or> pc = Critical \<or> pc = Leaving"

lemma owns_simps [simp]:
  "owns Won" "owns Critical" "owns Leaving" "\<not> owns Outside" "\<not> owns Trying"
  by (simp_all add: owns_def)

definition contention_inv :: "contention \<Rightarrow> bool" where
  "contention_inv t \<longleftrightarrow>
     (\<forall>i j. owns (ct_pc t i) \<and> owns (ct_pc t j) \<longrightarrow> i = j) \<and>
     (lk_locked (ct_lock t) \<noteq> 0 \<longleftrightarrow> (\<exists>i. owns (ct_pc t i))) \<and>
     (\<forall>i. lk_cpu (ct_lock t) = Some i \<longleftrightarrow> ct_pc t i = Critical)"

lemma contention_inv_init: "contention_inv contention_init"
  by (simp add: contention_inv_def contention_init_def)

lemma contention_step_inv: "contention_step t u \<Longrightarrow> contention_inv t \<Longrightarrow> contention_inv u"
proof (induction rule: contention_step.induct)
  case (start t i)
  have "owns (((ct_pc t)(i := Trying)) j) = owns (ct_pc t j)"
    and "(((ct_pc t)(i := Trying)) j = Critical) = (ct_pc t j = Critical)" for j
    using start by auto
  then show ?case using start by (simp add: contention_inv_def del: fun_upd_apply)
next
  case (xchg_fail t i)
  then show ?case by (auto simp: contention_inv_def)
next
  case (xchg_win t i)
  then show ?case by (auto simp: contention_inv_def)
next
  case (record_cpu t i)
  then have "ct_pc t j = Critical \<Longrightarrow> False" for j
    unfolding contention_inv_def by (metis lock_pc.distinct owns_simps(1,2))
  moreover have "owns (ct_pc t i)" using record_cpu by simp
  ultimately show ?case using record_cpu unfolding contention_inv_def
    by (auto split: if_splits) (metis owns_simps)+
next
  case (clear_cpu t i)
  then have "owns (ct_pc t i)" by simp
  with clear_cpu show ?case unfolding contention_inv_def ct_holding_def
    by (auto split: if_splits)
next
  case (unlock t i)
  then have "owns (ct_pc t i)" by simp
  with unlock show ?case unfolding contention_inv_def
    by (auto split: if_splits)
qed

lemma contention_reach_inv: "contention_reach t \<Longrightarrow> contention_inv t"
  by (induction rule: contention_reach.induct)
    (auto intro: contention_inv_init contention_step_inv)

end
