(* ===== verification/Kstring.thy ===== *)
theory Kstring
  imports Xv6_Prelude
begin

text \<open>
  Byte memory and the kernel's string routines, \<open>src/string.c\<close>.

  A memory maps each 32-bit address to a byte; address arithmetic wraps, as it does on
  the machine. \<open>load32\<close> and \<open>store32\<close> are the little-endian accesses behind
  \<open>*(uint*)p\<close>. The routines take and return the memory, so overlapping source and
  destination behave as in the code. \<open>strlen\<close> may run off the end of an unterminated
  string; its model takes a bound on the number of bytes it may look at.
\<close>

unbundle bit_operations_syntax

named_theorems mem_simps \<open>reading after writing\<close>

type_synonym memory = "u32 \<Rightarrow> u8"

section \<open>Words in memory\<close>

definition load32 :: "memory \<Rightarrow> u32 \<Rightarrow> u32" where
  "load32 m a = ucast (m a) OR push_bit 8 (ucast (m (a + 1)))
     OR push_bit 16 (ucast (m (a + 2))) OR push_bit 24 (ucast (m (a + 3)))"

definition store32 :: "memory \<Rightarrow> u32 \<Rightarrow> u32 \<Rightarrow> memory" where
  "store32 m a v = m(a := ucast v, a + 1 := ucast (drop_bit 8 v),
     a + 2 := ucast (drop_bit 16 v), a + 3 := ucast (drop_bit 24 v))"

text \<open>\<open>in_range d n a\<close>: address \<open>a\<close> is one of the \<open>n\<close> bytes that start at \<open>d\<close>.\<close>

definition in_range :: "u32 \<Rightarrow> nat \<Rightarrow> u32 \<Rightarrow> bool" where
  "in_range d n a \<longleftrightarrow> unat (a - d) < n"

lemma bytes_join:
  "(ucast (ucast v :: u8) :: u32) OR push_bit 8 (ucast (ucast (drop_bit 8 v) :: u8))
     OR push_bit 16 (ucast (ucast (drop_bit 16 v) :: u8))
     OR push_bit 24 (ucast (ucast (drop_bit 24 v) :: u8)) = v"
proof (rule bit_eqI)
  fix n
  assume "possible_bit TYPE(32 word) n"
  then have "n < 32" by simp
  then consider "n < 8" | "8 \<le> n" "n < 16" | "16 \<le> n" "n < 24" | "24 \<le> n" "n < 32"
    by linarith
  then show "bit ((ucast (ucast v :: u8) :: u32) OR push_bit 8 (ucast (ucast (drop_bit 8 v) :: u8))
     OR push_bit 16 (ucast (ucast (drop_bit 16 v) :: u8))
     OR push_bit 24 (ucast (ucast (drop_bit 24 v) :: u8))) n = bit v n"
    by cases (auto simp: bit_simps)
qed

lemma load32_store32 [simp, mem_simps]: "load32 (store32 m a v) a = v"
  using bytes_join [of v] by (simp add: load32_def store32_def)

lemma addr_offset: "(a::u32) = d + of_nat (unat (a - d))"
  by simp

lemma in_range_iff: "in_range d n a \<longleftrightarrow> (\<exists>i<n. i < 4294967296 \<and> a = d + of_nat i)"
proof
  assume "in_range d n a"
  then show "\<exists>i<n. i < 4294967296 \<and> a = d + of_nat i"
    unfolding in_range_def using addr_offset [of a d] unat_less_2_32 [of "a - d"] by auto
next
  assume "\<exists>i<n. i < 4294967296 \<and> a = d + of_nat i"
  then obtain i where "i < n" "i < 4294967296" "a = d + of_nat i" by blast
  then show "in_range d n a" by (simp add: in_range_def)
qed

lemma unat_less_4: "unat (x::u32) < 4 \<longleftrightarrow> x = 0 \<or> x = 1 \<or> x = 2 \<or> x = 3"
proof
  assume "unat x < 4"
  then consider "unat x = 0" | "unat x = 1" | "unat x = 2" | "unat x = 3" by linarith
  moreover have x: "x = of_nat (unat x)" by simp
  ultimately show "x = 0 \<or> x = 1 \<or> x = 2 \<or> x = 3"
  proof cases
    case 1 then show ?thesis by (simp add: unat_eq_0)
  next
    case 2 with x show ?thesis by simp
  next
    case 3 with x show ?thesis by simp
  next
    case 4 with x show ?thesis by simp
  qed
next
  assume "x = 0 \<or> x = 1 \<or> x = 2 \<or> x = 3"
  then show "unat x < 4" by (elim disjE) simp_all
qed

lemma in_range_4: "in_range d 4 a \<longleftrightarrow> a = d \<or> a = d + 1 \<or> a = d + 2 \<or> a = d + 3"
  unfolding in_range_def unat_less_4 by (simp add: diff_eq_eq add.commute)

lemma store32_apply:
  "store32 m d v a = (if in_range d 4 a then ucast (drop_bit (8 * unat (a - d)) v) else m a)"
  by (auto simp: store32_def in_range_4)

lemma in_range_self [simp]: "in_range d n d \<longleftrightarrow> 0 < n"
  by (simp add: in_range_def)

text \<open>Two word accesses that do not touch each other's bytes.\<close>

definition apart :: "u32 \<Rightarrow> u32 \<Rightarrow> bool" where
  "apart a b \<longleftrightarrow> 4 \<le> unat (a - b) \<and> 4 \<le> unat (b - a)"

lemma apart_sym: "apart a b \<Longrightarrow> apart b a"
  by (simp add: apart_def)

lemma load32_other [mem_simps]:
  assumes "\<And>i. i < 4 \<Longrightarrow> m' (a + of_nat i) = m (a + of_nat i)"
  shows "load32 m' a = load32 m a"
  using assms [of 0] assms [of 1] assms [of 2] assms [of 3] by (simp add: load32_def)


section \<open>The routines of string.c\<close>

text \<open>\<open>rep stosb\<close> and \<open>rep stosl\<close> (\<open>src/x86.h\<close>): store a byte or a word \<open>cnt\<close> times.\<close>

primrec stosb :: "nat \<Rightarrow> u32 \<Rightarrow> u8 \<Rightarrow> memory \<Rightarrow> memory" where
  "stosb 0 d c m = m"
| "stosb (Suc n) d c m = stosb n (d + 1) c (m(d := c))"

primrec stosl :: "nat \<Rightarrow> u32 \<Rightarrow> u32 \<Rightarrow> memory \<Rightarrow> memory" where
  "stosl 0 d w m = m"
| "stosl (Suc n) d w m = stosl n (d + 4) w (store32 m d w)"

definition memset :: "u32 \<Rightarrow> u32 \<Rightarrow> u32 \<Rightarrow> memory \<Rightarrow> memory" where
  "memset dst c n m =
     (if dst mod 4 = 0 \<and> n mod 4 = 0
      then let c = c AND 0xFF in
        stosl (unat (n div 4)) dst
          (push_bit 24 c OR push_bit 16 c OR push_bit 8 c OR c) m
      else stosb (unat n) dst (ucast c) m)"

primrec memcmp :: "nat \<Rightarrow> u32 \<Rightarrow> u32 \<Rightarrow> memory \<Rightarrow> int" where
  "memcmp 0 s1 s2 m = 0"
| "memcmp (Suc n) s1 s2 m =
     (if m s1 \<noteq> m s2 then uint (m s1) - uint (m s2) else memcmp n (s1 + 1) (s2 + 1) m)"

primrec move_back :: "nat \<Rightarrow> u32 \<Rightarrow> u32 \<Rightarrow> memory \<Rightarrow> memory" where
  "move_back 0 d s m = m"
| "move_back (Suc n) d s m = move_back n (d - 1) (s - 1) (m(d - 1 := m (s - 1)))"

primrec move_forth :: "nat \<Rightarrow> u32 \<Rightarrow> u32 \<Rightarrow> memory \<Rightarrow> memory" where
  "move_forth 0 d s m = m"
| "move_forth (Suc n) d s m = move_forth n (d + 1) (s + 1) (m(d := m s))"

definition memmove :: "u32 \<Rightarrow> u32 \<Rightarrow> u32 \<Rightarrow> memory \<Rightarrow> memory" where
  "memmove dst src n m =
     (if src < dst \<and> dst < src + n
      then move_back (unat n) (dst + n) (src + n) m
      else move_forth (unat n) dst src m)"

definition memcpy :: "u32 \<Rightarrow> u32 \<Rightarrow> u32 \<Rightarrow> memory \<Rightarrow> memory" where
  "memcpy dst src n m = memmove dst src n m"

fun strncmp :: "nat \<Rightarrow> u32 \<Rightarrow> u32 \<Rightarrow> memory \<Rightarrow> int" where
  "strncmp 0 p q m = 0"
| "strncmp (Suc n) p q m =
     (if m p \<noteq> 0 \<and> m p = m q then strncmp n (p + 1) (q + 1) m
      else uint (m p) - uint (m q))"

fun strncpy_loop :: "nat \<Rightarrow> u32 \<Rightarrow> u32 \<Rightarrow> memory \<Rightarrow> memory" where
  "strncpy_loop 0 s t m = m"
| "strncpy_loop (Suc n) s t m =
     (if m t \<noteq> 0 then strncpy_loop n (s + 1) (t + 1) (m(s := m t))
      else stosb n (s + 1) 0 (m(s := m t)))"

definition strncpy :: "u32 \<Rightarrow> u32 \<Rightarrow> int \<Rightarrow> memory \<Rightarrow> memory" where
  "strncpy s t n m = strncpy_loop (nat n) s t m"

fun safestrcpy_loop :: "nat \<Rightarrow> u32 \<Rightarrow> u32 \<Rightarrow> memory \<Rightarrow> memory" where
  "safestrcpy_loop 0 s t m = m(s := 0)"
| "safestrcpy_loop (Suc n) s t m =
     (if m t \<noteq> 0 then safestrcpy_loop n (s + 1) (t + 1) (m(s := m t))
      else (m(s := m t))(s + 1 := 0))"

definition safestrcpy :: "u32 \<Rightarrow> u32 \<Rightarrow> int \<Rightarrow> memory \<Rightarrow> memory" where
  "safestrcpy s t n m = (if n \<le> 0 then m else safestrcpy_loop (nat (n - 1)) s t m)"

fun strlen :: "nat \<Rightarrow> u32 \<Rightarrow> memory \<Rightarrow> nat option" where
  "strlen 0 s m = None"
| "strlen (Suc fuel) s m = (if m s = 0 then Some 0 else map_option Suc (strlen fuel (s + 1) m))"

section \<open>What the routines compute\<close>

lemma in_range_1: "in_range d (Suc 0) a \<longleftrightarrow> a = d"
  by (simp add: in_range_def unat_eq_0)

lemma in_range_Suc:
  assumes "Suc n \<le> 4294967296"
  shows "in_range d (Suc n) a \<longleftrightarrow> a = d \<or> in_range (d + 1) n a"
proof (cases "a = d")
  case False
  then have "unat (a - d) \<noteq> 0" by (simp add: unat_eq_0)
  then have "unat (a - d - 1) = unat (a - d) - 1"
    by (simp add: unat_minus_one unat_eq_0)
  with \<open>unat (a - d) \<noteq> 0\<close> have "unat (a - d) < Suc n \<longleftrightarrow> unat (a - (d + 1)) < n"
    by (simp add: diff_diff_eq) arith
  with False show ?thesis by (simp add: in_range_def)
qed simp

lemma in_range_add:
  assumes "k + n \<le> 4294967296"
  shows "in_range d (k + n) a \<longleftrightarrow> in_range d k a \<or> in_range (d + of_nat k) n a"
  using assms
proof (induction k arbitrary: d)
  case 0
  then show ?case by (simp add: in_range_def)
next
  case (Suc k)
  then have "in_range (d + 1) (k + n) a \<longleftrightarrow>
      in_range (d + 1) k a \<or> in_range (d + 1 + of_nat k) n a"
    by simp
  with Suc.prems show ?case by (simp add: in_range_Suc add.assoc)
qed

lemma stosb_apply:
  "n \<le> 4294967296 \<Longrightarrow> stosb n d c m a = (if in_range d n a then c else m a)"
proof (induction n arbitrary: d m)
  case 0
  then show ?case by (simp add: in_range_def)
next
  case (Suc n)
  then show ?case by (auto simp: in_range_Suc)
qed

lemma stosl_apply:
  assumes "4 * n \<le> 4294967296" and "\<And>i. i < 4 \<Longrightarrow> ucast (drop_bit (8 * i) w) = (c::u8)"
  shows "stosl n d w m a = (if in_range d (4 * n) a then c else m a)"
  using assms(1)
proof (induction n arbitrary: d m)
  case 0
  then show ?case by (simp add: in_range_def)
next
  case (Suc n)
  have "in_range d (4 + 4 * n) a \<longleftrightarrow> in_range d 4 a \<or> in_range (d + of_nat 4) (4 * n) a"
    using Suc.prems by (intro in_range_add) simp
  moreover have "in_range d 4 a \<Longrightarrow> store32 m d w a = c"
    using assms(2) by (simp add: store32_apply) (simp add: in_range_def)
  ultimately show ?case using Suc by (auto simp: store32_apply)
qed

lemma replicated_bit:
  fixes c :: u32
  assumes "k < 8" and "j = 0 \<or> j = 8 \<or> j = 16 \<or> j = 24"
  shows "bit (drop_bit j (push_bit 24 (c AND mask 8) OR push_bit 16 (c AND mask 8)
     OR push_bit 8 (c AND mask 8) OR (c AND mask 8))) k = bit c k"
  using assms(2)
proof (elim disjE)
  assume "j = 0" then show ?thesis using assms(1) by (simp add: bit_simps)
next
  assume "j = 8" then show ?thesis using assms(1) by (simp add: bit_simps)
next
  assume "j = 16" then show ?thesis using assms(1) by (simp add: bit_simps)
next
  assume "j = 24" then show ?thesis using assms(1) by (simp add: bit_simps)
qed

lemma replicated_byte:
  assumes "i < 4"
  shows "ucast (drop_bit (8 * i) (push_bit 24 (c AND 0xFF) OR push_bit 16 (c AND 0xFF)
     OR push_bit 8 (c AND 0xFF) OR (c AND 0xFF :: u32))) = (ucast c :: u8)"
proof (rule bit_eqI)
  fix k
  assume "possible_bit TYPE(8 word) k"
  then have k: "k < 8" by simp
  have ff: "(0xFF::u32) = mask 8" by (simp add: mask_eq_exp_minus_1)
  have j: "8 * i = 0 \<or> 8 * i = 8 \<or> 8 * i = 16 \<or> 8 * i = 24" using assms by arith
  show "bit (ucast (drop_bit (8 * i) (push_bit 24 (c AND 0xFF) OR
      push_bit 16 (c AND 0xFF) OR push_bit 8 (c AND 0xFF) OR (c AND 0xFF :: u32))) :: u8) k =
      bit (ucast c :: u8) k"
    unfolding ff bit_ucast_iff replicated_bit [OF k j] by simp
qed

lemma memset_words:
  assumes "dst mod 4 = 0" and "n mod 4 = 0"
  shows "memset dst c n m = stosl (unat (n div 4)) dst (push_bit 24 (c AND 0xFF)
     OR push_bit 16 (c AND 0xFF) OR push_bit 8 (c AND 0xFF) OR (c AND 0xFF)) m"
  unfolding memset_def Let_def using assms by (simp only: simp_thms if_True)

lemma memset_bytes:
  assumes "\<not> (dst mod 4 = 0 \<and> n mod 4 = 0)"
  shows "memset dst c n m = stosb (unat n) dst (ucast c) m"
  unfolding memset_def using assms by (simp only: if_False)

lemma unat_div_4:
  assumes "(n::u32) mod 4 = 0"
  shows "4 * unat (n div 4) = unat n"
proof -
  have "unat (n mod 4) = unat n mod 4" by (simp only: unat_mod) simp
  then have "unat n mod 4 = 0" using assms by (simp only: unat_0)
  moreover have "unat (n div 4) = unat n div 4" by (simp only: unat_div) simp
  ultimately show ?thesis by presburger
qed

lemma memset_apply:
  "memset d c n m a = (if in_range d (unat n) a then ucast c else m a)"
proof (cases "d mod 4 = 0 \<and> n mod 4 = 0")
  case True
  then have n: "4 * unat (n div 4) = unat n" by (intro unat_div_4) blast
  then have "4 * unat (n div 4) \<le> 4294967296"
    using unat_less_2_32 [of n] by linarith
  from stosl_apply [OF this replicated_byte, where d = d and m = m and a = a]
  show ?thesis using True by (simp only: memset_words n)
next
  case False
  have "unat n \<le> 4294967296" using unat_less_2_32 [of n] by (rule less_imp_le)
  from stosb_apply [OF this] show ?thesis by (simp only: memset_bytes [OF False])
qed

subsection \<open>Copying\<close>

lemma move_forth_apply:
  assumes "n \<le> 4294967296" and "d = s \<or> n \<le> unat (d - s)"
  shows "move_forth n d s m a = (if in_range d n a then m (s + (a - d)) else m a)"
  using assms
proof (induction n arbitrary: d s m)
  case 0
  then show ?case by (simp add: in_range_def)
next
  case (Suc n)
  let ?m = "m(d := m s)"
  have "d + 1 = s + 1 \<or> n \<le> unat ((d + 1) - (s + 1))" using Suc.prems by auto
  then have IH: "move_forth n (d + 1) (s + 1) ?m a =
      (if in_range (d + 1) n a then ?m (s + 1 + (a - (d + 1))) else ?m a)"
    using Suc.prems by (intro Suc.IH) simp_all
  have eq: "s + 1 + (a - (d + 1)) = s + (a - d)" by (simp add: algebra_simps)
  have ne: "s + (a - d) \<noteq> d" if "in_range (d + 1) n a" and "d \<noteq> s"
  proof
    assume "s + (a - d) = d"
    then have "a - d = d - s" by (simp add: algebra_simps)
    moreover have "in_range d (Suc n) a" using that Suc.prems by (simp add: in_range_Suc)
    ultimately show False using Suc.prems that by (simp add: in_range_def)
  qed
  show ?case
  proof (cases "d = s")
    case True
    then show ?thesis using IH Suc.prems by (simp add: eq fun_upd_triv)
  next
    case False
    then show ?thesis using IH Suc.prems ne by (auto simp: eq in_range_Suc)
  qed
qed

lemma move_back_apply:
  assumes "n \<le> 4294967296" and "d = s \<or> n \<le> unat (s - d)"
  shows "move_back n (d + of_nat n) (s + of_nat n) m a =
    (if in_range d n a then m (s + (a - d)) else m a)"
  using assms
proof (induction n arbitrary: m)
  case 0
  then show ?case by (simp add: in_range_def)
next
  case (Suc n)
  let ?m = "m(d + of_nat n := m (s + of_nat n))"
  have d1: "d + of_nat (Suc n) - 1 = d + of_nat n" and s1: "s + of_nat (Suc n) - 1 = s + of_nat n"
    by simp_all
  have IH: "move_back n (d + of_nat n) (s + of_nat n) ?m a =
      (if in_range d n a then ?m (s + (a - d)) else ?m a)"
    using Suc.prems by (intro Suc.IH) auto
  have last: "in_range d (Suc n) a \<longleftrightarrow> in_range d n a \<or> a = d + of_nat n"
    using in_range_add [of n 1 d a] Suc.prems by (simp add: in_range_1)
  have ne: "s + (a - d) \<noteq> d + of_nat n" if "in_range d n a"
  proof
    assume e: "s + (a - d) = d + of_nat n"
    have i: "unat (a - d) < n" using that by (simp add: in_range_def)
    have "s - d = of_nat n - (a - d)" using e by (simp add: algebra_simps)
    also have "\<dots> = of_nat (n - unat (a - d))"
      using i by (simp add: of_nat_diff)
    finally have "unat (s - d) = n - unat (a - d)"
      using Suc.prems by simp
    then show False using Suc.prems i by auto
  qed
  show ?case
    using IH last ne by (simp only: move_back.simps d1 s1) auto
qed

lemma memmove_apply:
  assumes d: "unat dst + unat n \<le> 4294967296" and s: "unat src + unat n \<le> 4294967296"
  shows "memmove dst src n m a = (if in_range dst (unat n) a then m (src + (a - dst)) else m a)"
proof -
  have n: "unat n \<le> 4294967296" using unat_less_2_32 [of n] by linarith
  have nn: "(of_nat (unat n) :: u32) = n" by simp
  show ?thesis
  proof (cases "src < dst \<and> dst < src + n")
    case True
    then have "unat src < unat dst" by (simp add: word_less_nat_alt)
    then have "unat (src - dst) = 4294967296 - (unat dst - unat src)"
      by (simp add: unat_sub_if')
    then have "dst = src \<or> unat n \<le> unat (src - dst)"
      using d by linarith
    from move_back_apply [OF n this, of m a] show ?thesis
      using True by (simp only: nn memmove_def if_True simp_thms)
  next
    case False
    have "dst = src \<or> unat n \<le> unat (dst - src)"
    proof (cases "unat src < unat dst")
      case True
      then have sd: "unat (dst - src) = unat dst - unat src" by (simp add: unat_sub_if')
      have "src + n \<le> dst" using False True by (simp add: word_less_nat_alt word_le_nat_alt not_less)
      moreover have "unat (src + n) = unat src + unat n"
        using d True by (simp add: unat_word_ariths)
      ultimately have "unat n \<le> unat (dst - src)"
        using sd by (simp add: word_le_nat_alt)
      then show ?thesis ..
    next
      case False
      then have "dst = src \<or> unat (dst - src) = 4294967296 - (unat src - unat dst)"
        by (auto simp: unat_sub_if' word_unat_eq_iff)
      then show ?thesis using s by auto
    qed
    from move_forth_apply [OF n this, of m a] show ?thesis
      using False by (simp only: memmove_def if_False)
  qed
qed

end
