(* ===== verification/Kalloc.thy ===== *)
theory Kalloc
  imports Spinlock Kstring
begin

text \<open>
  The physical page allocator, \<open>src/kalloc.c\<close>, with the address-space constants of
  \<open>src/memlayout.h\<close> and \<open>src/mmu.h\<close>.

  Physical memory is seen through the kernel's direct map: \<open>mem\<close> is indexed by kernel
  virtual addresses. The free list is threaded through the free pages themselves, as in
  the code: the first word of a free page is the address of the next one. \<open>kend\<close> is the
  linker symbol \<open>end\<close>. \<open>kmem_rep\<close> relates a state to the list of its free pages; the
  locale \<open>page_pool\<close> states what clients of the allocator rely on.
\<close>

unbundle bit_operations_syntax

abbreviation (input) PGSIZE :: u32 where "PGSIZE \<equiv> 0x1000"
abbreviation (input) KERNBASE :: u32 where "KERNBASE \<equiv> 0x80000000"
abbreviation (input) EXTMEM :: u32 where "EXTMEM \<equiv> 0x100000"
abbreviation (input) PHYSTOP :: u32 where "PHYSTOP \<equiv> 0xE000000"
abbreviation (input) DEVSPACE :: u32 where "DEVSPACE \<equiv> 0xFE000000"

definition V2P :: "u32 \<Rightarrow> u32" where "V2P a = a - KERNBASE"
definition P2V :: "u32 \<Rightarrow> u32" where "P2V a = a + KERNBASE"
definition PGROUNDUP :: "u32 \<Rightarrow> u32" where "PGROUNDUP sz = (sz + PGSIZE - 1) AND NOT (PGSIZE - 1)"
definition PGROUNDDOWN :: "u32 \<Rightarrow> u32" where "PGROUNDDOWN a = a AND NOT (PGSIZE - 1)"

record kmem_state = machine +
  mem :: memory
  kend :: u32
  use_lock :: bool
  freelist :: u32

text \<open>The lock routines neither read nor write the allocator's fields.\<close>

lemma kmem_fields [simp]:
  "mem (pushed s) = mem s" "kend (pushed s) = kend s" "use_lock (pushed s) = use_lock s"
  "freelist (pushed s) = freelist s" "mem (popped s) = mem s" "kend (popped s) = kend s"
  "use_lock (popped s) = use_lock s" "freelist (popped s) = freelist s" "mem (balanced s) = mem s"
  "kend (balanced s) = kend s" "use_lock (balanced s) = use_lock s"
  "freelist (balanced s) = freelist s" "mem (set_lock l f s) = mem s"
  "kend (set_lock l f s) = kend s" "use_lock (set_lock l f s) = use_lock s"
  "freelist (set_lock l f s) = freelist s" "mem (enter l s) = mem s" "kend (enter l s) = kend s"
  "use_lock (enter l s) = use_lock s" "freelist (enter l s) = freelist s" "mem (leave l s) = mem s"
  "kend (leave l s) = kend s" "use_lock (leave l s) = use_lock s"
  "freelist (leave l s) = freelist s"
  by (simp_all add: enter_def leave_def balanced_def popped_def pushed_def set_lock_def)

lemma kmem_updates [simp]:
  "here (s\<lparr>mem := v0\<rparr>) = here s" "self (s\<lparr>mem := v0\<rparr>) = self s"
  "self_cpu (s\<lparr>mem := v0\<rparr>) = self_cpu s"
  "running (s\<lparr>mem := v0\<rparr>) = running s"
  "cpu_ok (s\<lparr>mem := v0\<rparr>) = cpu_ok s"
  "lock_free l (s\<lparr>mem := v0\<rparr>) = lock_free l s"
  "lock_held l (s\<lparr>mem := v0\<rparr>) = lock_held l s"
  "lock_mine l (s\<lparr>mem := v0\<rparr>) = lock_mine l s"
  "here (s\<lparr>freelist := v1\<rparr>) = here s"
  "self (s\<lparr>freelist := v1\<rparr>) = self s"
  "self_cpu (s\<lparr>freelist := v1\<rparr>) = self_cpu s"
  "running (s\<lparr>freelist := v1\<rparr>) = running s"
  "cpu_ok (s\<lparr>freelist := v1\<rparr>) = cpu_ok s"
  "lock_free l (s\<lparr>freelist := v1\<rparr>) = lock_free l s"
  "lock_held l (s\<lparr>freelist := v1\<rparr>) = lock_held l s"
  "lock_mine l (s\<lparr>freelist := v1\<rparr>) = lock_mine l s"
  "here (s\<lparr>use_lock := v2\<rparr>) = here s"
  "self (s\<lparr>use_lock := v2\<rparr>) = self s"
  "self_cpu (s\<lparr>use_lock := v2\<rparr>) = self_cpu s"
  "running (s\<lparr>use_lock := v2\<rparr>) = running s"
  "cpu_ok (s\<lparr>use_lock := v2\<rparr>) = cpu_ok s"
  "lock_free l (s\<lparr>use_lock := v2\<rparr>) = lock_free l s"
  "lock_held l (s\<lparr>use_lock := v2\<rparr>) = lock_held l s"
  "lock_mine l (s\<lparr>use_lock := v2\<rparr>) = lock_mine l s"
  by (simp_all add: here_def self_def self_cpu_def running_def cpu_ok_def lock_free_def lock_held_def
      lock_mine_def)

lemma kmem_commute [simp]:
  "pushed (s\<lparr>mem := v0\<rparr>) = (pushed s)\<lparr>mem := v0\<rparr>"
  "popped (s\<lparr>mem := v0\<rparr>) = (popped s)\<lparr>mem := v0\<rparr>"
  "balanced (s\<lparr>mem := v0\<rparr>) = (balanced s)\<lparr>mem := v0\<rparr>"
  "set_lock l f (s\<lparr>mem := v0\<rparr>) = (set_lock l f s)\<lparr>mem := v0\<rparr>"
  "pushed (s\<lparr>freelist := v1\<rparr>) = (pushed s)\<lparr>freelist := v1\<rparr>"
  "popped (s\<lparr>freelist := v1\<rparr>) = (popped s)\<lparr>freelist := v1\<rparr>"
  "balanced (s\<lparr>freelist := v1\<rparr>) = (balanced s)\<lparr>freelist := v1\<rparr>"
  "set_lock l f (s\<lparr>freelist := v1\<rparr>) = (set_lock l f s)\<lparr>freelist := v1\<rparr>"
  "pushed (s\<lparr>use_lock := v2\<rparr>) = (pushed s)\<lparr>use_lock := v2\<rparr>"
  "popped (s\<lparr>use_lock := v2\<rparr>) = (popped s)\<lparr>use_lock := v2\<rparr>"
  "balanced (s\<lparr>use_lock := v2\<rparr>) = (balanced s)\<lparr>use_lock := v2\<rparr>"
  "set_lock l f (s\<lparr>use_lock := v2\<rparr>) = (set_lock l f s)\<lparr>use_lock := v2\<rparr>"
  by (simp_all add: pushed_def popped_def balanced_def set_lock_def)

lemma kmem_commute_lock [simp]:
  "enter l (s\<lparr>mem := v0\<rparr>) = (enter l s)\<lparr>mem := v0\<rparr>"
  "leave l (s\<lparr>mem := v0\<rparr>) = (leave l s)\<lparr>mem := v0\<rparr>"
  "enter l (s\<lparr>freelist := v1\<rparr>) = (enter l s)\<lparr>freelist := v1\<rparr>"
  "leave l (s\<lparr>freelist := v1\<rparr>) = (leave l s)\<lparr>freelist := v1\<rparr>"
  "enter l (s\<lparr>use_lock := v2\<rparr>) = (enter l s)\<lparr>use_lock := v2\<rparr>"
  "leave l (s\<lparr>use_lock := v2\<rparr>) = (leave l s)\<lparr>use_lock := v2\<rparr>"
  by (simp_all add: enter_def leave_def)

section \<open>The routines\<close>

definition kfree :: "u32 \<Rightarrow> 'a kmem_state_scheme \<Rightarrow> ('a kmem_state_scheme) outcome" where
  "kfree v s =
     (if v mod PGSIZE \<noteq> 0 \<or> v < kend s \<or> PHYSTOP \<le> V2P v then Inl (Panic ''kfree'')
      else let s = s\<lparr>mem := memset v 1 PGSIZE (mem s)\<rparr> in
        and_then (if use_lock s then acquire L_kmem s else Inr s) (\<lambda>s.
          let s = s\<lparr>mem := store32 (mem s) v (freelist s)\<rparr>;
              s = s\<lparr>freelist := v\<rparr>
          in if use_lock s then release L_kmem s else Inr s))"

definition kalloc :: "'a kmem_state_scheme \<Rightarrow> (u32 \<times> 'a kmem_state_scheme) outcome" where
  "kalloc s =
     and_then (if use_lock s then acquire L_kmem s else Inr s) (\<lambda>s.
       let r = freelist s;
           s = (if r \<noteq> 0 then s\<lparr>freelist := load32 (mem s) r\<rparr> else s)
       in and_then (if use_lock s then release L_kmem s else Inr s) (\<lambda>s. Inr (r, s)))"

lemma kfree_InrD:
  assumes "kfree v s = Inr t"
  shows "v mod PGSIZE = 0" and "kend s \<le> v" and "V2P v < PHYSTOP"
  using assms by (auto simp: kfree_def split: if_splits)

lemma V2P_low_next:
  assumes "V2P p < PHYSTOP"
  shows "unat (p + PGSIZE) = unat p + 4096" and "unat p < 0x8E000000"
proof -
  have "unat (p - KERNBASE) < 0xE000000" using assms by (simp add: V2P_def word_less_nat_alt)
  moreover have "unat p = unat (p - KERNBASE) + 0x80000000 \<or> unat p < 0x80000000"
    by (auto simp: unat_sub_if')
  moreover have "unat (p - KERNBASE) = unat p + 0x80000000" if "unat p < 0x80000000"
    using that by (simp add: unat_sub_if')
  ultimately show "unat p < 0x8E000000" by linarith
  then show "unat (p + PGSIZE) = unat p + 4096" by (simp add: unat_word_ariths)
qed

function freerange_loop ::
    "u32 \<Rightarrow> u32 \<Rightarrow> 'a kmem_state_scheme \<Rightarrow> ('a kmem_state_scheme) outcome" where
  "freerange_loop p vend s =
     (if p + PGSIZE \<le> vend
      then and_then (kfree p s) (\<lambda>s. freerange_loop (p + PGSIZE) vend s)
      else Inr s)"
  by pat_completeness auto
termination
proof (relation "measure (\<lambda>(p, vend, s). 0xFFFFFFFF - unat p)")
  fix p vend :: u32 and s t :: "'a kmem_state_scheme"
  assume "kfree p s = Inr t"
  then have "V2P p < PHYSTOP" by (rule kfree_InrD)
  from V2P_low_next [OF this]
  show "((p + PGSIZE, vend, t), (p, vend, s)) \<in> measure (\<lambda>(p, vend, s). 0xFFFFFFFF - unat p)"
    by simp
qed simp

declare freerange_loop.simps [simp del]

definition freerange ::
    "u32 \<Rightarrow> u32 \<Rightarrow> 'a kmem_state_scheme \<Rightarrow> ('a kmem_state_scheme) outcome" where
  "freerange vstart vend s = freerange_loop (PGROUNDUP vstart) vend s"

definition kinit1 ::
    "u32 \<Rightarrow> u32 \<Rightarrow> 'a kmem_state_scheme \<Rightarrow> ('a kmem_state_scheme) outcome" where
  "kinit1 vstart vend s =
     (let s = initlock L_kmem ''kmem'' s; s = s\<lparr>use_lock := False\<rparr>
      in freerange vstart vend s)"

definition kinit2 ::
    "u32 \<Rightarrow> u32 \<Rightarrow> 'a kmem_state_scheme \<Rightarrow> ('a kmem_state_scheme) outcome" where
  "kinit2 vstart vend s =
     and_then (freerange vstart vend s) (\<lambda>s. Inr (s\<lparr>use_lock := True\<rparr>))"

section \<open>Pages\<close>

text \<open>A page that the allocator may hand out.\<close>

definition page_ok :: "'a kmem_state_scheme \<Rightarrow> u32 \<Rightarrow> bool" where
  "page_ok s v \<longleftrightarrow> v mod PGSIZE = 0 \<and> kend s \<le> v \<and> V2P v < PHYSTOP"

lemma page_ok_nonzero: "page_ok s v \<Longrightarrow> v \<noteq> 0"
  by (auto simp: page_ok_def V2P_def)

lemma page_aligned_unat:
  assumes "v mod PGSIZE = 0"
  shows "unat v mod 4096 = 0"
proof -
  have "unat (v mod PGSIZE) = unat v mod unat PGSIZE" by (rule unat_mod)
  then show ?thesis using assms by simp
qed

lemma aligned_in_range:
  assumes "v mod PGSIZE = 0"
  shows "in_range v 4096 a \<longleftrightarrow> unat a div 4096 = unat v div 4096"
proof -
  obtain k where k: "unat v = 4096 * k" using page_aligned_unat [OF assms] by (metis mod_0_imp_dvd dvdE)
  obtain q r where a: "unat a = 4096 * q + r" "r < 4096"
    using div_mult_mod_eq [of "unat a" 4096] by (metis mod_less_divisor mult.commute zero_less_numeral)
  have div: "unat a div 4096 = q" "unat v div 4096 = k" using k a by simp_all
  have bound: "k < 1048576" using k unat_less_2_32 [of v] by simp
  show ?thesis
  proof (cases "unat v \<le> unat a")
    case True
    then have "unat (a - v) = unat a - unat v" by (simp add: unat_sub_if')
    then have "in_range v 4096 a \<longleftrightarrow> 4096 * q + r - 4096 * k < 4096" using k a
      by (simp add: in_range_def)
    also have "\<dots> \<longleftrightarrow> q = k" using True k a by auto
    finally show ?thesis using div by simp
  next
    case False
    then have "unat (a - v) = unat a + 4294967296 - unat v" by (simp add: unat_sub_if')
    then have "\<not> in_range v 4096 a" using bound k by (simp add: in_range_def)
    moreover have "q \<noteq> k" using False k a by simp
    ultimately show ?thesis using div by simp
  qed
qed

lemma pages_disjoint:
  assumes "u mod PGSIZE = 0" and "v mod PGSIZE = 0" and "u \<noteq> v" and "in_range u 4096 a"
  shows "\<not> in_range v 4096 a"
proof
  assume "in_range v 4096 a"
  then have "unat u div 4096 = unat v div 4096" using assms by (simp add: aligned_in_range)
  moreover have "unat u mod 4096 = 0" "unat v mod 4096 = 0"
    using assms(1,2) by (simp_all only: page_aligned_unat)
  ultimately have "unat u = unat v" by (metis div_mult_mod_eq)
  then show False using assms(3) by (simp add: word_unat_eq_iff)
qed

lemma in_range_offset:
  assumes "i < n" and "n \<le> 4294967296"
  shows "in_range v n (v + of_nat i)"
  using assms by (simp add: in_range_def)

lemma load32_page_frame:
  assumes "u mod PGSIZE = 0" and "v mod PGSIZE = 0" and "u \<noteq> v"
    and "\<And>a. \<not> in_range u 4096 a \<Longrightarrow> m' a = m a"
  shows "load32 m' v = load32 m v"
proof (rule load32_other)
  fix i :: nat
  assume "i < 4"
  then have "in_range v 4096 (v + of_nat i)" by (intro in_range_offset) simp_all
  then have "\<not> in_range u 4096 (v + of_nat i)" using pages_disjoint assms(1-3) by metis
  then show "m' (v + of_nat i) = m (v + of_nat i)" by (rule assms(4))
qed

section \<open>The free list\<close>

primrec flist :: "memory \<Rightarrow> u32 \<Rightarrow> u32 list \<Rightarrow> bool" where
  "flist m p [] \<longleftrightarrow> p = 0"
| "flist m p (v # vs) \<longleftrightarrow> p = v \<and> v \<noteq> 0 \<and> flist m (load32 m v) vs"

lemma flist_frame:
  assumes "flist m p vs" and "\<And>v. v \<in> set vs \<Longrightarrow> load32 m' v = load32 m v"
  shows "flist m' p vs"
  using assms by (induction vs arbitrary: p) auto

definition kmem_rep :: "'a kmem_state_scheme \<Rightarrow> u32 list \<Rightarrow> bool" where
  "kmem_rep s vs \<longleftrightarrow> flist (mem s) (freelist s) vs \<and> distinct vs \<and>
     (\<forall>v \<in> set vs. page_ok s v) \<and> cpu_ok s \<and> (use_lock s \<longrightarrow> lock_free L_kmem s)"

text \<open>The effect of the two operations when they succeed.\<close>

definition kmem_pass :: "'a kmem_state_scheme \<Rightarrow> 'a kmem_state_scheme" where
  "kmem_pass s = (if use_lock s then balanced s else s)"

definition pushed_page :: "u32 \<Rightarrow> 'a kmem_state_scheme \<Rightarrow> 'a kmem_state_scheme" where
  "pushed_page v s = s\<lparr>mem := store32 (memset v 1 PGSIZE (mem s)) v (freelist s), freelist := v\<rparr>"

definition popped_page :: "'a kmem_state_scheme \<Rightarrow> 'a kmem_state_scheme" where
  "popped_page s = (if freelist s = 0 then s else s\<lparr>freelist := load32 (mem s) (freelist s)\<rparr>)"


lemma lock_free_locked: "lock_free l s \<Longrightarrow> lk_locked (locks s l) = 0"
  by (simp add: lock_free_def)

lemma kfree_ok:
  assumes ok: "page_ok s v" and cpu: "cpu_ok s" and free: "use_lock s \<longrightarrow> lock_free L_kmem s"
  shows "kfree v s = Inr (kmem_pass (pushed_page v s))"
proof -
  have guard: "\<not> (v mod PGSIZE \<noteq> 0 \<or> v < kend s \<or> PHYSTOP \<le> V2P v)"
    using ok unfolding page_ok_def by (meson leD)
  show ?thesis
  proof (cases "use_lock s")
    case True
    then have "lock_free L_kmem s" using free by simp
    then show ?thesis
      unfolding kfree_def if_not_P [OF guard] using True cpu ncli_enter_pos [OF cpu]
      by (simp add: acquire_ok release_ok lock_free_locked leave_enter kmem_pass_def
          pushed_page_def)
  next
    case False
    then show ?thesis
      unfolding kfree_def if_not_P [OF guard] by (simp add: kmem_pass_def pushed_page_def)
  qed
qed

lemma kfree_bad: "\<not> page_ok s v \<Longrightarrow> kfree v s = Inl (Panic ''kfree'')"
  unfolding page_ok_def kfree_def by (simp only: not_le not_less de_Morgan_conj) (auto simp: not_le)

lemma kalloc_ok:
  assumes cpu: "cpu_ok s" and free: "use_lock s \<longrightarrow> lock_free L_kmem s"
  shows "kalloc s = Inr (freelist s, kmem_pass (popped_page s))"
proof (cases "use_lock s")
  case True
  then have "lock_free L_kmem s" using free by simp
  then show ?thesis
    using True cpu ncli_enter_pos [OF cpu]
    by (simp add: kalloc_def acquire_ok release_ok lock_free_locked leave_enter kmem_pass_def
        popped_page_def Let_def)
next
  case False
  then show ?thesis by (simp add: kalloc_def kmem_pass_def popped_page_def Let_def)
qed


lemma kmem_pass_fields [simp]:
  "mem (kmem_pass s) = mem s" "freelist (kmem_pass s) = freelist s" "kend (kmem_pass s) = kend s"
  "use_lock (kmem_pass s) = use_lock s" "locks (kmem_pass s) = locks s"
  "cpu_ok s \<Longrightarrow> cpu_ok (kmem_pass s)" "ifl (kmem_pass s) = ifl s"
  "cpu_ok s \<Longrightarrow> running (kmem_pass s) = running s"
  "lock_free l (kmem_pass s) = lock_free l s"
  by (simp_all add: kmem_pass_def lock_free_def)

lemma page_ok_cong: "kend s = kend t \<Longrightarrow> page_ok s = page_ok t"
  by (simp add: page_ok_def fun_eq_iff)

lemma pushed_page_mem:
  "\<not> in_range v 4096 a \<Longrightarrow> mem (pushed_page v s) a = mem s a"
  by (auto simp: pushed_page_def store32_apply memset_apply in_range_def)

lemma pushed_page_fields [simp]:
  "freelist (pushed_page v s) = v" "kend (pushed_page v s) = kend s"
  "use_lock (pushed_page v s) = use_lock s" "lock_free l (pushed_page v s) = lock_free l s"
  "cpu_ok (pushed_page v s) = cpu_ok s" "load32 (mem (pushed_page v s)) v = freelist s"
  by (simp_all add: pushed_page_def)

lemma popped_page_fields [simp]:
  "mem (popped_page s) = mem s" "kend (popped_page s) = kend s"
  "use_lock (popped_page s) = use_lock s" "lock_free l (popped_page s) = lock_free l s"
  "cpu_ok (popped_page s) = cpu_ok s"
  by (simp_all add: popped_page_def)

lemma kfree_rep:
  assumes rep: "kmem_rep s vs" and ok: "page_ok s v" and new: "v \<notin> set vs"
  shows "kmem_rep (kmem_pass (pushed_page v s)) (v # vs)"
proof -
  have "load32 (mem (pushed_page v s)) u = load32 (mem s) u" if "u \<in> set vs" for u
  proof (rule load32_page_frame)
    show "v mod PGSIZE = 0" using ok unfolding page_ok_def by blast
    show "u mod PGSIZE = 0" using rep that unfolding kmem_rep_def page_ok_def by blast
    show "v \<noteq> u" using new that by blast
  qed (rule pushed_page_mem)
  then have "flist (mem (pushed_page v s)) (freelist s) vs"
    using rep unfolding kmem_rep_def by (blast intro: flist_frame)
  moreover have "page_ok (kmem_pass (pushed_page v s)) = page_ok s" by (rule page_ok_cong) simp
  ultimately show ?thesis
    using rep ok new page_ok_nonzero [OF ok] by (simp add: kmem_rep_def)
qed

lemma kalloc_rep:
  assumes rep: "kmem_rep s vs"
  shows "freelist s = (case vs of [] \<Rightarrow> 0 | v # _ \<Rightarrow> v)"
    and "kmem_rep (kmem_pass (popped_page s)) (tl vs)"
proof -
  show first: "freelist s = (case vs of [] \<Rightarrow> 0 | v # _ \<Rightarrow> v)"
    using rep by (auto simp: kmem_rep_def split: list.splits)
  have "page_ok (kmem_pass (popped_page s)) = page_ok s" by (rule page_ok_cong) simp
  then show "kmem_rep (kmem_pass (popped_page s)) (tl vs)"
    using rep first by (cases vs) (auto simp: kmem_rep_def popped_page_def)
qed

section \<open>The contract of the allocator\<close>

text \<open>
  What the rest of the kernel relies on: the pool is a list of distinct valid pages,
  \<open>alloc\<close> takes its head (or answers 0) and \<open>free\<close> puts a page that is not in the pool
  at its head. The lemmas of the locale are about clients that take several pages.
\<close>

locale page_pool =
  fixes alloc :: "'s \<Rightarrow> (u32 \<times> 's) outcome"
    and dealloc :: "u32 \<Rightarrow> 's \<Rightarrow> 's outcome"
    and rep :: "'s \<Rightarrow> u32 list \<Rightarrow> bool"
    and usable :: "'s \<Rightarrow> u32 \<Rightarrow> bool"
  assumes alloc_empty: "rep s [] \<Longrightarrow> \<exists>t. alloc s = Inr (0, t) \<and> rep t []"
    and alloc_page: "rep s (v # vs) \<Longrightarrow> \<exists>t. alloc s = Inr (v, t) \<and> rep t vs \<and> usable t = usable s"
    and dealloc_page: "rep s vs \<Longrightarrow> usable s v \<Longrightarrow> v \<notin> set vs \<Longrightarrow>
      \<exists>t. dealloc v s = Inr t \<and> rep t (v # vs) \<and> usable t = usable s"
    and rep_pages: "rep s vs \<Longrightarrow> distinct vs \<and> (\<forall>v \<in> set vs. usable s v \<and> v \<noteq> 0)"
begin

primrec alloc_many :: "nat \<Rightarrow> 's \<Rightarrow> (u32 list \<times> 's) outcome" where
  "alloc_many 0 s = Inr ([], s)"
| "alloc_many (Suc n) s =
     and_then (alloc s) (\<lambda>(v, s). and_then (alloc_many n s) (\<lambda>(vs, s). Inr (v # vs, s)))"

primrec dealloc_many :: "u32 list \<Rightarrow> 's \<Rightarrow> 's outcome" where
  "dealloc_many [] s = Inr s"
| "dealloc_many (v # vs) s = and_then (dealloc v s) (dealloc_many vs)"

lemma alloc_many_pages:
  "rep s (us @ vs) \<Longrightarrow>
     \<exists>t. alloc_many (length us) s = Inr (us, t) \<and> rep t vs \<and> usable t = usable s"
proof (induction us arbitrary: s)
  case (Cons u us)
  then obtain t where "alloc s = Inr (u, t)" "rep t (us @ vs)" "usable t = usable s"
    using alloc_page by fastforce
  with Cons.IH [of t] show ?case by auto
qed simp

lemma dealloc_many_pages:
  "rep s vs \<Longrightarrow> distinct us \<Longrightarrow> set us \<inter> set vs = {} \<Longrightarrow> \<forall>u \<in> set us. usable s u \<Longrightarrow>
     \<exists>t. dealloc_many us s = Inr t \<and> rep t (rev us @ vs) \<and> usable t = usable s"
proof (induction us arbitrary: s vs)
  case (Cons u us)
  from Cons.prems obtain t where "dealloc u s = Inr t" "rep t (u # vs)" "usable t = usable s"
    using dealloc_page [of s vs u] by auto
  with Cons.IH [of t "u # vs"] Cons.prems show ?case by auto
qed simp

lemma alloc_dealloc_many:
  assumes "rep s (us @ vs)"
  shows "\<exists>t u. alloc_many (length us) s = Inr (us, t) \<and> dealloc_many (rev us) t = Inr u \<and>
           rep u (us @ vs)"
proof -
  obtain t where t: "alloc_many (length us) s = Inr (us, t)" "rep t vs" "usable t = usable s"
    using alloc_many_pages [OF assms] by blast
  moreover have "distinct us" "set us \<inter> set vs = {}" "\<forall>u \<in> set us. usable t u"
    using rep_pages [OF assms] t(3) by auto
  ultimately show ?thesis using dealloc_many_pages [of t vs "rev us"] by auto
qed

end

interpretation kpool: page_pool kalloc kfree kmem_rep page_ok
proof
  fix s :: "'a kmem_state_scheme" and vs v
  show "\<exists>t. kalloc s = Inr (0, t) \<and> kmem_rep t []" if "kmem_rep s []"
    using that kalloc_rep [OF that] by (auto simp: kmem_rep_def kalloc_ok)
  show "\<exists>t. kalloc s = Inr (v, t) \<and> kmem_rep t vs \<and> page_ok t = page_ok s" if "kmem_rep s (v # vs)"
  proof -
    have "page_ok (kmem_pass (popped_page s)) = page_ok s" by (rule page_ok_cong) simp
    then show ?thesis using that kalloc_rep [OF that] by (auto simp: kmem_rep_def kalloc_ok)
  qed
  show "\<exists>t. kfree v s = Inr t \<and> kmem_rep t (v # vs) \<and> page_ok t = page_ok s"
    if "kmem_rep s vs" "page_ok s v" "v \<notin> set vs"
  proof -
    have "page_ok (kmem_pass (pushed_page v s)) = page_ok s" by (rule page_ok_cong) simp
    moreover have "cpu_ok s" "use_lock s \<longrightarrow> lock_free L_kmem s"
      using that(1) by (simp_all add: kmem_rep_def)
    ultimately show ?thesis using kfree_rep [OF that] that(2) by (blast intro: kfree_ok)
  qed
  show "distinct vs \<and> (\<forall>v \<in> set vs. page_ok s v \<and> v \<noteq> 0)" if "kmem_rep s vs"
    using that page_ok_nonzero by (auto simp: kmem_rep_def)
qed


section \<open>Building the pool\<close>

text \<open>The \<open>n\<close> pages from \<open>p\<close> upwards.\<close>

definition page_run :: "u32 \<Rightarrow> nat \<Rightarrow> u32 list" where
  "page_run p n = map (\<lambda>i. p + of_nat (4096 * i)) [0..<n]"

lemma page_run_Suc: "page_run p (Suc n) = p # page_run (p + PGSIZE) n"
proof -
  have "[0..<Suc n] = 0 # map Suc [0..<n]" by (simp add: map_Suc_upt upt_conv_Cons)
  then show ?thesis by (simp add: page_run_def algebra_simps)
qed

lemma page_run_0 [simp]: "page_run p 0 = []"
  by (simp add: page_run_def)

lemma length_page_run [simp]: "length (page_run p n) = n"
  by (simp add: page_run_def)

lemma freerange_loop_rep:
  assumes "kmem_rep s vs" and "distinct (page_run p n @ vs)" and "\<forall>v \<in> set (page_run p n). page_ok s v"
    and "unat p + 4096 * n \<le> unat vend" and "unat vend < unat p + 4096 * Suc n"
    and "unat p + 4096 < 4294967296"
  shows "\<exists>t. freerange_loop p vend s = Inr t \<and> kmem_rep t (rev (page_run p n) @ vs)"
  using assms
proof (induction n arbitrary: p s vs)
  case 0
  then have "unat (p + PGSIZE) = unat p + 4096" by (simp add: unat_word_ariths)
  then have "\<not> p + PGSIZE \<le> vend" using "0.prems"(5) by (simp add: word_le_nat_alt)
  then show ?case using "0.prems"(1) by (simp add: freerange_loop.simps [of p])
next
  case (Suc n)
  have page: "page_ok s p" using Suc.prems(3) by (simp add: page_run_Suc)
  then have next_page: "unat (p + PGSIZE) = unat p + 4096" and "unat p < 0x8E000000"
    using V2P_low_next page_ok_def by blast+
  then have go: "p + PGSIZE \<le> vend" using Suc.prems(4) by (simp add: word_le_nat_alt)
  obtain t where t: "kfree p s = Inr t" "kmem_rep t (p # vs)" "page_ok t = page_ok s"
    using kpool.dealloc_page [OF Suc.prems(1) page] Suc.prems(2) by (auto simp: page_run_Suc)
  have "\<exists>u. freerange_loop (p + PGSIZE) vend t = Inr u \<and>
      kmem_rep u (rev (page_run (p + PGSIZE) n) @ p # vs)"
  proof (rule Suc.IH)
    show "distinct (page_run (p + PGSIZE) n @ p # vs)" using Suc.prems(2) by (simp add: page_run_Suc)
    show "\<forall>v \<in> set (page_run (p + PGSIZE) n). page_ok t v"
      using Suc.prems(3) t(3) by (simp add: page_run_Suc)
    show "unat (p + PGSIZE) + 4096 < 4294967296" using next_page \<open>unat p < 0x8E000000\<close> by simp
  qed (use t next_page Suc.prems(4,5) in simp_all)
  then show ?case using go t(1) by (simp add: freerange_loop.simps [of p] page_run_Suc)
qed

lemma freerange_bad_page:
  "p + PGSIZE \<le> vend \<Longrightarrow> \<not> page_ok s p \<Longrightarrow> freerange_loop p vend s = Inl (Panic ''kfree'')"
  by (simp add: freerange_loop.simps [of p] kfree_bad)

end
