(* ===== verification/Bytes.thy ===== *)
theory Bytes
  imports Kstring
begin

text \<open>
  Kernel arrays as lists of bytes: the data of a disk block, a structure that is read from
  or written to such a block, a file name. \<open>slice\<close> and \<open>overwrite\<close> are what \<open>memmove\<close> does
  between two different arrays; \<open>get16\<close>, \<open>get32\<close>, \<open>put16\<close> and \<open>put32\<close> are the accesses
  through a pointer cast to a structure with 16-bit and 32-bit fields (little-endian).
\<close>

unbundle bit_operations_syntax

definition slice :: "u8 list \<Rightarrow> nat \<Rightarrow> nat \<Rightarrow> u8 list" where
  "slice xs k n = take n (drop k xs)"

definition overwrite :: "u8 list \<Rightarrow> nat \<Rightarrow> u8 list \<Rightarrow> u8 list" where
  "overwrite xs k ys = take k xs @ ys @ drop (k + length ys) xs"

definition bytes16 :: "u16 \<Rightarrow> u8 list" where
  "bytes16 w = [ucast w, ucast (drop_bit 8 w)]"

definition bytes32 :: "u32 \<Rightarrow> u8 list" where
  "bytes32 w = [ucast w, ucast (drop_bit 8 w), ucast (drop_bit 16 w), ucast (drop_bit 24 w)]"

definition get16 :: "u8 list \<Rightarrow> nat \<Rightarrow> u16" where
  "get16 xs k = ucast (xs ! k) OR push_bit 8 (ucast (xs ! (k + 1)))"

definition get32 :: "u8 list \<Rightarrow> nat \<Rightarrow> u32" where
  "get32 xs k = ucast (xs ! k) OR push_bit 8 (ucast (xs ! (k + 1)))
     OR push_bit 16 (ucast (xs ! (k + 2))) OR push_bit 24 (ucast (xs ! (k + 3)))"

definition put16 :: "u8 list \<Rightarrow> nat \<Rightarrow> u16 \<Rightarrow> u8 list" where
  "put16 xs k w = overwrite xs k (bytes16 w)"

definition put32 :: "u8 list \<Rightarrow> nat \<Rightarrow> u32 \<Rightarrow> u8 list" where
  "put32 xs k w = overwrite xs k (bytes32 w)"

lemma length_bytes [simp]: "length (bytes16 w) = 2" "length (bytes32 v) = 4"
  by (simp_all add: bytes16_def bytes32_def)

lemma length_slice [simp]: "length (slice xs k n) = min n (length xs - k)"
  by (simp add: slice_def)

lemma length_overwrite [simp]: "k + length ys \<le> length xs \<Longrightarrow> length (overwrite xs k ys) = length xs"
  by (simp add: overwrite_def)

lemma length_put [simp]:
  "k + 2 \<le> length xs \<Longrightarrow> length (put16 xs k v) = length xs"
  "k + 4 \<le> length xs \<Longrightarrow> length (put32 xs k w) = length xs"
  by (simp_all add: put16_def put32_def)

lemma nth_overwrite:
  assumes "k + length ys \<le> length xs" and "i < length xs"
  shows "overwrite xs k ys ! i = (if k \<le> i \<and> i < k + length ys then ys ! (i - k) else xs ! i)"
  using assms by (auto simp: overwrite_def nth_append)

lemma slice_overwrite_same:
  "k + length ys \<le> length xs \<Longrightarrow> slice (overwrite xs k ys) k (length ys) = ys"
  by (simp add: slice_def overwrite_def)

lemma slice_overwrite_other:
  assumes "k + length ys \<le> length xs" and "j + n \<le> k \<or> k + length ys \<le> j" and "j + n \<le> length xs"
  shows "slice (overwrite xs k ys) j n = slice xs j n"
  using assms by (intro nth_equalityI) (auto simp: slice_def nth_overwrite)

lemma join16: "(ucast (ucast v :: u8) :: u16) OR push_bit 8 (ucast (ucast (drop_bit 8 v) :: u8)) = v"
proof (rule bit_eqI)
  fix n
  assume "possible_bit TYPE(16 word) n"
  then have "n < 16" by simp
  then consider "n < 8" | "8 \<le> n" "n < 16" by linarith
  then show "bit ((ucast (ucast v :: u8) :: u16) OR push_bit 8 (ucast (ucast (drop_bit 8 v) :: u8))) n = bit v n"
    by cases (auto simp: bit_simps)
qed

lemma get16_put16 [simp]: "k + 2 \<le> length xs \<Longrightarrow> get16 (put16 xs k v) k = v"
  using join16 [of v] by (simp add: get16_def put16_def nth_overwrite) (simp add: bytes16_def)

lemma get32_put32 [simp]: "k + 4 \<le> length xs \<Longrightarrow> get32 (put32 xs k v) k = v"
  using bytes_join [of v] by (simp add: get32_def put32_def nth_overwrite) (simp add: bytes32_def)

lemma get16_overwrite:
  "k + length ys \<le> length xs \<Longrightarrow> j + 2 \<le> length xs \<Longrightarrow> j + 2 \<le> k \<or> k + length ys \<le> j \<Longrightarrow>
     get16 (overwrite xs k ys) j = get16 xs j"
  by (auto simp: get16_def nth_overwrite)

lemma get32_overwrite:
  "k + length ys \<le> length xs \<Longrightarrow> j + 4 \<le> length xs \<Longrightarrow> j + 4 \<le> k \<or> k + length ys \<le> j \<Longrightarrow>
     get32 (overwrite xs k ys) j = get32 xs j"
  by (auto simp: get32_def nth_overwrite)

lemma get_put_other [simp]:
  "k + 2 \<le> length xs \<Longrightarrow> j + 2 \<le> length xs \<Longrightarrow> j + 2 \<le> k \<or> k + 2 \<le> j \<Longrightarrow> get16 (put16 xs k v) j = get16 xs j"
  "k + 4 \<le> length xs \<Longrightarrow> j + 2 \<le> length xs \<Longrightarrow> j + 2 \<le> k \<or> k + 4 \<le> j \<Longrightarrow> get16 (put32 xs k w) j = get16 xs j"
  "k + 2 \<le> length xs \<Longrightarrow> j + 4 \<le> length xs \<Longrightarrow> j + 4 \<le> k \<or> k + 2 \<le> j \<Longrightarrow> get32 (put16 xs k v) j = get32 xs j"
  "k + 4 \<le> length xs \<Longrightarrow> j + 4 \<le> length xs \<Longrightarrow> j + 4 \<le> k \<or> k + 4 \<le> j \<Longrightarrow> get32 (put32 xs k w) j = get32 xs j"
  by (simp_all add: put16_def put32_def get16_overwrite get32_overwrite)

text \<open>An array placed in memory at an address, for the routines of \<open>string.c\<close>.\<close>

definition array_at :: "u32 \<Rightarrow> u8 list \<Rightarrow> memory \<Rightarrow> memory" where
  "array_at a xs m = (\<lambda>x. if unat (x - a) < length xs then xs ! unat (x - a) else m x)"

definition array_from :: "memory \<Rightarrow> u32 \<Rightarrow> nat \<Rightarrow> u8 list" where
  "array_from m a n = map (\<lambda>i. m (a + of_nat i)) [0..<n]"

lemma length_array_from [simp]: "length (array_from m a n) = n"
  by (simp add: array_from_def)

lemma array_from_at: "length xs < 4294967296 \<Longrightarrow> array_from (array_at a xs m) a (length xs) = xs"
  by (intro nth_equalityI) (auto simp: array_from_def array_at_def)

text \<open>\<open>safestrcpy(dst, src, sizeof(dst))\<close> for an array \<open>old\<close> and a string \<open>src\<close>.\<close>

definition safestrcpy_array :: "u8 list \<Rightarrow> u8 list \<Rightarrow> u8 list" where
  "safestrcpy_array old src =
     array_from (safestrcpy 0x100 0x200 (int (length old)) (array_at 0x100 old (array_at 0x200 (src @ [0]) (\<lambda>_. 0))))
       0x100 (length old)"

end
