(* ===== verification/Vm.thy ===== *)
theory Vm
  imports Kalloc Bytes
begin

text \<open>
  Page tables and address spaces, \<open>src/vm.c\<close> with the page-table part of \<open>src/mmu.h\<close>.

  Page directories and page tables are ordinary pages of \<open>mem\<close>, read and written word by
  word as in the code. \<open>xlate\<close> is the translation the paging hardware performs; theory
  \<open>Paging\<close> says what \<open>walkpgdir\<close> and \<open>mappages\<close> do to it. \<open>kdata\<close> is the linker symbol
  \<open>data\<close>. \<open>loaduvm\<close> is in \<open>Exec\<close>, since it reads from an inode, and \<open>switchuvm\<close> in
  \<open>Proc\<close>, since it takes a process.

  Loop bounds: \<open>mappages\<close> and the loops that step through an address range take the number
  of remaining pages as fuel.
\<close>

unbundle bit_operations_syntax

abbreviation (input) PTE_P :: u32 where "PTE_P \<equiv> 1"
abbreviation (input) PTE_W :: u32 where "PTE_W \<equiv> 2"
abbreviation (input) PTE_U :: u32 where "PTE_U \<equiv> 4"
abbreviation (input) KERNLINK :: u32 where "KERNLINK \<equiv> 0x80100000"

definition PDX :: "u32 \<Rightarrow> u32" where "PDX va = drop_bit 22 va AND 0x3FF"
definition PTX :: "u32 \<Rightarrow> u32" where "PTX va = drop_bit 12 va AND 0x3FF"
definition PGADDR :: "u32 \<Rightarrow> u32 \<Rightarrow> u32 \<Rightarrow> u32" where
  "PGADDR d t off = push_bit 22 d OR push_bit 12 t OR off"
definition PTE_ADDR :: "u32 \<Rightarrow> u32" where "PTE_ADDR pte = pte AND NOT 0xFFF"
definition PTE_FLAGS :: "u32 \<Rightarrow> u32" where "PTE_FLAGS pte = pte AND 0xFFF"

record vm_state = kmem_state +
  kpgdir :: u32
  kdata :: u32

lemma vm_fields [simp]:
  "kpgdir (pushed s) = kpgdir s" "kdata (pushed s) = kdata s" "kpgdir (popped s) = kpgdir s"
  "kdata (popped s) = kdata s" "kpgdir (balanced s) = kpgdir s" "kdata (balanced s) = kdata s"
  "kpgdir (set_lock l f s) = kpgdir s" "kdata (set_lock l f s) = kdata s"
  "kpgdir (enter l s) = kpgdir s" "kdata (enter l s) = kdata s" "kpgdir (leave l s) = kpgdir s"
  "kdata (leave l s) = kdata s"
  by (simp_all add: enter_def leave_def balanced_def popped_def pushed_def set_lock_def)

lemma vm_updates [simp]:
  "here (s\<lparr>kpgdir := v0\<rparr>) = here s" "self (s\<lparr>kpgdir := v0\<rparr>) = self s"
  "self_cpu (s\<lparr>kpgdir := v0\<rparr>) = self_cpu s"
  "running (s\<lparr>kpgdir := v0\<rparr>) = running s"
  "cpu_ok (s\<lparr>kpgdir := v0\<rparr>) = cpu_ok s"
  "lock_free l (s\<lparr>kpgdir := v0\<rparr>) = lock_free l s"
  "lock_held l (s\<lparr>kpgdir := v0\<rparr>) = lock_held l s"
  "lock_mine l (s\<lparr>kpgdir := v0\<rparr>) = lock_mine l s"
  by (simp_all add: here_def self_def self_cpu_def running_def cpu_ok_def lock_free_def lock_held_def
      lock_mine_def)

lemma vm_commute [simp]:
  "pushed (s\<lparr>kpgdir := v0\<rparr>) = (pushed s)\<lparr>kpgdir := v0\<rparr>"
  "popped (s\<lparr>kpgdir := v0\<rparr>) = (popped s)\<lparr>kpgdir := v0\<rparr>"
  "balanced (s\<lparr>kpgdir := v0\<rparr>) = (balanced s)\<lparr>kpgdir := v0\<rparr>"
  "set_lock l f (s\<lparr>kpgdir := v0\<rparr>) = (set_lock l f s)\<lparr>kpgdir := v0\<rparr>"
  by (simp_all add: pushed_def popped_def balanced_def set_lock_def)

lemma vm_commute_lock [simp]:
  "enter l (s\<lparr>kpgdir := v0\<rparr>) = (enter l s)\<lparr>kpgdir := v0\<rparr>"
  "leave l (s\<lparr>kpgdir := v0\<rparr>) = (leave l s)\<lparr>kpgdir := v0\<rparr>"
  by (simp_all add: enter_def leave_def)

section \<open>The paging hardware\<close>

text \<open>
  Translation of a virtual address through the page directory at physical address
  \<open>cr3\<close>: the kernel address of the byte and the flags that both levels grant. The kernel
  runs with \<open>CR0_WP\<close> set, so its stores need \<open>PTE_W\<close>; its loads only need \<open>PTE_P\<close>.
\<close>

definition xlate :: "memory \<Rightarrow> u32 \<Rightarrow> u32 \<Rightarrow> (u32 \<times> u32) option" where
  "xlate m cr3 va =
     (let pde = load32 m (P2V cr3 + 4 * PDX va) in
      if pde AND PTE_P = 0 then None
      else let pte = load32 m (P2V (PTE_ADDR pde) + 4 * PTX va) in
        if pte AND PTE_P = 0 then None
        else Some (P2V (PTE_ADDR pte) + (va AND 0xFFF), PTE_FLAGS pde AND PTE_FLAGS pte))"

definition vload8 :: "u32 \<Rightarrow> 'a kmem_state_scheme \<Rightarrow> u8 outcome" where
  "vload8 va s =
     (case xlate (mem s) (c_cr3 (self_cpu s)) va of
        None \<Rightarrow> Inl (Fault va) | Some (ka, _) \<Rightarrow> Inr (mem s ka))"

definition vstore8 :: "u32 \<Rightarrow> u8 \<Rightarrow> 'a kmem_state_scheme \<Rightarrow> ('a kmem_state_scheme) outcome" where
  "vstore8 va b s =
     (case xlate (mem s) (c_cr3 (self_cpu s)) va of
        None \<Rightarrow> Inl (Fault va)
      | Some (ka, fl) \<Rightarrow>
          if fl AND PTE_W = 0 then Inl (Fault va) else Inr (s\<lparr>mem := (mem s)(ka := b)\<rparr>))"

definition vload32 :: "u32 \<Rightarrow> 'a kmem_state_scheme \<Rightarrow> u32 outcome" where
  "vload32 va s =
     and_then (vload8 va s) (\<lambda>b0. and_then (vload8 (va + 1) s) (\<lambda>b1.
     and_then (vload8 (va + 2) s) (\<lambda>b2. and_then (vload8 (va + 3) s) (\<lambda>b3.
       Inr (ucast b0 OR push_bit 8 (ucast b1) OR push_bit 16 (ucast b2) OR push_bit 24 (ucast b3))))))"

definition vstore32 :: "u32 \<Rightarrow> u32 \<Rightarrow> 'a kmem_state_scheme \<Rightarrow> ('a kmem_state_scheme) outcome" where
  "vstore32 va w s =
     and_then (vstore8 va (ucast w) s) (\<lambda>s.
     and_then (vstore8 (va + 1) (ucast (drop_bit 8 w)) s) (\<lambda>s.
     and_then (vstore8 (va + 2) (ucast (drop_bit 16 w)) s) (\<lambda>s.
       vstore8 (va + 3) (ucast (drop_bit 24 w)) s)))"

section \<open>The routines\<close>

definition SEG :: "u32 \<Rightarrow> u32 \<Rightarrow> u32 \<Rightarrow> u32 \<Rightarrow> segdesc" where
  "SEG type base lim dpl =
     \<lparr>sd_lim_15_0 = drop_bit 12 lim AND 0xffff, sd_base_15_0 = base AND 0xffff,
      sd_base_23_16 = drop_bit 16 base AND 0xff, sd_type = type, sd_s = 1, sd_dpl = dpl, sd_p = 1,
      sd_lim_19_16 = drop_bit 28 lim, sd_avl = 0, sd_rsv1 = 0, sd_db = 1, sd_g = 1,
      sd_base_31_24 = drop_bit 24 base\<rparr>"

definition SEG16 :: "u32 \<Rightarrow> u32 \<Rightarrow> u32 \<Rightarrow> u32 \<Rightarrow> segdesc" where
  "SEG16 type base lim dpl =
     \<lparr>sd_lim_15_0 = lim AND 0xffff, sd_base_15_0 = base AND 0xffff,
      sd_base_23_16 = drop_bit 16 base AND 0xff, sd_type = type, sd_s = 1, sd_dpl = dpl, sd_p = 1,
      sd_lim_19_16 = drop_bit 16 lim, sd_avl = 0, sd_rsv1 = 0, sd_db = 1, sd_g = 0,
      sd_base_31_24 = drop_bit 24 base\<rparr>"

definition seginit :: "'a machine_scheme \<Rightarrow> ('a machine_scheme) outcome" where
  "seginit s =
     and_then (cpuid s) (\<lambda>c.
       let s = set_cpu c (\<lambda>k. k\<lparr>c_gdt := (c_gdt k)(1 := SEG (8 OR 2) 0 0xffffffff 0)\<rparr>) s;
           s = set_cpu c (\<lambda>k. k\<lparr>c_gdt := (c_gdt k)(2 := SEG 2 0 0xffffffff 0)\<rparr>) s;
           s = set_cpu c (\<lambda>k. k\<lparr>c_gdt := (c_gdt k)(3 := SEG (8 OR 2) 0 0xffffffff 3)\<rparr>) s;
           s = set_cpu c (\<lambda>k. k\<lparr>c_gdt := (c_gdt k)(4 := SEG 2 0 0xffffffff 3)\<rparr>) s
       in Inr (set_cpu c (\<lambda>k. k\<lparr>c_gdtr := True\<rparr>) s))"

definition walkpgdir ::
    "u32 \<Rightarrow> u32 \<Rightarrow> bool \<Rightarrow> 'a kmem_state_scheme \<Rightarrow> (u32 \<times> 'a kmem_state_scheme) outcome" where
  "walkpgdir pgdir va alloc s =
     (let pde = pgdir + 4 * PDX va in
      if load32 (mem s) pde AND PTE_P \<noteq> 0
      then Inr (P2V (PTE_ADDR (load32 (mem s) pde)) + 4 * PTX va, s)
      else if \<not> alloc then Inr (0, s)
      else and_then (kalloc s) (\<lambda>(pgtab, s).
        if pgtab = 0 then Inr (0, s)
        else let s = s\<lparr>mem := memset pgtab 0 PGSIZE (mem s)\<rparr>;
                 s = s\<lparr>mem := store32 (mem s) pde (V2P pgtab OR PTE_P OR PTE_W OR PTE_U)\<rparr>
             in Inr (pgtab + 4 * PTX va, s)))"

primrec mappages_loop ::
    "nat \<Rightarrow> u32 \<Rightarrow> u32 \<Rightarrow> u32 \<Rightarrow> u32 \<Rightarrow> u32 \<Rightarrow> 'a kmem_state_scheme \<Rightarrow>
       (int \<times> 'a kmem_state_scheme) outcome" where
  "mappages_loop 0 pgdir a last_page pa perm s = Inl OutOfFuel"
| "mappages_loop (Suc n) pgdir a last_page pa perm s =
     and_then (walkpgdir pgdir a True s) (\<lambda>(pte, s).
       if pte = 0 then Inr (-1, s)
       else if load32 (mem s) pte AND PTE_P \<noteq> 0 then Inl (Panic ''remap'')
       else let s = s\<lparr>mem := store32 (mem s) pte (pa OR perm OR PTE_P)\<rparr> in
         if a = last_page then Inr (0, s)
         else mappages_loop n pgdir (a + PGSIZE) last_page (pa + PGSIZE) perm s)"

definition mappages ::
    "u32 \<Rightarrow> u32 \<Rightarrow> u32 \<Rightarrow> u32 \<Rightarrow> u32 \<Rightarrow> 'a kmem_state_scheme \<Rightarrow>
       (int \<times> 'a kmem_state_scheme) outcome" where
  "mappages pgdir va sz pa perm s =
     (let a = PGROUNDDOWN va; last_page = PGROUNDDOWN (va + sz - 1)
      in mappages_loop (Suc (unat ((last_page - a) div PGSIZE))) pgdir a last_page pa perm s)"

primrec deallocuvm_loop ::
    "nat \<Rightarrow> u32 \<Rightarrow> u32 \<Rightarrow> u32 \<Rightarrow> 'a kmem_state_scheme \<Rightarrow> ('a kmem_state_scheme) outcome" where
  "deallocuvm_loop 0 pgdir a oldsz s = Inl OutOfFuel"
| "deallocuvm_loop (Suc n) pgdir a oldsz s =
     (if a < oldsz then
        and_then (walkpgdir pgdir a False s) (\<lambda>(pte, s).
          if pte = 0 then
            deallocuvm_loop n pgdir (PGADDR (PDX a + 1) 0 0 - PGSIZE + PGSIZE) oldsz s
          else if load32 (mem s) pte AND PTE_P \<noteq> 0 then
            let pa = PTE_ADDR (load32 (mem s) pte) in
            if pa = 0 then Inl (Panic ''kfree'')
            else and_then (kfree (P2V pa) s) (\<lambda>s.
              let s = s\<lparr>mem := store32 (mem s) pte 0\<rparr>
              in deallocuvm_loop n pgdir (a + PGSIZE) oldsz s)
          else deallocuvm_loop n pgdir (a + PGSIZE) oldsz s)
      else Inr s)"

definition deallocuvm ::
    "u32 \<Rightarrow> u32 \<Rightarrow> u32 \<Rightarrow> 'a kmem_state_scheme \<Rightarrow> (u32 \<times> 'a kmem_state_scheme) outcome" where
  "deallocuvm pgdir oldsz newsz s =
     (if newsz \<ge> oldsz then Inr (oldsz, s)
      else and_then (deallocuvm_loop (Suc (unat (oldsz div PGSIZE) + 1)) pgdir (PGROUNDUP newsz) oldsz s)
        (\<lambda>s. Inr (newsz, s)))"

definition free_pde :: "u32 \<Rightarrow> nat \<Rightarrow> 'a kmem_state_scheme \<Rightarrow> ('a kmem_state_scheme) outcome" where
  "free_pde pgdir i s =
     (let pde = load32 (mem s) (pgdir + 4 * of_nat i) in
      if pde AND PTE_P \<noteq> 0 then kfree (P2V (PTE_ADDR pde)) s else Inr s)"

definition freevm :: "u32 \<Rightarrow> 'a kmem_state_scheme \<Rightarrow> ('a kmem_state_scheme) outcome" where
  "freevm pgdir s =
     (if pgdir = 0 then Inl (Panic ''freevm: no pgdir'')
      else and_then (deallocuvm pgdir KERNBASE 0 s) (\<lambda>(_, s).
           and_then (for_each (free_pde pgdir) [0..<1024] s) (\<lambda>s.
             kfree pgdir s)))"

definition kmap :: "'a vm_state_scheme \<Rightarrow> (u32 \<times> u32 \<times> u32 \<times> u32) list" where
  "kmap s =
     [(KERNBASE, 0, EXTMEM, PTE_W),
      (KERNLINK, V2P KERNLINK, V2P (kdata s), 0),
      (kdata s, V2P (kdata s), PHYSTOP, PTE_W),
      (DEVSPACE, DEVSPACE, 0, PTE_W)]"

definition map_kernel_range ::
    "u32 \<Rightarrow> u32 \<times> u32 \<times> u32 \<times> u32 \<Rightarrow> 'a kmem_state_scheme \<Rightarrow>
       (u32 option \<times> 'a kmem_state_scheme) outcome" where
  "map_kernel_range pgdir k s =
     (case k of (virt, phys_start, phys_end, perm) \<Rightarrow>
       and_then (mappages pgdir virt (phys_end - phys_start) phys_start perm s) (\<lambda>(r, s).
         if r < 0 then and_then (freevm pgdir s) (\<lambda>s. Inr (Some 0, s))
         else Inr (None, s)))"

definition setupkvm :: "'a vm_state_scheme \<Rightarrow> (u32 \<times> 'a vm_state_scheme) outcome" where
  "setupkvm s =
     and_then (kalloc s) (\<lambda>(pgdir, s).
       if pgdir = 0 then Inr (0, s)
       else let s = s\<lparr>mem := memset pgdir 0 PGSIZE (mem s)\<rparr> in
         if P2V PHYSTOP > DEVSPACE then Inl (Panic ''PHYSTOP too high'')
         else and_then (for_until (map_kernel_range pgdir) (kmap s) s) (\<lambda>(r, s).
           case r of Some v \<Rightarrow> Inr (v, s) | None \<Rightarrow> Inr (pgdir, s)))"

definition lcr3 :: "u32 \<Rightarrow> 'a machine_scheme \<Rightarrow> 'a machine_scheme" where
  "lcr3 v s = set_cpu (self s) (\<lambda>c. c\<lparr>c_cr3 := v\<rparr>) s"

definition switchkvm :: "'a vm_state_scheme \<Rightarrow> 'a vm_state_scheme" where
  "switchkvm s = lcr3 (V2P (kpgdir s)) s"

definition kvmalloc :: "'a vm_state_scheme \<Rightarrow> ('a vm_state_scheme) outcome" where
  "kvmalloc s =
     and_then (setupkvm s) (\<lambda>(pgdir, s).
       let s = s\<lparr>kpgdir := pgdir\<rparr> in Inr (switchkvm s))"

text \<open>\<open>init\<close> is the address of the program image, which the linker places in memory.\<close>

definition inituvm ::
    "u32 \<Rightarrow> u32 \<Rightarrow> u32 \<Rightarrow> 'a kmem_state_scheme \<Rightarrow> ('a kmem_state_scheme) outcome" where
  "inituvm pgdir init sz s =
     (if sz \<ge> PGSIZE then Inl (Panic ''inituvm: more than a page'')
      else and_then (kalloc s) (\<lambda>(m, s).
        let s = s\<lparr>mem := memset m 0 PGSIZE (mem s)\<rparr> in
        and_then (mappages pgdir 0 PGSIZE (V2P m) (PTE_W OR PTE_U) s) (\<lambda>(_, s).
          Inr (s\<lparr>mem := memmove m init sz (mem s)\<rparr>))))"

primrec allocuvm_loop ::
    "nat \<Rightarrow> u32 \<Rightarrow> u32 \<Rightarrow> u32 \<Rightarrow> u32 \<Rightarrow> 'a kmem_state_scheme \<Rightarrow>
       (u32 \<times> 'a kmem_state_scheme) outcome" where
  "allocuvm_loop 0 pgdir a oldsz newsz s = Inl OutOfFuel"
| "allocuvm_loop (Suc n) pgdir a oldsz newsz s =
     (if a < newsz then
        and_then (kalloc s) (\<lambda>(m, s).
          if m = 0 then
            let s = cprintf ''allocuvm out of memory'' [] s in
            and_then (deallocuvm pgdir newsz oldsz s) (\<lambda>(_, s). Inr (0, s))
          else
            let s = s\<lparr>mem := memset m 0 PGSIZE (mem s)\<rparr> in
            and_then (mappages pgdir a PGSIZE (V2P m) (PTE_W OR PTE_U) s) (\<lambda>(r, s).
              if r < 0 then
                let s = cprintf ''allocuvm out of memory (2)'' [] s in
                and_then (deallocuvm pgdir newsz oldsz s) (\<lambda>(_, s).
                and_then (kfree m s) (\<lambda>s. Inr (0, s)))
              else allocuvm_loop n pgdir (a + PGSIZE) oldsz newsz s))
      else Inr (newsz, s))"

definition allocuvm ::
    "u32 \<Rightarrow> u32 \<Rightarrow> u32 \<Rightarrow> 'a kmem_state_scheme \<Rightarrow> (u32 \<times> 'a kmem_state_scheme) outcome" where
  "allocuvm pgdir oldsz newsz s =
     (if newsz \<ge> KERNBASE then Inr (0, s)
      else if newsz < oldsz then Inr (oldsz, s)
      else allocuvm_loop (Suc (unat (newsz div PGSIZE) + 1)) pgdir (PGROUNDUP oldsz) oldsz newsz s)"

definition clearpteu ::
    "u32 \<Rightarrow> u32 \<Rightarrow> 'a kmem_state_scheme \<Rightarrow> ('a kmem_state_scheme) outcome" where
  "clearpteu pgdir uva s =
     and_then (walkpgdir pgdir uva False s) (\<lambda>(pte, s).
       if pte = 0 then Inl (Panic ''clearpteu'')
       else Inr (s\<lparr>mem := store32 (mem s) pte (load32 (mem s) pte AND NOT PTE_U)\<rparr>))"

primrec copyuvm_loop ::
    "nat \<Rightarrow> u32 \<Rightarrow> u32 \<Rightarrow> u32 \<Rightarrow> u32 \<Rightarrow> 'a kmem_state_scheme \<Rightarrow>
       (u32 \<times> 'a kmem_state_scheme) outcome" where
  "copyuvm_loop 0 d pgdir i sz s = Inl OutOfFuel"
| "copyuvm_loop (Suc n) d pgdir i sz s =
     (if i < sz then
        and_then (walkpgdir pgdir i False s) (\<lambda>(pte, s).
          if pte = 0 then Inl (Panic ''copyuvm: pte should exist'')
          else if load32 (mem s) pte AND PTE_P = 0 then Inl (Panic ''copyuvm: page not present'')
          else
            let pa = PTE_ADDR (load32 (mem s) pte); flags = PTE_FLAGS (load32 (mem s) pte) in
            and_then (kalloc s) (\<lambda>(m, s).
              if m = 0 then and_then (freevm d s) (\<lambda>s. Inr (0, s))
              else
                let s = s\<lparr>mem := memmove m (P2V pa) PGSIZE (mem s)\<rparr> in
                and_then (mappages d i PGSIZE (V2P m) flags s) (\<lambda>(r, s).
                  if r < 0 then
                    and_then (kfree m s) (\<lambda>s. and_then (freevm d s) (\<lambda>s. Inr (0, s)))
                  else copyuvm_loop n d pgdir (i + PGSIZE) sz s)))
      else Inr (d, s))"

definition copyuvm ::
    "u32 \<Rightarrow> u32 \<Rightarrow> 'a vm_state_scheme \<Rightarrow> (u32 \<times> 'a vm_state_scheme) outcome" where
  "copyuvm pgdir sz s =
     and_then (setupkvm s) (\<lambda>(d, s).
       if d = 0 then Inr (0, s)
       else copyuvm_loop (Suc (unat (sz div PGSIZE) + 1)) d pgdir 0 sz s)"

text \<open>
  \<open>uva2ka\<close> dereferences the entry that \<open>walkpgdir\<close> returns without a test for 0: with no
  page table for the address, the kernel reads virtual address 0 of the current address
  space.
\<close>

definition uva2ka ::
    "u32 \<Rightarrow> u32 \<Rightarrow> 'a kmem_state_scheme \<Rightarrow> (u32 \<times> 'a kmem_state_scheme) outcome" where
  "uva2ka pgdir uva s =
     and_then (walkpgdir pgdir uva False s) (\<lambda>(pte, s).
       and_then (if pte = 0 then vload32 0 s else Inr (load32 (mem s) pte)) (\<lambda>e.
         if e AND PTE_P = 0 then Inr (0, s)
         else if e AND PTE_U = 0 then Inr (0, s)
         else Inr (P2V (PTE_ADDR e), s)))"

text \<open>\<open>copyout\<close> copies the bytes \<open>p\<close>, which the caller reads from its own address space.\<close>

primrec copyout_loop ::
    "nat \<Rightarrow> u32 \<Rightarrow> u32 \<Rightarrow> u8 list \<Rightarrow> 'a kmem_state_scheme \<Rightarrow>
       (int \<times> 'a kmem_state_scheme) outcome" where
  "copyout_loop 0 pgdir va buf s = Inl OutOfFuel"
| "copyout_loop (Suc k) pgdir va buf s =
     (if buf \<noteq> [] then
        let va0 = PGROUNDDOWN va in
        and_then (uva2ka pgdir va0 s) (\<lambda>(pa0, s).
          if pa0 = 0 then Inr (-1, s)
          else
            let n = unat (PGSIZE - (va - va0)); n = (if n > length buf then length buf else n);
                s = s\<lparr>mem := array_at (pa0 + (va - va0)) (take n buf) (mem s)\<rparr>
            in copyout_loop k pgdir (va0 + PGSIZE) (drop n buf) s)
      else Inr (0, s))"

definition copyout ::
    "u32 \<Rightarrow> u32 \<Rightarrow> u8 list \<Rightarrow> 'a kmem_state_scheme \<Rightarrow> (int \<times> 'a kmem_state_scheme) outcome" where
  "copyout pgdir va p s = copyout_loop (Suc (length p)) pgdir va p s"

section \<open>Access to a window of user memory\<close>

text \<open>
  \<open>user_window m cr3 lo n ka\<close>: the \<open>n\<close> bytes from user address \<open>lo\<close> are mapped writable,
  byte \<open>i\<close> at kernel address \<open>ka i\<close>, no two bytes share a kernel address, and none of them
  lies in the page-table entries that map the window.
\<close>

definition pde_addr :: "u32 \<Rightarrow> u32 \<Rightarrow> u32" where
  "pde_addr cr3 va = P2V cr3 + 4 * PDX va"

definition pte_addr :: "memory \<Rightarrow> u32 \<Rightarrow> u32 \<Rightarrow> u32" where
  "pte_addr m cr3 va = P2V (PTE_ADDR (load32 m (pde_addr cr3 va))) + 4 * PTX va"

definition user_window :: "memory \<Rightarrow> u32 \<Rightarrow> u32 \<Rightarrow> nat \<Rightarrow> (nat \<Rightarrow> u32) \<Rightarrow> bool" where
  "user_window m cr3 lo n ka \<longleftrightarrow>
     (\<forall>i < n. \<forall>j < n. ka i = ka j \<longrightarrow> i = j) \<and>
     (\<forall>i < n. \<exists>fl. xlate m cr3 (lo + of_nat i) = Some (ka i, fl) \<and> fl AND PTE_W \<noteq> 0) \<and>
     (\<forall>i < n. \<forall>j < n. \<not> in_range (pde_addr cr3 (lo + of_nat i)) 4 (ka j) \<and>
        \<not> in_range (pte_addr m cr3 (lo + of_nat i)) 4 (ka j))"

lemma user_windowD:
  assumes "user_window m cr3 lo n ka"
  shows "i < n \<Longrightarrow> j < n \<Longrightarrow> ka i = ka j \<Longrightarrow> i = j"
    and "i < n \<Longrightarrow> \<exists>fl. xlate m cr3 (lo + of_nat i) = Some (ka i, fl) \<and> fl AND PTE_W \<noteq> 0"
    and "i < n \<Longrightarrow> j < n \<Longrightarrow> \<not> in_range (pde_addr cr3 (lo + of_nat i)) 4 (ka j)"
    and "i < n \<Longrightarrow> j < n \<Longrightarrow> \<not> in_range (pte_addr m cr3 (lo + of_nat i)) 4 (ka j)"
  using assms unfolding user_window_def by blast+

lemma in_range_offset4: "i < 4 \<Longrightarrow> in_range a 4 (a + of_nat i)"
  by (simp add: in_range_def)

lemma xlate_frame:
  assumes "\<And>a. in_range (pde_addr cr3 va) 4 a \<Longrightarrow> m' a = m a"
    and "\<And>a. in_range (pte_addr m cr3 va) 4 a \<Longrightarrow> m' a = m a"
  shows "xlate m' cr3 va = xlate m cr3 va" and "pte_addr m' cr3 va = pte_addr m cr3 va"
proof -
  have pde: "load32 m' (pde_addr cr3 va) = load32 m (pde_addr cr3 va)"
    by (rule load32_other) (rule assms(1), rule in_range_offset4)
  then show "pte_addr m' cr3 va = pte_addr m cr3 va" by (simp add: pte_addr_def)
  have "load32 m' (pte_addr m cr3 va) = load32 m (pte_addr m cr3 va)"
    by (rule load32_other) (rule assms(2), rule in_range_offset4)
  with pde show "xlate m' cr3 va = xlate m cr3 va"
    unfolding xlate_def pde_addr_def [symmetric] by (simp add: pte_addr_def Let_def)
qed

lemma user_window_frame:
  assumes win: "user_window m cr3 lo n ka" and same: "\<And>a. a \<notin> ka ` {..<n} \<Longrightarrow> m' a = m a"
  shows "user_window m' cr3 lo n ka"
proof -
  have "xlate m' cr3 (lo + of_nat i) = xlate m cr3 (lo + of_nat i) \<and>
      pte_addr m' cr3 (lo + of_nat i) = pte_addr m cr3 (lo + of_nat i)" if "i < n" for i
  proof -
    have "m' a = m a" if "in_range (pde_addr cr3 (lo + of_nat i)) 4 a" for a
      using that user_windowD(3) [OF win \<open>i < n\<close>] by (intro same) auto
    moreover have "m' a = m a" if "in_range (pte_addr m cr3 (lo + of_nat i)) 4 a" for a
      using that user_windowD(4) [OF win \<open>i < n\<close>] by (intro same) auto
    ultimately show ?thesis using xlate_frame by blast
  qed
  then show ?thesis using win unfolding user_window_def by simp
qed

definition win :: "u32 \<Rightarrow> nat \<Rightarrow> (nat \<Rightarrow> u32) \<Rightarrow> 'a kmem_state_scheme \<Rightarrow> bool" where
  "win lo n ka s \<longleftrightarrow> user_window (mem s) (c_cr3 (self_cpu s)) lo n ka"

text \<open>The 32-bit word at offset \<open>i\<close> of the window.\<close>

definition win_word :: "(nat \<Rightarrow> u32) \<Rightarrow> memory \<Rightarrow> nat \<Rightarrow> u32" where
  "win_word ka m i =
     ucast (m (ka i)) OR push_bit 8 (ucast (m (ka (i + 1)))) OR
     push_bit 16 (ucast (m (ka (i + 2)))) OR push_bit 24 (ucast (m (ka (i + 3))))"

lemma vload8_win:
  assumes "win lo n ka s" and "i < n"
  shows "vload8 (lo + of_nat i) s = Inr (mem s (ka i))"
  using user_windowD(2) [OF assms(1) [unfolded win_def] assms(2)] by (auto simp: vload8_def)

lemma vstore8_win:
  assumes "win lo n ka s" and "i < n"
  shows "vstore8 (lo + of_nat i) b s = Inr (s\<lparr>mem := (mem s)(ka i := b)\<rparr>)"
    and "win lo n ka (s\<lparr>mem := (mem s)(ka i := b)\<rparr>)"
proof -
  show "vstore8 (lo + of_nat i) b s = Inr (s\<lparr>mem := (mem s)(ka i := b)\<rparr>)"
    using user_windowD(2) [OF assms(1) [unfolded win_def] assms(2)] by (auto simp: vstore8_def)
  show "win lo n ka (s\<lparr>mem := (mem s)(ka i := b)\<rparr>)"
    using assms by (auto simp: win_def intro!: user_window_frame [where m = "mem s"])
qed

lemma vload32_win:
  assumes "win lo n ka s" and "i + 4 \<le> n"
  shows "vload32 (lo + of_nat i) s = Inr (win_word ka (mem s) i)"
proof -
  have "vload8 (lo + of_nat i + of_nat k) s = Inr (mem s (ka (i + k)))" if "k < 4" for k
    using vload8_win [OF assms(1), of "i + k"] that assms(2) by (simp add: add.assoc)
  from this [of 0] this [of 1] this [of 2] this [of 3] show ?thesis
    by (simp add: vload32_def win_word_def)
qed

definition put_word :: "(nat \<Rightarrow> u32) \<Rightarrow> nat \<Rightarrow> u32 \<Rightarrow> memory \<Rightarrow> memory" where
  "put_word ka i w m =
     m(ka i := ucast w, ka (i + 1) := ucast (drop_bit 8 w), ka (i + 2) := ucast (drop_bit 16 w),
       ka (i + 3) := ucast (drop_bit 24 w))"

lemma vstore32_win:
  assumes "win lo n ka s" and "i + 4 \<le> n"
  shows "vstore32 (lo + of_nat i) w s = Inr (s\<lparr>mem := put_word ka i w (mem s)\<rparr>)"
    and "win lo n ka (s\<lparr>mem := put_word ka i w (mem s)\<rparr>)"
proof -
  have store: "vstore8 (lo + of_nat i + of_nat k) b t = Inr (t\<lparr>mem := (mem t)(ka (i + k) := b)\<rparr>)"
    "win lo n ka (t\<lparr>mem := (mem t)(ka (i + k) := b)\<rparr>)"
    if "k < 4" "win lo n ka t" for k b and t :: "'a kmem_state_scheme"
    using vstore8_win [OF that(2), of "i + k"] that(1) assms(2) by (simp_all add: add.assoc)
  let ?t1 = "s\<lparr>mem := (mem s)(ka i := ucast w)\<rparr>"
  let ?t2 = "?t1\<lparr>mem := (mem ?t1)(ka (i + 1) := ucast (drop_bit 8 w))\<rparr>"
  let ?t3 = "?t2\<lparr>mem := (mem ?t2)(ka (i + 2) := ucast (drop_bit 16 w))\<rparr>"
  have w1: "win lo n ka ?t1" using store(2) [of 0 s] assms(1) by simp
  have w2: "win lo n ka ?t2" using store(2) [of 1 ?t1] w1 by simp
  have w3: "win lo n ka ?t3" using store(2) [of 2 ?t2] w2 by simp
  show "vstore32 (lo + of_nat i) w s = Inr (s\<lparr>mem := put_word ka i w (mem s)\<rparr>)"
    using store(1) [of 0 s] store(1) [of 1 ?t1] store(1) [of 2 ?t2] store(1) [of 3 ?t3] assms(1) w1 w2 w3
    by (simp add: vstore32_def put_word_def)
  show "win lo n ka (s\<lparr>mem := put_word ka i w (mem s)\<rparr>)"
    using store(2) [of 3 ?t3] w3 by (simp add: put_word_def)
qed

lemma win_word_put_same:
  assumes "user_window m cr3 lo n ka" and "i + 4 \<le> n"
  shows "win_word ka (put_word ka i w m') i = w"
proof -
  have "ka (i + k) \<noteq> ka (i + l)" if "k < 4" "l < 4" "k \<noteq> l" for k l
    using user_windowD(1) [OF assms(1), of "i + k" "i + l"] that assms(2) by auto
  from this [of 0 1] this [of 0 2] this [of 0 3] this [of 1 2] this [of 1 3] this [of 2 3]
  show ?thesis using bytes_join [of w] by (simp add: win_word_def put_word_def)
qed

lemma win_word_put_other:
  assumes "user_window m cr3 lo n ka" and "i + 4 \<le> n" and "j + 4 \<le> n" and "i + 4 \<le> j \<or> j + 4 \<le> i"
  shows "win_word ka (put_word ka i w m') j = win_word ka m' j"
proof -
  have "ka (j + l) \<noteq> ka (i + k)" if "k < 4" "l < 4" for k l
    using user_windowD(1) [OF assms(1), of "j + l" "i + k"] that assms(2-4) by auto
  from this [of 0 0] this [of 0 1] this [of 0 2] this [of 0 3] this [of 1 0] this [of 1 1] this [of 1 2]
    this [of 1 3] this [of 2 0] this [of 2 1] this [of 2 2] this [of 2 3] this [of 3 0] this [of 3 1]
    this [of 3 2] this [of 3 3]
  show ?thesis by (simp add: win_word_def put_word_def)
qed

end
