(* ===== verification/Proc.thy ===== *)
theory Proc
  imports Vm
begin

text \<open>
  The process table and scheduling, \<open>src/proc.c\<close> with \<open>src/proc.h\<close>, \<open>src/signal.h\<close>, the
  trap frame of \<open>src/x86.h\<close> and \<open>switchuvm\<close> of \<open>src/vm.c\<close>. \<open>fork\<close>, \<open>exit\<close>, \<open>userinit\<close> and
  \<open>forkret\<close> are in \<open>Lifecycle\<close>, since they use the file system.

  A process is named by its index in the table. Trap frames and kernel contexts live on
  kernel stacks; the model keeps them in two typed heaps, \<open>tfs\<close> and \<open>contexts\<close>, indexed by
  address. Using the null pointer that \<open>myproc\<close> returns on a CPU without a process is the
  stop \<open>Fault 0\<close>.

  A context switch hands the CPU to other threads and comes back later. What they do in
  between is the argument \<open>swtch\<close> of \<open>sched\<close> and of everything that can reach it: a
  function from the state at the switch to the state at the return.
\<close>

unbundle bit_operations_syntax

section \<open>Data\<close>

datatype procstate = UNUSED | EMBRYO | SLEEPING | RUNNABLE | RUNNING | ZOMBIE

datatype disposition = DFL | IGN | USERDEF

record handlerinfo =
  h_disposition :: disposition
  h_handler :: u32

record trapframe =
  tf_edi :: u32
  tf_esi :: u32
  tf_ebp :: u32
  tf_oesp :: u32
  tf_ebx :: u32
  tf_edx :: u32
  tf_ecx :: u32
  tf_eax :: u32
  tf_gs :: u16
  tf_fs :: u16
  tf_es :: u16
  tf_ds :: u16
  tf_trapno :: u32
  tf_err :: u32
  tf_eip :: u32
  tf_cs :: u16
  tf_eflags :: u32
  tf_esp :: u32
  tf_ss :: u16

record kcontext =
  x_edi :: u32
  x_esi :: u32
  x_ebx :: u32
  x_ebp :: u32
  x_eip :: u32

record proc =
  p_sz :: u32
  p_pgdir :: u32
  p_kstack :: u32
  p_state :: procstate
  p_pid :: int
  p_parent :: "nat option"
  p_tf :: u32
  p_context :: u32
  p_chan :: chan
  p_killed :: bool
  p_ofile :: "nat option list"
  p_cwd :: "nat option"
  p_name :: "u8 list"
  p_sigpending :: u32
  p_sigblocked :: u32
  p_userdefed :: u32
  p_allinfo :: "handlerinfo list"
  p_justwoken :: bool
  p_addr_sigreturn :: u32

text \<open>
  \<open>forkret_addr\<close>, \<open>trapret_addr\<close> and \<open>ts_addr\<close> are addresses the linker chooses.
\<close>

record proc_state = vm_state +
  procs :: "proc list"
  nextpid :: int
  initproc :: "nat option"
  ticks :: u32
  tfs :: "u32 \<Rightarrow> trapframe"
  contexts :: "u32 \<Rightarrow> kcontext"
  forkret_addr :: u32
  trapret_addr :: u32
  ts_addr :: "nat \<Rightarrow> u32"

abbreviation (input) NPROC :: nat where "NPROC \<equiv> 64"
abbreviation (input) KSTACKSIZE :: u32 where "KSTACKSIZE \<equiv> 4096"
abbreviation (input) NUMSIG :: nat where "NUMSIG \<equiv> 32"

definition set_proc ::
    "nat \<Rightarrow> (proc \<Rightarrow> proc) \<Rightarrow> 'a proc_state_scheme \<Rightarrow> 'a proc_state_scheme" where
  "set_proc i f s = s\<lparr>procs := (procs s)[i := f (procs s ! i)]\<rparr>"

definition set_tf ::
    "u32 \<Rightarrow> (trapframe \<Rightarrow> trapframe) \<Rightarrow> 'a proc_state_scheme \<Rightarrow> 'a proc_state_scheme" where
  "set_tf a f s = s\<lparr>tfs := (tfs s)(a := f (tfs s a))\<rparr>"

text \<open>\<open>with_proc\<close> runs \<open>f\<close> on \<open>myproc()\<close>, which the code dereferences unchecked.\<close>

definition with_proc ::
    "(nat \<Rightarrow> 'a machine_scheme \<Rightarrow> 'b outcome) \<Rightarrow> 'a machine_scheme \<Rightarrow> 'b outcome" where
  "with_proc f s =
     and_then (myproc s) (\<lambda>(p, s). case p of None \<Rightarrow> Inl (Fault 0) | Some i \<Rightarrow> f i s)"

lemma proc_fields [simp]:
  "procs (pushed s) = procs s" "nextpid (pushed s) = nextpid s" "initproc (pushed s) = initproc s"
  "ticks (pushed s) = ticks s" "tfs (pushed s) = tfs s" "contexts (pushed s) = contexts s"
  "forkret_addr (pushed s) = forkret_addr s" "trapret_addr (pushed s) = trapret_addr s"
  "ts_addr (pushed s) = ts_addr s" "procs (popped s) = procs s" "nextpid (popped s) = nextpid s"
  "initproc (popped s) = initproc s" "ticks (popped s) = ticks s" "tfs (popped s) = tfs s"
  "contexts (popped s) = contexts s" "forkret_addr (popped s) = forkret_addr s"
  "trapret_addr (popped s) = trapret_addr s" "ts_addr (popped s) = ts_addr s"
  "procs (balanced s) = procs s" "nextpid (balanced s) = nextpid s"
  "initproc (balanced s) = initproc s" "ticks (balanced s) = ticks s" "tfs (balanced s) = tfs s"
  "contexts (balanced s) = contexts s" "forkret_addr (balanced s) = forkret_addr s"
  "trapret_addr (balanced s) = trapret_addr s" "ts_addr (balanced s) = ts_addr s"
  "procs (set_lock l f s) = procs s" "nextpid (set_lock l f s) = nextpid s"
  "initproc (set_lock l f s) = initproc s" "ticks (set_lock l f s) = ticks s"
  "tfs (set_lock l f s) = tfs s" "contexts (set_lock l f s) = contexts s"
  "forkret_addr (set_lock l f s) = forkret_addr s" "trapret_addr (set_lock l f s) = trapret_addr s"
  "ts_addr (set_lock l f s) = ts_addr s" "procs (enter l s) = procs s"
  "nextpid (enter l s) = nextpid s" "initproc (enter l s) = initproc s"
  "ticks (enter l s) = ticks s" "tfs (enter l s) = tfs s" "contexts (enter l s) = contexts s"
  "forkret_addr (enter l s) = forkret_addr s" "trapret_addr (enter l s) = trapret_addr s"
  "ts_addr (enter l s) = ts_addr s" "procs (leave l s) = procs s" "nextpid (leave l s) = nextpid s"
  "initproc (leave l s) = initproc s" "ticks (leave l s) = ticks s" "tfs (leave l s) = tfs s"
  "contexts (leave l s) = contexts s" "forkret_addr (leave l s) = forkret_addr s"
  "trapret_addr (leave l s) = trapret_addr s" "ts_addr (leave l s) = ts_addr s"
  by (simp_all add: enter_def leave_def balanced_def popped_def pushed_def set_lock_def)

lemma proc_updates [simp]:
  "here (s\<lparr>procs := v0\<rparr>) = here s" "self (s\<lparr>procs := v0\<rparr>) = self s"
  "self_cpu (s\<lparr>procs := v0\<rparr>) = self_cpu s"
  "running (s\<lparr>procs := v0\<rparr>) = running s"
  "cpu_ok (s\<lparr>procs := v0\<rparr>) = cpu_ok s"
  "lock_free l (s\<lparr>procs := v0\<rparr>) = lock_free l s"
  "lock_held l (s\<lparr>procs := v0\<rparr>) = lock_held l s"
  "lock_mine l (s\<lparr>procs := v0\<rparr>) = lock_mine l s"
  "here (s\<lparr>nextpid := v1\<rparr>) = here s" "self (s\<lparr>nextpid := v1\<rparr>) = self s"
  "self_cpu (s\<lparr>nextpid := v1\<rparr>) = self_cpu s"
  "running (s\<lparr>nextpid := v1\<rparr>) = running s"
  "cpu_ok (s\<lparr>nextpid := v1\<rparr>) = cpu_ok s"
  "lock_free l (s\<lparr>nextpid := v1\<rparr>) = lock_free l s"
  "lock_held l (s\<lparr>nextpid := v1\<rparr>) = lock_held l s"
  "lock_mine l (s\<lparr>nextpid := v1\<rparr>) = lock_mine l s"
  "here (s\<lparr>initproc := v2\<rparr>) = here s"
  "self (s\<lparr>initproc := v2\<rparr>) = self s"
  "self_cpu (s\<lparr>initproc := v2\<rparr>) = self_cpu s"
  "running (s\<lparr>initproc := v2\<rparr>) = running s"
  "cpu_ok (s\<lparr>initproc := v2\<rparr>) = cpu_ok s"
  "lock_free l (s\<lparr>initproc := v2\<rparr>) = lock_free l s"
  "lock_held l (s\<lparr>initproc := v2\<rparr>) = lock_held l s"
  "lock_mine l (s\<lparr>initproc := v2\<rparr>) = lock_mine l s"
  "here (s\<lparr>ticks := v3\<rparr>) = here s" "self (s\<lparr>ticks := v3\<rparr>) = self s"
  "self_cpu (s\<lparr>ticks := v3\<rparr>) = self_cpu s"
  "running (s\<lparr>ticks := v3\<rparr>) = running s"
  "cpu_ok (s\<lparr>ticks := v3\<rparr>) = cpu_ok s"
  "lock_free l (s\<lparr>ticks := v3\<rparr>) = lock_free l s"
  "lock_held l (s\<lparr>ticks := v3\<rparr>) = lock_held l s"
  "lock_mine l (s\<lparr>ticks := v3\<rparr>) = lock_mine l s"
  "here (s\<lparr>tfs := v4\<rparr>) = here s" "self (s\<lparr>tfs := v4\<rparr>) = self s"
  "self_cpu (s\<lparr>tfs := v4\<rparr>) = self_cpu s"
  "running (s\<lparr>tfs := v4\<rparr>) = running s"
  "cpu_ok (s\<lparr>tfs := v4\<rparr>) = cpu_ok s"
  "lock_free l (s\<lparr>tfs := v4\<rparr>) = lock_free l s"
  "lock_held l (s\<lparr>tfs := v4\<rparr>) = lock_held l s"
  "lock_mine l (s\<lparr>tfs := v4\<rparr>) = lock_mine l s"
  "here (s\<lparr>contexts := v5\<rparr>) = here s"
  "self (s\<lparr>contexts := v5\<rparr>) = self s"
  "self_cpu (s\<lparr>contexts := v5\<rparr>) = self_cpu s"
  "running (s\<lparr>contexts := v5\<rparr>) = running s"
  "cpu_ok (s\<lparr>contexts := v5\<rparr>) = cpu_ok s"
  "lock_free l (s\<lparr>contexts := v5\<rparr>) = lock_free l s"
  "lock_held l (s\<lparr>contexts := v5\<rparr>) = lock_held l s"
  "lock_mine l (s\<lparr>contexts := v5\<rparr>) = lock_mine l s"
  by (simp_all add: here_def self_def self_cpu_def running_def cpu_ok_def lock_free_def lock_held_def
      lock_mine_def)

lemma proc_commute [simp]:
  "pushed (s\<lparr>procs := v0\<rparr>) = (pushed s)\<lparr>procs := v0\<rparr>"
  "popped (s\<lparr>procs := v0\<rparr>) = (popped s)\<lparr>procs := v0\<rparr>"
  "balanced (s\<lparr>procs := v0\<rparr>) = (balanced s)\<lparr>procs := v0\<rparr>"
  "set_lock l f (s\<lparr>procs := v0\<rparr>) = (set_lock l f s)\<lparr>procs := v0\<rparr>"
  "pushed (s\<lparr>nextpid := v1\<rparr>) = (pushed s)\<lparr>nextpid := v1\<rparr>"
  "popped (s\<lparr>nextpid := v1\<rparr>) = (popped s)\<lparr>nextpid := v1\<rparr>"
  "balanced (s\<lparr>nextpid := v1\<rparr>) = (balanced s)\<lparr>nextpid := v1\<rparr>"
  "set_lock l f (s\<lparr>nextpid := v1\<rparr>) = (set_lock l f s)\<lparr>nextpid := v1\<rparr>"
  "pushed (s\<lparr>initproc := v2\<rparr>) = (pushed s)\<lparr>initproc := v2\<rparr>"
  "popped (s\<lparr>initproc := v2\<rparr>) = (popped s)\<lparr>initproc := v2\<rparr>"
  "balanced (s\<lparr>initproc := v2\<rparr>) = (balanced s)\<lparr>initproc := v2\<rparr>"
  "set_lock l f (s\<lparr>initproc := v2\<rparr>) = (set_lock l f s)\<lparr>initproc := v2\<rparr>"
  "pushed (s\<lparr>ticks := v3\<rparr>) = (pushed s)\<lparr>ticks := v3\<rparr>"
  "popped (s\<lparr>ticks := v3\<rparr>) = (popped s)\<lparr>ticks := v3\<rparr>"
  "balanced (s\<lparr>ticks := v3\<rparr>) = (balanced s)\<lparr>ticks := v3\<rparr>"
  "set_lock l f (s\<lparr>ticks := v3\<rparr>) = (set_lock l f s)\<lparr>ticks := v3\<rparr>"
  "pushed (s\<lparr>tfs := v4\<rparr>) = (pushed s)\<lparr>tfs := v4\<rparr>"
  "popped (s\<lparr>tfs := v4\<rparr>) = (popped s)\<lparr>tfs := v4\<rparr>"
  "balanced (s\<lparr>tfs := v4\<rparr>) = (balanced s)\<lparr>tfs := v4\<rparr>"
  "set_lock l f (s\<lparr>tfs := v4\<rparr>) = (set_lock l f s)\<lparr>tfs := v4\<rparr>"
  "pushed (s\<lparr>contexts := v5\<rparr>) = (pushed s)\<lparr>contexts := v5\<rparr>"
  "popped (s\<lparr>contexts := v5\<rparr>) = (popped s)\<lparr>contexts := v5\<rparr>"
  "balanced (s\<lparr>contexts := v5\<rparr>) = (balanced s)\<lparr>contexts := v5\<rparr>"
  "set_lock l f (s\<lparr>contexts := v5\<rparr>) = (set_lock l f s)\<lparr>contexts := v5\<rparr>"
  by (simp_all add: pushed_def popped_def balanced_def set_lock_def)

lemma proc_commute_lock [simp]:
  "enter l (s\<lparr>procs := v0\<rparr>) = (enter l s)\<lparr>procs := v0\<rparr>"
  "leave l (s\<lparr>procs := v0\<rparr>) = (leave l s)\<lparr>procs := v0\<rparr>"
  "enter l (s\<lparr>nextpid := v1\<rparr>) = (enter l s)\<lparr>nextpid := v1\<rparr>"
  "leave l (s\<lparr>nextpid := v1\<rparr>) = (leave l s)\<lparr>nextpid := v1\<rparr>"
  "enter l (s\<lparr>initproc := v2\<rparr>) = (enter l s)\<lparr>initproc := v2\<rparr>"
  "leave l (s\<lparr>initproc := v2\<rparr>) = (leave l s)\<lparr>initproc := v2\<rparr>"
  "enter l (s\<lparr>ticks := v3\<rparr>) = (enter l s)\<lparr>ticks := v3\<rparr>"
  "leave l (s\<lparr>ticks := v3\<rparr>) = (leave l s)\<lparr>ticks := v3\<rparr>"
  "enter l (s\<lparr>tfs := v4\<rparr>) = (enter l s)\<lparr>tfs := v4\<rparr>"
  "leave l (s\<lparr>tfs := v4\<rparr>) = (leave l s)\<lparr>tfs := v4\<rparr>"
  "enter l (s\<lparr>contexts := v5\<rparr>) = (enter l s)\<lparr>contexts := v5\<rparr>"
  "leave l (s\<lparr>contexts := v5\<rparr>) = (leave l s)\<lparr>contexts := v5\<rparr>"
  by (simp_all add: enter_def leave_def)

section \<open>The process table\<close>

definition pinit :: "'a machine_scheme \<Rightarrow> 'a machine_scheme" where
  "pinit s = initlock L_ptable ''ptable'' s"

definition zero_context :: kcontext where
  "zero_context = \<lparr>x_edi = 0, x_esi = 0, x_ebx = 0, x_ebp = 0, x_eip = 0\<rparr>"

definition allocproc :: "'a proc_state_scheme \<Rightarrow> (nat option \<times> 'a proc_state_scheme) outcome" where
  "allocproc s =
     and_then (acquire L_ptable s) (\<lambda>s.
       case scan (\<lambda>p. p_state p = UNUSED) (procs s) of
         None \<Rightarrow> and_then (release L_ptable s) (\<lambda>s. Inr (None, s))
       | Some i \<Rightarrow>
           let s = set_proc i (\<lambda>p. p\<lparr>p_state := EMBRYO\<rparr>) s;
               s = set_proc i (\<lambda>p. p\<lparr>p_pid := nextpid s\<rparr>) s;
               s = s\<lparr>nextpid := nextpid s + 1\<rparr>
           in and_then (release L_ptable s) (\<lambda>s.
              and_then (kalloc s) (\<lambda>(k, s).
                let s = set_proc i (\<lambda>p. p\<lparr>p_kstack := k\<rparr>) s in
                if k = 0
                then let s = set_proc i (\<lambda>p. p\<lparr>p_state := UNUSED\<rparr>) s in Inr (None, s)
                else
                  let sp = k + KSTACKSIZE;
                      sp = sp - 76;
                      s = set_proc i (\<lambda>p. p\<lparr>p_tf := sp\<rparr>) s;
                      s = set_proc i (\<lambda>p. p\<lparr>p_sigpending := 0\<rparr>) s;
                      s = set_proc i (\<lambda>p. p\<lparr>p_justwoken := False\<rparr>) s;
                      sp = sp - 4;
                      s = s\<lparr>mem := store32 (mem s) sp (trapret_addr s)\<rparr>;
                      sp = sp - 20;
                      s = set_proc i (\<lambda>p. p\<lparr>p_context := sp\<rparr>) s;
                      s = s\<lparr>contexts := (contexts s)(sp := zero_context\<lparr>x_eip := forkret_addr s\<rparr>)\<rparr>
                  in Inr (Some i, s))))"

definition switchuvm :: "nat \<Rightarrow> 'a proc_state_scheme \<Rightarrow> ('a proc_state_scheme) outcome" where
  "switchuvm i s =
     (if p_kstack (procs s ! i) = 0 then Inl (Panic ''switchuvm: no kstack'')
      else if p_pgdir (procs s ! i) = 0 then Inl (Panic ''switchuvm: no pgdir'')
      else and_then (pushcli s) (\<lambda>s.
           and_then (mycpu s) (\<lambda>c.
             let s = set_cpu c (\<lambda>k. k\<lparr>c_gdt := (c_gdt k)(5 := SEG16 9 (ts_addr s c) 103 0)\<rparr>) s;
                 s = set_cpu c (\<lambda>k. k\<lparr>c_gdt := (c_gdt k)(5 := (c_gdt k 5)\<lparr>sd_s := 0\<rparr>)\<rparr>) s;
                 s = set_cpu c (\<lambda>k. k\<lparr>c_ss0 := 0x10\<rparr>) s;
                 s = set_cpu c (\<lambda>k. k\<lparr>c_esp0 := p_kstack (procs s ! i) + KSTACKSIZE\<rparr>) s;
                 s = set_cpu c (\<lambda>k. k\<lparr>c_iomb := 0xFFFF\<rparr>) s;
                 s = set_cpu c (\<lambda>k. k\<lparr>c_tr := 0x28\<rparr>) s;
                 s = set_cpu c (\<lambda>k. k\<lparr>c_cr3 := V2P (p_pgdir (procs s ! i))\<rparr>) s
             in popcli s)))"

definition growproc :: "u32 \<Rightarrow> 'a proc_state_scheme \<Rightarrow> (int \<times> 'a proc_state_scheme) outcome" where
  "growproc n s =
     with_proc (\<lambda>i s.
       let sz = p_sz (procs s ! i); pgdir = p_pgdir (procs s ! i) in
       and_then
         (if 0 <s n then allocuvm pgdir sz (sz + n) s
          else if n <s 0 then deallocuvm pgdir sz (sz + n) s
          else Inr (sz, s))
         (\<lambda>(newsz, s).
            if n \<noteq> 0 \<and> newsz = 0 then Inr (-1, s)
            else let s = set_proc i (\<lambda>p. p\<lparr>p_sz := newsz\<rparr>) s
                 in and_then (switchuvm i s) (\<lambda>s. Inr (0, s)))) s"

section \<open>Switching, sleeping and waking\<close>

definition sched ::
    "('a proc_state_scheme \<Rightarrow> 'a proc_state_scheme) \<Rightarrow> 'a proc_state_scheme \<Rightarrow>
       ('a proc_state_scheme) outcome" where
  "sched swtch s =
     and_then (myproc s) (\<lambda>(p, s).
     and_then (holding L_ptable s) (\<lambda>(h, s).
       if \<not> h then Inl (Panic ''sched ptable.lock'')
       else and_then (mycpu s) (\<lambda>c.
         if c_ncli (cpus s ! c) \<noteq> 1 then Inl (Panic ''sched locks'')
         else case p of None \<Rightarrow> Inl (Fault 0) | Some i \<Rightarrow>
           if p_state (procs s ! i) = RUNNING then Inl (Panic ''sched running'')
           else if ifl s then Inl (Panic ''sched interruptible'')
           else let intena = c_intena (cpus s ! c); s = swtch s in
             and_then (mycpu s) (\<lambda>c.
               Inr (set_cpu c (\<lambda>k. k\<lparr>c_intena := intena\<rparr>) s)))))"

definition yield ::
    "('a proc_state_scheme \<Rightarrow> 'a proc_state_scheme) \<Rightarrow> 'a proc_state_scheme \<Rightarrow>
       ('a proc_state_scheme) outcome" where
  "yield swtch s =
     and_then (acquire L_ptable s) (\<lambda>s.
     with_proc (\<lambda>i s.
       let s = set_proc i (\<lambda>p. p\<lparr>p_state := RUNNABLE\<rparr>) s in
       and_then (sched swtch s) (release L_ptable)) s)"

definition sleep ::
    "('a proc_state_scheme \<Rightarrow> 'a proc_state_scheme) \<Rightarrow> chan \<Rightarrow> lockid \<Rightarrow> 'a proc_state_scheme \<Rightarrow>
       ('a proc_state_scheme) outcome" where
  "sleep swtch ch lk s =
     and_then (myproc s) (\<lambda>(p, s).
       case p of None \<Rightarrow> Inl (Panic ''sleep'') | Some i \<Rightarrow>
         and_then
           (if lk \<noteq> L_ptable
            then and_then (acquire L_ptable s) (release lk)
            else Inr s) (\<lambda>s.
         let s = set_proc i (\<lambda>p. p\<lparr>p_chan := ch\<rparr>) s;
             s = set_proc i (\<lambda>p. p\<lparr>p_state := SLEEPING\<rparr>) s
         in and_then (sched swtch s) (\<lambda>s.
           let s = set_proc i (\<lambda>p. p\<lparr>p_chan := Ch_null\<rparr>) s in
           if lk \<noteq> L_ptable
           then and_then (release L_ptable s) (acquire lk)
           else Inr s)))"

definition wake_proc :: "chan \<Rightarrow> proc \<Rightarrow> proc" where
  "wake_proc ch p =
     (if p_state p = SLEEPING \<and> p_chan p = ch
      then p\<lparr>p_state := RUNNABLE, p_justwoken := True\<rparr> else p)"

definition wakeup1 :: "chan \<Rightarrow> 'a proc_state_scheme \<Rightarrow> 'a proc_state_scheme" where
  "wakeup1 ch s = s\<lparr>procs := map (wake_proc ch) (procs s)\<rparr>"

definition wakeup :: "chan \<Rightarrow> 'a proc_state_scheme \<Rightarrow> ('a proc_state_scheme) outcome" where
  "wakeup ch s =
     and_then (acquire L_ptable s) (\<lambda>s.
       let s = wakeup1 ch s in release L_ptable s)"

definition kill :: "int \<Rightarrow> 'a proc_state_scheme \<Rightarrow> (int \<times> 'a proc_state_scheme) outcome" where
  "kill pid s =
     and_then (acquire L_ptable s) (\<lambda>s.
       case scan (\<lambda>p. p_pid p = pid) (procs s) of
         Some i \<Rightarrow>
           let s = set_proc i (\<lambda>p. p\<lparr>p_killed := True\<rparr>) s;
               s = (if p_state (procs s ! i) = SLEEPING
                    then set_proc i (\<lambda>p. p\<lparr>p_state := RUNNABLE\<rparr>) s else s)
           in and_then (release L_ptable s) (\<lambda>s. Inr (0, s))
       | None \<Rightarrow> and_then (release L_ptable s) (\<lambda>s. Inr (-1, s)))"

text \<open>
  \<open>wait\<close>: the scan of the table, which frees the first exited child it meets, and the loop
  around it, whose fuel bounds the number of times the process goes to sleep.
\<close>

definition reap :: "nat \<Rightarrow> 'a proc_state_scheme \<Rightarrow> (int \<times> 'a proc_state_scheme) outcome" where
  "reap i s =
     (let pid = p_pid (procs s ! i) in
      and_then (kfree (p_kstack (procs s ! i)) s) (\<lambda>s.
        let s = set_proc i (\<lambda>p. p\<lparr>p_kstack := 0\<rparr>) s in
        and_then (freevm (p_pgdir (procs s ! i)) s) (\<lambda>s.
          let s = set_proc i (\<lambda>p. p\<lparr>p_pid := 0\<rparr>) s;
              s = set_proc i (\<lambda>p. p\<lparr>p_parent := None\<rparr>) s;
              s = set_proc i (\<lambda>p. p\<lparr>p_name := (p_name p)[0 := 0]\<rparr>) s;
              s = set_proc i (\<lambda>p. p\<lparr>p_killed := False\<rparr>) s;
              s = set_proc i (\<lambda>p. p\<lparr>p_justwoken := False\<rparr>) s;
              s = set_proc i (\<lambda>p. p\<lparr>p_sigblocked := 0\<rparr>) s;
              s = set_proc i (\<lambda>p. p\<lparr>p_sigpending := 0\<rparr>) s;
              s = set_proc i (\<lambda>p. p\<lparr>p_userdefed := 0\<rparr>) s;
              s = set_proc i (\<lambda>p. p\<lparr>p_state := UNUSED\<rparr>) s
          in and_then (release L_ptable s) (\<lambda>s. Inr (pid, s)))))"

definition zombie_child :: "nat \<Rightarrow> proc \<Rightarrow> bool" where
  "zombie_child me p \<longleftrightarrow> p_parent p = Some me \<and> p_state p = ZOMBIE"

primrec wait_loop ::
    "nat \<Rightarrow> ('a proc_state_scheme \<Rightarrow> 'a proc_state_scheme) \<Rightarrow> nat \<Rightarrow> 'a proc_state_scheme \<Rightarrow>
       (int \<times> 'a proc_state_scheme) outcome" where
  "wait_loop 0 swtch me s = Inl OutOfFuel"
| "wait_loop (Suc n) swtch me s =
     (case scan (zombie_child me) (procs s) of
        Some i \<Rightarrow> reap i s
      | None \<Rightarrow>
          let havekids = (\<exists>p \<in> set (procs s). p_parent p = Some me) in
          if \<not> havekids \<or> p_killed (procs s ! me)
          then and_then (release L_ptable s) (\<lambda>s. Inr (-1, s))
          else and_then (sleep swtch (Ch_proc me) L_ptable s) (wait_loop n swtch me))"

definition wait ::
    "nat \<Rightarrow> ('a proc_state_scheme \<Rightarrow> 'a proc_state_scheme) \<Rightarrow> 'a proc_state_scheme \<Rightarrow>
       (int \<times> 'a proc_state_scheme) outcome" where
  "wait fuel swtch s =
     with_proc (\<lambda>me s. and_then (acquire L_ptable s) (wait_loop fuel swtch me)) s"

text \<open>
  One round of the scheduler's endless loop. \<open>run i\<close> stands for the switch to process \<open>i\<close>:
  the state in which that process switches back.
\<close>

definition dispatch ::
    "(nat \<Rightarrow> 'a proc_state_scheme \<Rightarrow> 'a proc_state_scheme) \<Rightarrow> nat \<Rightarrow> nat \<Rightarrow> 'a proc_state_scheme \<Rightarrow>
       ('a proc_state_scheme) outcome" where
  "dispatch run c i s =
     (if p_state (procs s ! i) \<noteq> RUNNABLE then Inr s
      else let s = set_cpu c (\<lambda>k. k\<lparr>c_proc := Some i\<rparr>) s in
        and_then (switchuvm i s) (\<lambda>s.
          let s = set_proc i (\<lambda>p. p\<lparr>p_state := RUNNING\<rparr>) s;
              s = run i s;
              s = switchkvm s
          in Inr (set_cpu c (\<lambda>k. k\<lparr>c_proc := None\<rparr>) s)))"

definition scheduler_round ::
    "(nat \<Rightarrow> 'a proc_state_scheme \<Rightarrow> 'a proc_state_scheme) \<Rightarrow> nat \<Rightarrow> 'a proc_state_scheme \<Rightarrow>
       ('a proc_state_scheme) outcome" where
  "scheduler_round run c s =
     (let s = s\<lparr>ifl := True\<rparr> in
      and_then (acquire L_ptable s) (\<lambda>s.
      and_then (for_each (dispatch run c) [0..<length (procs s)] s) (\<lambda>s.
        release L_ptable s)))"

definition scheduler ::
    "nat \<Rightarrow> (nat \<Rightarrow> 'a proc_state_scheme \<Rightarrow> 'a proc_state_scheme) \<Rightarrow> 'a proc_state_scheme \<Rightarrow>
       ('a proc_state_scheme) outcome" where
  "scheduler rounds run s =
     and_then (mycpu s) (\<lambda>c.
       let s = set_cpu c (\<lambda>k. k\<lparr>c_proc := None\<rparr>) s
       in iterate rounds (scheduler_round run c) s)"

section \<open>Listing the processes\<close>

primrec callerpcs :: "nat \<Rightarrow> memory \<Rightarrow> u32 \<Rightarrow> u32 list" where
  "callerpcs 0 m ebp = []"
| "callerpcs (Suc n) m ebp =
     (if ebp = 0 \<or> ebp < KERNBASE \<or> ebp = 0xffffffff then replicate (Suc n) 0
      else load32 m (ebp + 4) # callerpcs n m (load32 m ebp))"

definition getcallerpcs :: "memory \<Rightarrow> u32 \<Rightarrow> u32 list" where
  "getcallerpcs m v = callerpcs 10 m (v - 8)"

definition state_name :: "procstate \<Rightarrow> string" where
  "state_name st =
     (case st of UNUSED \<Rightarrow> ''unused'' | EMBRYO \<Rightarrow> ''embryo'' | SLEEPING \<Rightarrow> ''sleep ''
      | RUNNABLE \<Rightarrow> ''runble'' | RUNNING \<Rightarrow> ''run   '' | ZOMBIE \<Rightarrow> ''zombie'')"

definition dump_proc :: "proc \<Rightarrow> 'a proc_state_scheme \<Rightarrow> 'a proc_state_scheme" where
  "dump_proc p s =
     (let s = cprintf ''%d %s %s''
                [A_int (p_pid p), A_name (state_name (p_state p)), A_str (p_name p)] s;
          pcs = (if p_state p = SLEEPING
                 then takeWhile (\<lambda>pc. pc \<noteq> 0)
                        (getcallerpcs (mem s) (x_ebp (contexts s (p_context p)) + 8))
                 else [])
      in fold (\<lambda>pc. cprintf '' %p'' [A_hex pc]) pcs s)"

definition procdump :: "'a proc_state_scheme \<Rightarrow> 'a proc_state_scheme" where
  "procdump s =
     fold (\<lambda>p s. if p_state p = UNUSED then s
                 else cprintf [CHR 0x0A] [] (dump_proc p s)) (procs s) s"

section \<open>Effect of the table operations\<close>

lemma set_proc_fields [simp]:
  "procs (set_proc i f s) = (procs s)[i := f (procs s ! i)]" "nextpid (set_proc i f s) = nextpid s"
  "initproc (set_proc i f s) = initproc s" "ticks (set_proc i f s) = ticks s"
  "tfs (set_proc i f s) = tfs s" "contexts (set_proc i f s) = contexts s"
  "trapret_addr (set_proc i f s) = trapret_addr s" "forkret_addr (set_proc i f s) = forkret_addr s"
  "mem (set_proc i f s) = mem s" "kend (set_proc i f s) = kend s"
  "use_lock (set_proc i f s) = use_lock s" "freelist (set_proc i f s) = freelist s"
  "locks (set_proc i f s) = locks s" "ifl (set_proc i f s) = ifl s"
  "printed (set_proc i f s) = printed s" "cpus (set_proc i f s) = cpus s"
  "kpgdir (set_proc i f s) = kpgdir s" "kdata (set_proc i f s) = kdata s"
  by (simp_all add: set_proc_def)

lemma set_proc_view [simp]:
  "here (set_proc i f s) = here s" "self (set_proc i f s) = self s"
  "self_cpu (set_proc i f s) = self_cpu s" "running (set_proc i f s) = running s"
  "cpu_ok (set_proc i f s) = cpu_ok s" "lock_free l (set_proc i f s) = lock_free l s"
  "lock_held l (set_proc i f s) = lock_held l s" "lock_mine l (set_proc i f s) = lock_mine l s"
  by (simp_all add: set_proc_def)

lemma set_proc_commute [simp]:
  "pushed (set_proc i f s) = set_proc i f (pushed s)"
  "popped (set_proc i f s) = set_proc i f (popped s)"
  "balanced (set_proc i f s) = set_proc i f (balanced s)"
  "enter l (set_proc i f s) = set_proc i f (enter l s)"
  "leave l (set_proc i f s) = set_proc i f (leave l s)"
  by (simp_all add: set_proc_def)

lemma set_proc_twice [simp]:
  "set_proc i f (set_proc i g s) = set_proc i (\<lambda>p. f (g p)) s"
proof (cases "i < length (procs s)")
  case True
  then show ?thesis by (simp add: set_proc_def)
next
  case False
  then show ?thesis by (simp add: set_proc_def list_update_beyond)
qed

text \<open>
  A process runs in the kernel with no lock held: its CPU is in order, the process is the
  one the CPU runs and it is in the table, and the locks the operation takes are free.
\<close>

definition at_ease :: "'a proc_state_scheme \<Rightarrow> bool" where
  "at_ease s \<longleftrightarrow> cpu_ok s \<and> lock_free L_ptable s"

definition on_cpu :: "nat \<Rightarrow> 'a proc_state_scheme \<Rightarrow> bool" where
  "on_cpu i s \<longleftrightarrow> at_ease s \<and> running s = Some i \<and> i < length (procs s)"

lemma on_cpuD:
  assumes "on_cpu i s"
  shows "cpu_ok s" "lock_free L_ptable s" "running s = Some i" "i < length (procs s)" "at_ease s"
    "lk_locked (locks s L_ptable) = 0"
  using assms by (auto simp: on_cpu_def at_ease_def lock_free_def)

lemma with_proc_ok [outcome_simps]:
  "cpu_ok s \<Longrightarrow> running s = Some i \<Longrightarrow> with_proc f s = f i (balanced s)"
  by (simp add: with_proc_def myproc_ok)

lemma with_proc_none: "cpu_ok s \<Longrightarrow> running s = None \<Longrightarrow> with_proc f s = Inl (Fault 0)"
  by (simp add: with_proc_def myproc_ok)

text \<open>A critical section on the process table that updates the table only.\<close>

lemma ptable_section:
  assumes "at_ease s"
  shows "and_then (acquire L_ptable s) (\<lambda>s. release L_ptable (s\<lparr>procs := f (procs s)\<rparr>)) =
           Inr ((balanced s)\<lparr>procs := f (procs s)\<rparr>)"
  using assms ncli_enter_pos [of s L_ptable]
  by (simp add: at_ease_def acquire_ok release_ok lock_free_locked leave_enter)

lemma wakeup_ok:
  assumes "at_ease s"
  shows "wakeup ch s = Inr ((balanced s)\<lparr>procs := map (wake_proc ch) (procs s)\<rparr>)"
  using ptable_section [OF assms, where f = "map (wake_proc ch)"]
  by (simp add: wakeup_def wakeup1_def)

lemma release_enter:
  assumes "cpu_ok s" and "lock_free l s"
  shows "release l (enter l s) = Inr (balanced s)"
  using assms ncli_enter_pos [OF assms(1), of l] by (simp add: release_ok leave_enter)

definition killed_proc :: "proc \<Rightarrow> proc" where
  "killed_proc p =
     p\<lparr>p_killed := True, p_state := (if p_state p = SLEEPING then RUNNABLE else p_state p)\<rparr>"

lemma kill_ok:
  assumes "at_ease s"
  shows "kill pid s =
     (case scan (\<lambda>p. p_pid p = pid) (procs s) of
        Some i \<Rightarrow> Inr (0, set_proc i killed_proc (balanced s))
      | None \<Rightarrow> Inr (-1, balanced s))"
proof -
  have ok: "cpu_ok s" "lock_free L_ptable s" using assms by (simp_all add: at_ease_def)
  note rel = ncli_enter_pos [OF ok(1), of L_ptable]
  show ?thesis
  proof (cases "scan (\<lambda>p. p_pid p = pid) (procs s)")
    case None
    then show ?thesis
      using ok rel by (simp add: kill_def acquire_ok lock_free_locked release_ok leave_enter)
  next
    case (Some i)
    then have "i < length (procs s)" by (rule scan_SomeD)
    moreover have "killed_proc p = (if p_state p = SLEEPING then p\<lparr>p_killed := True, p_state := RUNNABLE\<rparr>
        else p\<lparr>p_killed := True\<rparr>)" for p
      by (simp add: killed_proc_def)
    ultimately show ?thesis
      using Some ok rel
      by (simp add: kill_def acquire_ok lock_free_locked release_ok leave_enter Let_def)
        (simp add: set_proc_def)
  qed
qed

subsection \<open>Switching and sleeping\<close>

text \<open>
  \<open>inside i s\<close>: the kernel thread of process \<open>i\<close> runs and holds the process-table lock and
  nothing else. This is what \<open>sched\<close> demands, and what the scheduler establishes again
  before it returns to the thread.
\<close>

definition inside :: "nat \<Rightarrow> 'a proc_state_scheme \<Rightarrow> bool" where
  "inside i s \<longleftrightarrow> cpu_ok s \<and> lock_mine L_ptable s \<and> c_ncli (self_cpu s) = 1 \<and>
     running s = Some i \<and> i < length (procs s)"

definition reinstate :: "bool \<Rightarrow> 'a machine_scheme \<Rightarrow> 'a machine_scheme" where
  "reinstate b s = set_cpu (self s) (\<lambda>k. k\<lparr>c_intena := b\<rparr>) s"

lemma insideD:
  assumes "inside i s"
  shows "cpu_ok s" "lock_held L_ptable s" "c_ncli (self_cpu s) = 1" "running s = Some i"
    "i < length (procs s)" "\<not> ifl s" "balanced s = s" "lock_mine L_ptable s"
proof -
  show a: "cpu_ok s" "lock_held L_ptable s" "c_ncli (self_cpu s) = 1" "running s = Some i"
    "i < length (procs s)" "lock_mine L_ptable s"
    using assms by (auto simp: inside_def intro: lock_mine_held)
  show "\<not> ifl s" "balanced s = s" using a by (auto simp: cpu_ok_def intro: balanced_deep)
qed

lemma inside_set_proc [simp]: "inside i (set_proc j f s) = inside i s"
  by (simp add: inside_def)

lemma reinstate_view [simp]:
  "here (reinstate b s) = here s" "self (reinstate b s) = self s" "locks (reinstate b s) = locks s"
  "ifl (reinstate b s) = ifl s" "printed (reinstate b s) = printed s"
  by (simp_all add: reinstate_def set_cpu_def here_def self_def)

lemma reinstate_fields [simp]:
  "procs (reinstate b s) = procs s" "tfs (reinstate b s) = tfs s" "mem (reinstate b s) = mem s"
  "contexts (reinstate b s) = contexts s" "nextpid (reinstate b s) = nextpid s"
  "ticks (reinstate b s) = ticks s" "freelist (reinstate b s) = freelist s"
  "use_lock (reinstate b s) = use_lock s" "initproc (reinstate b s) = initproc s"
  by (simp_all add: reinstate_def set_cpu_def)

lemma reinstate_self_cpu [simp]:
  "cpu_ok s \<Longrightarrow> self_cpu (reinstate b s) = (self_cpu s)\<lparr>c_intena := b\<rparr>"
  using self_less [of s]
  by (simp add: self_cpu_def [of "reinstate b s"])
    (simp add: reinstate_def set_cpu_def self_cpu_def [of s])

lemma inside_reinstate [simp]: "inside i s \<Longrightarrow> inside i (reinstate b s)"
  by (auto simp: inside_def cpu_ok_def running_def lock_mine_def)

lemma sched_ok:
  assumes "inside i s" and "p_state (procs s ! i) \<noteq> RUNNING" and "inside i (swtch s)"
  shows "sched swtch s = Inr (reinstate (c_intena (self_cpu s)) (swtch s))"
  using insideD [OF assms(1)] insideD [OF assms(3)] assms(2)
  by (simp add: sched_def myproc_ok holding_ok mycpu_ok reinstate_def Let_def) (simp add: self_cpu_def)

lemma sched_unlocked:
  "cpu_ok s \<Longrightarrow> \<not> lock_held L_ptable s \<Longrightarrow> sched swtch s = Inl (Panic ''sched ptable.lock'')"
  by (simp add: sched_def myproc_ok holding_ok)

lemma sched_too_deep:
  assumes "cpu_ok s" and "lock_held L_ptable s" and "1 < c_ncli (self_cpu s)"
  shows "sched swtch s = Inl (Panic ''sched locks'')"
proof -
  have "\<not> ifl s" "balanced s = s" using assms by (auto simp: cpu_ok_def intro: balanced_deep)
  then show ?thesis using assms
    by (simp add: sched_def myproc_ok holding_ok mycpu_ok) (simp add: self_cpu_def)
qed

lemma sched_running:
  assumes "inside i s" and "p_state (procs s ! i) = RUNNING"
  shows "sched swtch s = Inl (Panic ''sched running'')"
  using insideD [OF assms(1)] assms(2)
  by (simp add: sched_def myproc_ok holding_ok mycpu_ok) (simp add: self_cpu_def)

lemma release_inside:
  assumes "inside i s"
  shows "release L_ptable s = Inr (leave L_ptable s)" and "on_cpu i (leave L_ptable s)"
proof -
  note D = insideD [OF assms]
  show "release L_ptable s = Inr (leave L_ptable s)" using D by (simp add: release_ok)
  show "on_cpu i (leave L_ptable s)" using D by (simp add: on_cpu_def at_ease_def)
qed

lemma yield_ok:
  assumes "on_cpu i s" and "c_ncli (self_cpu s) = 0"
    and "inside i (swtch (set_proc i (\<lambda>p. p\<lparr>p_state := RUNNABLE\<rparr>) (enter L_ptable s)))"
  shows "yield swtch s =
     Inr (leave L_ptable (reinstate (ifl s)
       (swtch (set_proc i (\<lambda>p. p\<lparr>p_state := RUNNABLE\<rparr>) (enter L_ptable s)))))"
proof -
  note D = on_cpuD [OF assms(1)]
  let ?t = "set_proc i (\<lambda>p. p\<lparr>p_state := RUNNABLE\<rparr>) (enter L_ptable s)"
  have t: "inside i ?t" using D assms(2) by (simp add: inside_def)
  have "sched swtch ?t = Inr (reinstate (c_intena (self_cpu ?t)) (swtch ?t))"
    using t assms(3) D(4) by (intro sched_ok) simp_all
  moreover have "c_intena (self_cpu ?t) = ifl s" using D assms(2) by simp
  ultimately show ?thesis
    using D assms release_inside [OF inside_reinstate [OF assms(3)]]
    by (simp add: yield_def acquire_ok with_proc_ok)
qed

text \<open>The state in which \<open>sleep\<close> gives up the CPU.\<close>

definition asleep :: "nat \<Rightarrow> chan \<Rightarrow> lockid \<Rightarrow> 'a proc_state_scheme \<Rightarrow> 'a proc_state_scheme" where
  "asleep i ch lk s =
     set_proc i (\<lambda>p. p\<lparr>p_chan := ch, p_state := SLEEPING\<rparr>)
       (if lk = L_ptable then s else leave lk (enter L_ptable s))"

lemma inside_asleep:
  assumes "lock_mine lk s" and "cpu_ok s" and "c_ncli (self_cpu s) = 1" and "running s = Some i"
    and "i < length (procs s)" and "lk \<noteq> L_ptable \<Longrightarrow> lock_free L_ptable s"
  shows "inside i (asleep i ch lk s)"
  using assms by (auto simp: asleep_def inside_def)

lemma sleep_ok:
  assumes mine: "lock_mine lk s" and cpu: "cpu_ok s" and one: "c_ncli (self_cpu s) = 1"
    and run: "running s = Some i" and i: "i < length (procs s)"
    and free: "lk \<noteq> L_ptable \<Longrightarrow> lock_free L_ptable s"
    and ret: "inside i (swtch (asleep i ch lk s))"
    and lk_free: "lk \<noteq> L_ptable \<Longrightarrow> lock_free lk (swtch (asleep i ch lk s))"
  shows "sleep swtch ch lk s =
     Inr (let t = set_proc i (\<lambda>p. p\<lparr>p_chan := Ch_null\<rparr>)
                    (reinstate (c_intena (self_cpu s)) (swtch (asleep i ch lk s)))
          in if lk = L_ptable then t else enter lk (leave L_ptable t))"
proof -
  let ?a = "asleep i ch lk s"
  have held: "lock_held lk s" using mine by (rule lock_mine_held)
  have bal: "balanced s = s" using cpu one by (intro balanced_deep) auto
  have ins: "inside i ?a" by (rule inside_asleep) (use assms in auto)
  have pre: "and_then (acquire L_ptable s) (release lk) = Inr (leave lk (enter L_ptable s))"
    if "lk \<noteq> L_ptable"
    using that held cpu one free by (simp add: acquire_ok lock_free_locked release_ok)
  have "p_state (procs ?a ! i) = SLEEPING" using i by (simp add: asleep_def)
  then have sch: "sched swtch ?a = Inr (reinstate (c_intena (self_cpu ?a)) (swtch ?a))"
    using ins ret by (intro sched_ok) simp_all
  have int: "c_intena (self_cpu ?a) = c_intena (self_cpu s)"
    using cpu one by (simp add: asleep_def)
  let ?t = "set_proc i (\<lambda>p. p\<lparr>p_chan := Ch_null\<rparr>) (reinstate (c_intena (self_cpu s)) (swtch ?a))"
  have t: "inside i ?t" using ret by simp
  have "acquire lk (leave L_ptable ?t) = Inr (enter lk (leave L_ptable ?t))" if "lk \<noteq> L_ptable"
    using lk_free [OF that] on_cpuD [OF release_inside(2) [OF t]] that
    by (intro acquire_ok) (simp_all add: lock_free_def)
  then show ?thesis
    using run cpu bal sch int release_inside [OF t] unfolding asleep_def
    by (cases "lk = L_ptable") (simp_all add: sleep_def myproc_ok pre Let_def)
qed

subsection \<open>Allocating a process\<close>

text \<open>The fields \<open>allocproc\<close> sets in the slot it takes, given the pid and the kernel stack.\<close>

definition embryo :: "int \<Rightarrow> u32 \<Rightarrow> proc \<Rightarrow> proc" where
  "embryo pid k p =
     p\<lparr>p_state := EMBRYO, p_pid := pid, p_kstack := k, p_tf := k + 4020,
       p_sigpending := 0, p_justwoken := False, p_context := k + 3996\<rparr>"

definition alloc_ready :: "'a proc_state_scheme \<Rightarrow> bool" where
  "alloc_ready s \<longleftrightarrow> at_ease s \<and> (use_lock s \<longrightarrow> lock_free L_kmem s)"

lemma kmem_pass_proc [simp]:
  "procs (kmem_pass s) = procs s" "nextpid (kmem_pass s) = nextpid s" "tfs (kmem_pass s) = tfs s"
  "contexts (kmem_pass s) = contexts s" "forkret_addr (kmem_pass s) = forkret_addr s"
  "trapret_addr (kmem_pass s) = trapret_addr s" "ticks (kmem_pass s) = ticks s"
  "initproc (kmem_pass s) = initproc s" "kpgdir (kmem_pass s) = kpgdir s" "kdata (kmem_pass s) = kdata s"
  by (simp_all add: kmem_pass_def)

lemma popped_page_proc [simp]:
  "procs (popped_page s) = procs s" "nextpid (popped_page s) = nextpid s" "tfs (popped_page s) = tfs s"
  "contexts (popped_page s) = contexts s" "forkret_addr (popped_page s) = forkret_addr s"
  "trapret_addr (popped_page s) = trapret_addr s" "ticks (popped_page s) = ticks s"
  "initproc (popped_page s) = initproc s" "kpgdir (popped_page s) = kpgdir s"
  "kdata (popped_page s) = kdata s" "running (popped_page s) = running s"
  "locks (popped_page s) = locks s" "ifl (popped_page s) = ifl s" "self_cpu (popped_page s) = self_cpu s"
  by (simp_all add: popped_page_def)

lemma freelist_popped_page [simp]:
  "freelist (popped_page s) = (if freelist s = 0 then 0 else load32 (mem s) (freelist s))"
  by (simp add: popped_page_def)

lemma allocproc_full:
  assumes "at_ease s" and "\<forall>p \<in> set (procs s). p_state p \<noteq> UNUSED"
  shows "allocproc s = Inr (None, balanced s)"
proof -
  have "scan (\<lambda>p. p_state p = UNUSED) (procs s) = None" using assms(2) by (simp add: scan_None)
  then show ?thesis using assms(1)
    by (simp add: allocproc_def at_ease_def acquire_ok lock_free_locked release_enter)
qed

lemma allocproc_prefix:
  assumes "alloc_ready s" and "scan (\<lambda>p. p_state p = UNUSED) (procs s) = Some i"
  defines "t \<equiv> kmem_pass (popped_page (set_proc i (\<lambda>p. p\<lparr>p_state := EMBRYO, p_pid := nextpid s\<rparr>)
                 ((balanced s)\<lparr>nextpid := nextpid s + 1\<rparr>)))"
  shows "allocproc s =
    (if freelist s = 0 then Inr (None, set_proc i (\<lambda>p. p\<lparr>p_kstack := 0, p_state := UNUSED\<rparr>) t)
     else let k = freelist s in
       Inr (Some i, (set_proc i (embryo (nextpid s) k)
          (t\<lparr>mem := store32 (mem s) (k + 4016) (trapret_addr s)\<rparr>))
         \<lparr>contexts := (contexts s)(k + 3996 := zero_context\<lparr>x_eip := forkret_addr s\<rparr>)\<rparr>))"
proof -
  have ok: "cpu_ok s" "lock_free L_ptable s" "use_lock s \<longrightarrow> lock_free L_kmem s"
    using assms(1) by (auto simp: alloc_ready_def at_ease_def)
  let ?u = "set_proc i (\<lambda>p. p\<lparr>p_state := EMBRYO, p_pid := nextpid s\<rparr>)
              ((balanced s)\<lparr>nextpid := nextpid s + 1\<rparr>)"
  have k: "kalloc ?u = Inr (freelist ?u, kmem_pass (popped_page ?u))"
    using ok by (intro kalloc_ok) simp_all
  have u: "(set_proc i (\<lambda>p. p\<lparr>p_state := EMBRYO, p_pid := nextpid s\<rparr>) (balanced s))
      \<lparr>nextpid := nextpid s + 1\<rparr> = ?u"
    by (simp add: set_proc_def)
  have i: "i < length (procs s)" using assms(2) by (rule scan_SomeD)
  show ?thesis
    using ok assms(2) k u ncli_enter_pos [OF ok(1), of L_ptable] i
    by (simp add: allocproc_def acquire_ok lock_free_locked release_ok leave_enter t_def Let_def)
      (simp add: set_proc_def embryo_def add.commute)
qed

lemma allocproc_no_stack:
  assumes "alloc_ready s" and "freelist s = 0"
  shows "\<exists>t. allocproc s = Inr (None, t) \<and>
    (\<forall>j < length (procs s). (p_state (procs t ! j) = UNUSED) = (p_state (procs s ! j) = UNUSED))"
proof (cases "scan (\<lambda>p. p_state p = UNUSED) (procs s)")
  case None
  then show ?thesis using assms(1) allocproc_full [of s] by (simp add: scan_None alloc_ready_def)
next
  case (Some i)
  then show ?thesis
    using allocproc_prefix [OF assms(1) Some] assms(2) scan_SomeD [OF Some]
    by (auto simp: nth_list_update)
qed

lemma allocproc_ok:
  assumes "alloc_ready s" and "scan (\<lambda>p. p_state p = UNUSED) (procs s) = Some i"
    and "freelist s \<noteq> 0"
  shows "\<exists>t. allocproc s = Inr (Some i, t) \<and>
     procs t = (procs s)[i := embryo (nextpid s) (freelist s) (procs s ! i)] \<and>
     nextpid t = nextpid s + 1 \<and>
     x_eip (contexts t (freelist s + 3996)) = forkret_addr s \<and>
     load32 (mem t) (freelist s + 4016) = trapret_addr s \<and>
     tfs t = tfs s \<and> freelist t = load32 (mem s) (freelist s) \<and>
     locks t = locks s \<and> cpu_ok t \<and> running t = running s"
proof -
  have ok: "cpu_ok s" using assms(1) by (simp add: alloc_ready_def at_ease_def)
  have i: "i < length (procs s)" using assms(2) by (rule scan_SomeD)
  show ?thesis
    unfolding allocproc_prefix [OF assms(1,2)] using assms(3) ok i
    by (simp add: Let_def embryo_def)
qed

text \<open>
  Process ids: ids are below \<open>nextpid\<close>, a used slot has one, and no two slots have the
  same. A slot whose allocation failed half-way keeps its id though it is unused.
\<close>

definition used :: "proc \<Rightarrow> bool" where "used p \<longleftrightarrow> p_state p \<noteq> UNUSED"

definition pids_ok :: "proc list \<Rightarrow> int \<Rightarrow> bool" where
  "pids_ok ps n \<longleftrightarrow> 0 < n \<and>
     (\<forall>i < length ps. 0 \<le> p_pid (ps ! i) \<and> p_pid (ps ! i) < n \<and> (used (ps ! i) \<longrightarrow> p_pid (ps ! i) \<noteq> 0)) \<and>
     (\<forall>i < length ps. \<forall>j < length ps. p_pid (ps ! i) = p_pid (ps ! j) \<longrightarrow> p_pid (ps ! i) \<noteq> 0 \<longrightarrow> i = j)"

lemma pids_okD:
  assumes "pids_ok ps n"
  shows "0 < n" "j < length ps \<Longrightarrow> 0 \<le> p_pid (ps ! j)" "j < length ps \<Longrightarrow> p_pid (ps ! j) < n"
    "j < length ps \<Longrightarrow> used (ps ! j) \<Longrightarrow> p_pid (ps ! j) \<noteq> 0"
    "j < length ps \<Longrightarrow> k < length ps \<Longrightarrow> p_pid (ps ! j) = p_pid (ps ! k) \<Longrightarrow> p_pid (ps ! j) \<noteq> 0 \<Longrightarrow> j = k"
  using assms unfolding pids_ok_def by blast+

lemma pids_ok_update:
  assumes ok: "pids_ok ps n" and i: "i < length ps" and n: "n \<le> n'"
    and p: "0 \<le> p_pid p" "p_pid p < n'" "used p \<longrightarrow> p_pid p \<noteq> 0"
    and fresh: "\<And>j. j < length ps \<Longrightarrow> j \<noteq> i \<Longrightarrow> p_pid p \<noteq> 0 \<Longrightarrow> p_pid (ps ! j) \<noteq> p_pid p"
  shows "pids_ok (ps[i := p]) n'"
  unfolding pids_ok_def length_list_update
proof (intro conjI allI impI)
  show "0 < n'" using pids_okD(1) [OF ok] n by simp
next
  fix j assume "j < length ps"
  then show "0 \<le> p_pid (ps[i := p] ! j)" "p_pid (ps[i := p] ! j) < n'"
    "used (ps[i := p] ! j) \<Longrightarrow> p_pid (ps[i := p] ! j) \<noteq> 0"
    using p i n pids_okD(2-4) [OF ok, of j] by (auto simp: nth_list_update split: if_splits)
next
  fix j k
  assume "j < length ps" "k < length ps" "p_pid (ps[i := p] ! j) = p_pid (ps[i := p] ! k)"
    "p_pid (ps[i := p] ! j) \<noteq> 0"
  then show "j = k"
    using i fresh [of j] fresh [of k] pids_okD(5) [OF ok, of j k]
    by (cases "j = i"; cases "k = i") simp_all
qed

lemma pids_ok_new:
  assumes "pids_ok ps n" and "i < length ps" and "p_pid p = n"
  shows "pids_ok (ps[i := p]) (n + 1)"
  by (rule pids_ok_update [OF assms(1,2)])
    (use assms(3) pids_okD(1) [OF assms(1)] pids_okD(3) [OF assms(1)] in \<open>auto simp: less_le\<close>)

lemma pids_ok_same:
  assumes "pids_ok ps n" and "i < length ps" and "p_pid p = p_pid (ps ! i)" and "used p \<longrightarrow> used (ps ! i)"
  shows "pids_ok (ps[i := p]) n"
proof (rule pids_ok_update [OF assms(1,2)])
  show "p_pid (ps ! j) \<noteq> p_pid p" if "j < length ps" "j \<noteq> i" "p_pid p \<noteq> 0" for j
    using pids_okD(5) [OF assms(1) assms(2) that(1)] assms(3) that(2,3) by auto
qed (use assms(3,4) pids_okD(2,3,4) [OF assms(1,2)] in auto)

lemma pids_ok_freed:
  assumes "pids_ok ps n" and "i < length ps" and "p_pid p = 0" and "\<not> used p"
  shows "pids_ok (ps[i := p]) n"
  by (rule pids_ok_update [OF assms(1,2)]) (use assms(3,4) pids_okD(1) [OF assms(1)] in auto)

lemma pids_ok_map:
  assumes "pids_ok ps n" and "\<And>p. p_pid (f p) = p_pid p" and "\<And>p. used (f p) = used p"
  shows "pids_ok (map f ps) n"
  using assms unfolding pids_ok_def by simp

lemma scan_pid:
  assumes "pids_ok ps n" and "i < length ps" and "p_pid (ps ! i) \<noteq> 0"
  shows "scan (\<lambda>p. p_pid p = p_pid (ps ! i)) ps = Some i"
proof (rule scan_eqI)
  show "p_pid (ps ! j) \<noteq> p_pid (ps ! i)" if "j < i" for j
    using that assms(2,3) pids_okD(5) [OF assms(1), of i j] by auto
qed (use assms in simp_all)

lemma allocproc_pids:
  assumes "alloc_ready s" and "pids_ok (procs s) (nextpid s)" and "allocproc s = Inr (r, t)"
  shows "pids_ok (procs t) (nextpid t)"
proof (cases "scan (\<lambda>p. p_state p = UNUSED) (procs s)")
  case None
  then show ?thesis
    using assms allocproc_full [of s] by (auto simp: scan_None alloc_ready_def)
next
  case (Some i)
  note i = scan_SomeD(1) [OF Some]
  show ?thesis
  proof (cases "freelist s = 0")
    case True
    then have "procs t = (procs s)[i := (procs s ! i)
        \<lparr>p_pid := nextpid s, p_kstack := 0, p_state := UNUSED\<rparr>]"
      and "nextpid t = nextpid s + 1"
      using assms(3) i unfolding allocproc_prefix [OF assms(1) Some] by auto
    then show ?thesis using pids_ok_new [OF assms(2) i] by simp
  next
    case False
    then show ?thesis
      using allocproc_ok [OF assms(1) Some] assms(3) pids_ok_new [OF assms(2) i, of "embryo _ _ _"]
      by (auto simp: embryo_def)
  qed
qed

end
