(* ===== verification/Sample.thy ===== *)
theory Sample
  imports Proc
begin

text \<open>
  A concrete machine on which the theorems of the following theories are instantiated: one
  CPU that runs process 1, a process table of four slots (the first process, the running
  one, another user process and a free slot), one mapped user page below address 0x2000,
  and two free pages.
\<close>

unbundle bit_operations_syntax

definition sample_info :: "handlerinfo list" where
  "sample_info = replicate 32 \<lparr>h_disposition = DFL, h_handler = 0\<rparr>"

definition sample_proc :: proc where
  "sample_proc =
     \<lparr>p_sz = 0x2000, p_pgdir = 0x80400000, p_kstack = 0x80500000, p_state = RUNNING, p_pid = 2,
      p_parent = Some 0, p_tf = 0x80500FB4, p_context = 0x80500F9C, p_chan = Ch_null, p_killed = False,
      p_ofile = replicate 16 None, p_cwd = None, p_name = replicate 16 0, p_sigpending = 0,
      p_sigblocked = 0, p_userdefed = 0, p_allinfo = sample_info, p_justwoken = False,
      p_addr_sigreturn = 0\<rparr>"

definition sample_procs :: "proc list" where
  "sample_procs =
     [sample_proc\<lparr>p_pid := 1, p_state := SLEEPING, p_parent := None, p_tf := 0x80501FB4\<rparr>,
      sample_proc,
      sample_proc\<lparr>p_pid := 3, p_state := SLEEPING, p_chan := Ch_ticks, p_tf := 0x80502FB4\<rparr>,
      sample_proc\<lparr>p_pid := 0, p_state := UNUSED, p_parent := None, p_tf := 0x80503FB4\<rparr>]"

definition sample_tf :: trapframe where
  "sample_tf =
     \<lparr>tf_edi = 1, tf_esi = 2, tf_ebp = 3, tf_oesp = 4, tf_ebx = 5, tf_edx = 6, tf_ecx = 7, tf_eax = 8,
      tf_gs = 0, tf_fs = 0, tf_es = 0x23, tf_ds = 0x23, tf_trapno = 64, tf_err = 0, tf_eip = 0x100,
      tf_cs = 0x1B, tf_eflags = 0x200, tf_esp = 0x2000, tf_ss = 0x23\<rparr>"

text \<open>
  The page directory is at 0x80400000, the page table for the first 4 MB at 0x80401000, and
  user page 1 is the physical page 0x402000. The free pages are 0x80403000 and 0x80404000.
\<close>

definition sample_mem :: memory where
  "sample_mem =
     store32 (store32 (store32 (store32 (\<lambda>_. 0) 0x80400000 0x401007) 0x80401004 0x402007)
       0x80403000 0x80404000) 0x80404000 0"

definition sample_seg :: segdesc where
  "sample_seg = SEG 0 0 0 0"

definition sample_cpu :: cpu where
  "sample_cpu =
     \<lparr>c_apicid = 0, c_esp0 = 0, c_ss0 = 0, c_iomb = 0, c_gdt = (\<lambda>_. sample_seg), c_gdtr = True,
      c_cr3 = 0x400000, c_tr = 0, c_started = True, c_ncli = 0, c_intena = False, c_proc = Some 1\<rparr>"

definition sample :: proc_state where
  "sample =
     \<lparr>cpus = [sample_cpu], lapic_id = 0, ifl = True,
      locks = (\<lambda>_. \<lparr>lk_locked = 0, lk_name = [], lk_cpu = None\<rparr>), printed = [],
      mem = sample_mem, kend = 0x80200000, use_lock = True, freelist = 0x80403000,
      kpgdir = 0x80300000, kdata = 0x80108000,
      procs = sample_procs, nextpid = 4, initproc = Some 0, ticks = 0, tfs = (\<lambda>_. sample_tf),
      contexts = (\<lambda>_. zero_context), forkret_addr = 0x80103000, trapret_addr = 0x80105000,
      ts_addr = (\<lambda>_. 0x80110000)\<rparr>"

lemma sample_view [simp]:
  "here sample = Some 0" "self sample = 0" "self_cpu sample = sample_cpu" "running sample = Some 1"
  "cpu_ok sample" "lock_free l sample" "ifl sample" "procs sample = sample_procs"
  "mem sample = sample_mem" "tfs sample a = sample_tf" "nextpid sample = 4" "use_lock sample"
  "freelist sample = 0x80403000" "kend sample = 0x80200000" "printed sample = []"
  by (simp_all add: sample_def here_def self_def self_cpu_def running_def cpu_ok_def lock_free_def
      scan_def sample_cpu_def)

lemma sample_cpu_fields [simp]: "c_ncli sample_cpu = 0" "c_cr3 sample_cpu = 0x400000"
  by (simp_all add: sample_cpu_def)

lemma sample_on_cpu [simp]: "on_cpu 1 sample" "on_cpu (Suc 0) sample"
  by (simp_all add: on_cpu_def at_ease_def sample_procs_def)

lemma sample_pids: "pids_ok sample_procs 4"
proof -
  have "length sample_procs = 4" by (simp add: sample_procs_def)
  moreover have "(\<forall>i < 4. P i) \<longleftrightarrow> P 0 \<and> P 1 \<and> P 2 \<and> P (3::nat)" for P
    by (auto simp: numeral_eq_Suc less_Suc_eq)
  ultimately show ?thesis
    by (simp add: pids_ok_def) (simp add: sample_procs_def sample_proc_def used_def)
qed

lemma PDX_low: "unat va < 4194304 \<Longrightarrow> PDX va = 0"
proof -
  assume "unat va < 4194304"
  then have "drop_bit 22 va = 0"
    by (simp add: word_unat_eq_iff unat_div drop_bit_eq_div)
  then show ?thesis by (simp add: PDX_def)
qed

lemma PTX_page_1: "4096 \<le> unat va \<Longrightarrow> unat va < 8192 \<Longrightarrow> PTX va = 1"
proof -
  assume "4096 \<le> unat va" "unat va < 8192"
  then have "unat va div 4096 = 1" by (simp add: div_nat_eqI)
  then have "drop_bit 12 va = 1"
    by (simp add: word_unat_eq_iff unat_div drop_bit_eq_div)
  then show ?thesis by (simp add: PTX_def)
qed

definition sample_ka :: "nat \<Rightarrow> u32" where
  "sample_ka i = 0x80402FB4 + of_nat i"

lemma sample_addr:
  assumes "i < 76"
  shows "unat (0x1FB4 + of_nat i :: u32) = 0x1FB4 + i" "unat (sample_ka i) = 0x80402FB4 + i"
    "(0x1FB4 + of_nat i :: u32) AND 0xFFF = 0xFB4 + of_nat i"
proof -
  show a: "unat (0x1FB4 + of_nat i :: u32) = 0x1FB4 + i" "unat (sample_ka i) = 0x80402FB4 + i"
    using assms by (simp_all add: sample_ka_def unat_word_ariths)
  have "(0x1FB4 + of_nat i :: u32) AND 0xFFF = (0x1FB4 + of_nat i) mod 4096"
    using take_bit_eq_mask [of 12 "0x1FB4 + of_nat i :: u32"]
    by (simp add: mask_eq_exp_minus_1 take_bit_eq_mod)
  also have "\<dots> = 0xFB4 + of_nat i"
  proof -
    have "(0x1FB4 + i) mod 4096 = 0xFB4 + i" using assms by (simp add: mod_if)
    then show ?thesis using assms a
      by (simp add: word_unat_eq_iff unat_mod unat_word_ariths)
  qed
  finally show "(0x1FB4 + of_nat i :: u32) AND 0xFFF = 0xFB4 + of_nat i" .
qed

lemma load32_far:
  "unat a + 4 \<le> unat b \<Longrightarrow> unat b + 4 \<le> 4294967296 \<Longrightarrow> load32 (store32 m b w) a = load32 m a"
  "unat b + 4 \<le> unat a \<Longrightarrow> unat a + 4 \<le> 4294967296 \<Longrightarrow> load32 (store32 m b w) a = load32 m a"
proof -
  have far: "load32 (store32 m b w) a = load32 m a"
    if "unat a + 4 \<le> unat b \<or> unat b + 4 \<le> unat a" "unat a + 4 \<le> 4294967296" "unat b + 4 \<le> 4294967296"
  proof (rule load32_other)
    fix i :: nat assume "i < 4"
    then have ai: "unat (a + of_nat i) = unat a + i" using that by (simp add: unat_word_ariths)
    have "unat (a + of_nat i - b) =
        (if unat b \<le> unat a + i then unat a + i - unat b else unat a + i + 4294967296 - unat b)"
      unfolding ai [symmetric] by (simp add: unat_sub_if')
    then have "\<not> unat (a + of_nat i - b) < 4"
      using that \<open>i < 4\<close> by (simp split: if_splits)
    then have "\<not> in_range b 4 (a + of_nat i)" by (simp add: in_range_def)
    then show "store32 m b w (a + of_nat i) = m (a + of_nat i)" by (simp add: store32_apply)
  qed
  show "load32 (store32 m b w) a = load32 m a"
    if "unat a + 4 \<le> unat b" "unat b + 4 \<le> 4294967296" using far that by simp
  show "load32 (store32 m b w) a = load32 m a"
    if "unat b + 4 \<le> unat a" "unat a + 4 \<le> 4294967296" using far that by simp
qed

lemma sample_tables:
  "load32 sample_mem 0x80400000 = 0x401007" "load32 sample_mem 0x80401004 = 0x402007"
  by (simp_all add: sample_mem_def load32_far)

lemma sample_xlate:
  assumes "i < 76"
  shows "xlate sample_mem 0x400000 (0x1FB4 + of_nat i) = Some (sample_ka i, 7)"
    and "pde_addr 0x400000 (0x1FB4 + of_nat i) = 0x80400000"
    and "pte_addr sample_mem 0x400000 (0x1FB4 + of_nat i) = 0x80401004"
proof -
  have x: "PDX (0x1FB4 + of_nat i) = 0" "PTX (0x1FB4 + of_nat i) = 1"
    using sample_addr(1) [OF assms] assms by (simp_all add: PDX_low PTX_page_1)
  show "xlate sample_mem 0x400000 (0x1FB4 + of_nat i) = Some (sample_ka i, 7)"
    using x sample_addr(3) [OF assms]
    by (simp add: xlate_def P2V_def PTE_ADDR_def PTE_FLAGS_def sample_tables sample_ka_def)
  show p: "pde_addr 0x400000 (0x1FB4 + of_nat i) = 0x80400000" using x by (simp add: pde_addr_def P2V_def)
  show "pte_addr sample_mem 0x400000 (0x1FB4 + of_nat i) = 0x80401004"
    unfolding pte_addr_def p using x by (simp add: P2V_def PTE_ADDR_def sample_tables)
qed

lemma sample_ka_tables:
  assumes "j < 76"
  shows "\<not> in_range 0x80400000 4 (sample_ka j)" "\<not> in_range 0x80401004 4 (sample_ka j)"
  using sample_addr(2) [OF assms] assms by (simp_all add: in_range_def unat_sub_if')

lemma user_windowI:
  assumes "\<And>i j. i < n \<Longrightarrow> j < n \<Longrightarrow> ka i = ka j \<Longrightarrow> i = j"
    and "\<And>i. i < n \<Longrightarrow> \<exists>fl. xlate m cr3 (lo + of_nat i) = Some (ka i, fl) \<and> fl AND PTE_W \<noteq> 0"
    and "\<And>i j. i < n \<Longrightarrow> j < n \<Longrightarrow> \<not> in_range (pde_addr cr3 (lo + of_nat i)) 4 (ka j)"
    and "\<And>i j. i < n \<Longrightarrow> j < n \<Longrightarrow> \<not> in_range (pte_addr m cr3 (lo + of_nat i)) 4 (ka j)"
  shows "user_window m cr3 lo n ka"
  using assms unfolding user_window_def by blast

lemma sample_window: "user_window sample_mem 0x400000 0x1FB4 76 sample_ka"
proof (rule user_windowI)
  fix i j :: nat
  assume i: "i < 76" and j: "j < 76"
  show "\<not> in_range (pde_addr 0x400000 (0x1FB4 + of_nat i)) 4 (sample_ka j)"
    unfolding sample_xlate(2) [OF i] using j by (rule sample_ka_tables)
  show "\<not> in_range (pte_addr sample_mem 0x400000 (0x1FB4 + of_nat i)) 4 (sample_ka j)"
    unfolding sample_xlate(3) [OF i] using j by (rule sample_ka_tables)
next
  fix i j :: nat
  assume i: "i < 76" and j: "j < 76" and eq: "sample_ka i = sample_ka j"
  have "0x80402FB4 + i = 0x80402FB4 + j"
    unfolding sample_addr(2) [OF i, symmetric] sample_addr(2) [OF j, symmetric] eq ..
  then show "i = j" by (rule add_left_imp_eq)
next
  fix i :: nat
  assume "i < 76"
  from sample_xlate(1) [OF this]
  show "\<exists>fl. xlate sample_mem 0x400000 (0x1FB4 + of_nat i) = Some (sample_ka i, fl) \<and> fl AND PTE_W \<noteq> 0"
    by simp
qed

lemma sample_win: "win 0x1FB4 76 sample_ka sample"
  using sample_window by (simp add: win_def)

lemma sample_slots [simp]:
  "length sample_procs = 4"
  "sample_procs ! 0 = sample_proc\<lparr>p_pid := 1, p_state := SLEEPING, p_parent := None, p_tf := 0x80501FB4\<rparr>"
  "sample_procs ! Suc 0 = sample_proc" "sample_procs ! 1 = sample_proc"
  "sample_procs ! 2 = sample_proc\<lparr>p_pid := 3, p_state := SLEEPING, p_chan := Ch_ticks, p_tf := 0x80502FB4\<rparr>"
  "sample_procs ! 3 = sample_proc\<lparr>p_pid := 0, p_state := UNUSED, p_parent := None, p_tf := 0x80503FB4\<rparr>"
  by (simp_all add: sample_procs_def)

lemma sample_proc_fields [simp]:
  "p_pid sample_proc = 2" "p_state sample_proc = RUNNING" "p_tf sample_proc = 0x80500FB4"
  "p_sigpending sample_proc = 0" "p_sigblocked sample_proc = 0" "p_userdefed sample_proc = 0"
  "p_allinfo sample_proc = sample_info" "p_killed sample_proc = False" "p_kstack sample_proc = 0x80500000"
  "p_pgdir sample_proc = 0x80400000" "p_sz sample_proc = 0x2000" "p_parent sample_proc = Some 0"
  "p_chan sample_proc = Ch_null"
  by (simp_all add: sample_proc_def)

lemma sample_info_simps [simp]:
  "length sample_info = 32" "n < 32 \<Longrightarrow> sample_info ! n = \<lparr>h_disposition = DFL, h_handler = 0\<rparr>"
  by (simp_all add: sample_info_def)

end
