(* ===== verification/Sleeplock.thy ===== *)
theory Sleeplock
  imports Sample Bytes
begin

text \<open>
  Sleep locks, \<open>src/sleeplock.c\<close>. They are embedded in buffers and in-memory inodes and
  are named by \<open>slid\<close>; the spin lock inside is \<open>L_sleep\<close>.

  From here on the routines can sleep deep down in a call chain, and the file system calls
  device routines through the function table \<open>devsw\<close>. Both are gathered in the argument
  \<open>env\<close> that all later routines take: \<open>e_swtch\<close> is what the rest of the system does while
  the process is off the CPU (see \<open>Proc\<close>), \<open>e_fuel\<close> bounds the number of times one loop goes
  to sleep, and \<open>e_devread\<close> and \<open>e_devwrite\<close> are the two columns of \<open>devsw\<close>. Where a
  routine moves data to or from memory, \<open>kdst\<close> and \<open>ksrc\<close> say which: a variable of the
  calling routine, a kernel address, or a user address.
\<close>

unbundle bit_operations_syntax

datatype kdst = D_var | D_kern u32 | D_user u32
datatype ksrc = S_bytes "u8 list" | S_user u32

record 's env =
  e_swtch :: "'s \<Rightarrow> 's"
  e_fuel :: nat
  e_devread :: "nat \<Rightarrow> (nat \<Rightarrow> kdst \<Rightarrow> u32 \<Rightarrow> 's \<Rightarrow> ((int \<times> u8 list) \<times> 's) outcome) option"
  e_devwrite :: "nat \<Rightarrow> (nat \<Rightarrow> ksrc \<Rightarrow> u32 \<Rightarrow> 's \<Rightarrow> (int \<times> 's) outcome) option"

record sleeplock =
  sl_locked :: bool
  sl_name :: string
  sl_pid :: int

record sl_state = proc_state +
  sleeplocks :: "slid \<Rightarrow> sleeplock"

definition set_sleeplock ::
    "slid \<Rightarrow> (sleeplock \<Rightarrow> sleeplock) \<Rightarrow> 'a sl_state_scheme \<Rightarrow> 'a sl_state_scheme" where
  "set_sleeplock l f s = s\<lparr>sleeplocks := (sleeplocks s)(l := f (sleeplocks s l))\<rparr>"

lemma sl_fields [simp]:
  "sleeplocks (pushed s) = sleeplocks s" "sleeplocks (popped s) = sleeplocks s"
  "sleeplocks (balanced s) = sleeplocks s" "sleeplocks (set_lock l f s) = sleeplocks s"
  "sleeplocks (enter l s) = sleeplocks s" "sleeplocks (leave l s) = sleeplocks s"
  by (simp_all add: enter_def leave_def balanced_def popped_def pushed_def set_lock_def)

lemma sl_updates [simp]:
  "here (s\<lparr>sleeplocks := v0\<rparr>) = here s"
  "self (s\<lparr>sleeplocks := v0\<rparr>) = self s"
  "self_cpu (s\<lparr>sleeplocks := v0\<rparr>) = self_cpu s"
  "running (s\<lparr>sleeplocks := v0\<rparr>) = running s"
  "cpu_ok (s\<lparr>sleeplocks := v0\<rparr>) = cpu_ok s"
  "lock_free l (s\<lparr>sleeplocks := v0\<rparr>) = lock_free l s"
  "lock_held l (s\<lparr>sleeplocks := v0\<rparr>) = lock_held l s"
  "lock_mine l (s\<lparr>sleeplocks := v0\<rparr>) = lock_mine l s"
  by (simp_all add: here_def self_def self_cpu_def running_def cpu_ok_def lock_free_def lock_held_def
      lock_mine_def)

lemma sl_commute [simp]:
  "pushed (s\<lparr>sleeplocks := v0\<rparr>) = (pushed s)\<lparr>sleeplocks := v0\<rparr>"
  "popped (s\<lparr>sleeplocks := v0\<rparr>) = (popped s)\<lparr>sleeplocks := v0\<rparr>"
  "balanced (s\<lparr>sleeplocks := v0\<rparr>) = (balanced s)\<lparr>sleeplocks := v0\<rparr>"
  "set_lock l f (s\<lparr>sleeplocks := v0\<rparr>) = (set_lock l f s)\<lparr>sleeplocks := v0\<rparr>"
  by (simp_all add: pushed_def popped_def balanced_def set_lock_def)

lemma sl_commute_lock [simp]:
  "enter l (s\<lparr>sleeplocks := v0\<rparr>) = (enter l s)\<lparr>sleeplocks := v0\<rparr>"
  "leave l (s\<lparr>sleeplocks := v0\<rparr>) = (leave l s)\<lparr>sleeplocks := v0\<rparr>"
  by (simp_all add: enter_def leave_def)

section \<open>The routines\<close>

definition initsleeplock :: "slid \<Rightarrow> string \<Rightarrow> 'a sl_state_scheme \<Rightarrow> 'a sl_state_scheme" where
  "initsleeplock l name s =
     (let s = initlock (L_sleep l) ''sleep lock'' s;
          s = set_sleeplock l (\<lambda>k. k\<lparr>sl_name := name\<rparr>) s;
          s = set_sleeplock l (\<lambda>k. k\<lparr>sl_locked := False\<rparr>) s
      in set_sleeplock l (\<lambda>k. k\<lparr>sl_pid := 0\<rparr>) s)"

primrec acquiresleep_loop ::
    "nat \<Rightarrow> ('a sl_state_scheme \<Rightarrow> 'a sl_state_scheme) \<Rightarrow> slid \<Rightarrow> 'a sl_state_scheme \<Rightarrow>
       ('a sl_state_scheme) outcome" where
  "acquiresleep_loop 0 swtch l s = Inl OutOfFuel"
| "acquiresleep_loop (Suc n) swtch l s =
     (if sl_locked (sleeplocks s l)
      then and_then (sleep swtch (Ch_sleeplock l) (L_sleep l) s) (acquiresleep_loop n swtch l)
      else Inr s)"

definition acquiresleep ::
    "'a sl_state_scheme env \<Rightarrow> slid \<Rightarrow> 'a sl_state_scheme \<Rightarrow> ('a sl_state_scheme) outcome" where
  "acquiresleep k l s =
     and_then (acquire (L_sleep l) s) (\<lambda>s.
     and_then (acquiresleep_loop (e_fuel k) (e_swtch k) l s) (\<lambda>s.
       let s = set_sleeplock l (\<lambda>k. k\<lparr>sl_locked := True\<rparr>) s in
       with_proc (\<lambda>i s.
         let s = set_sleeplock l (\<lambda>k. k\<lparr>sl_pid := p_pid (procs s ! i)\<rparr>) s
         in release (L_sleep l) s) s))"

definition releasesleep :: "slid \<Rightarrow> 'a sl_state_scheme \<Rightarrow> ('a sl_state_scheme) outcome" where
  "releasesleep l s =
     and_then (acquire (L_sleep l) s) (\<lambda>s.
       let s = set_sleeplock l (\<lambda>k. k\<lparr>sl_locked := False\<rparr>) s;
           s = set_sleeplock l (\<lambda>k. k\<lparr>sl_pid := 0\<rparr>) s
       in and_then (wakeup (Ch_sleeplock l) s) (release (L_sleep l)))"

definition holdingsleep :: "slid \<Rightarrow> 'a sl_state_scheme \<Rightarrow> (bool \<times> 'a sl_state_scheme) outcome" where
  "holdingsleep l s =
     and_then (acquire (L_sleep l) s) (\<lambda>s.
       and_then
         (if sl_locked (sleeplocks s l)
          then with_proc (\<lambda>i s. Inr (sl_pid (sleeplocks s l) = p_pid (procs s ! i), s)) s
          else Inr (False, s)) (\<lambda>(r, s).
       and_then (release (L_sleep l) s) (\<lambda>s. Inr (r, s))))"

section \<open>The uncontended case\<close>

text \<open>
  A process in the file system while nobody else is: its CPU is in order and holds no spin
  lock, no spin lock is held at all, and no process waits for a sleep lock or for the log.
  In such a state the locking and unlocking calls have no effect but on the sleep locks.
\<close>

definition unwaited :: "chan \<Rightarrow> 'a proc_state_scheme \<Rightarrow> bool" where
  "unwaited ch s \<longleftrightarrow> (\<forall>p \<in> set (procs s). \<not> (p_state p = SLEEPING \<and> p_chan p = ch))"

definition calm :: "nat \<Rightarrow> 'a proc_state_scheme \<Rightarrow> bool" where
  "calm i s \<longleftrightarrow> cpu_ok s \<and> balanced s = s \<and> running s = Some i \<and> i < length (procs s) \<and>
     (\<forall>l. lock_free l s) \<and> (\<forall>l. unwaited (Ch_sleeplock l) s) \<and> unwaited Ch_log s"

lemma calmD:
  assumes "calm i s"
  shows "cpu_ok s" "balanced s = s" "running s = Some i" "i < length (procs s)" "lock_free l s"
    "unwaited (Ch_sleeplock sl) s" "unwaited Ch_log s" "lk_locked (locks s l) = 0" "at_ease s" "on_cpu i s"
  using assms by (auto simp: calm_def lock_free_def at_ease_def on_cpu_def)

lemma wakeup_unwaited: "unwaited ch s \<Longrightarrow> wakeup1 ch s = s"
proof -
  assume "unwaited ch s"
  then have "map (wake_proc ch) (procs s) = procs s"
    by (intro map_idI) (auto simp: unwaited_def wake_proc_def)
  then show ?thesis by (simp add: wakeup1_def)
qed

text \<open>A critical section on a lock in a calm state: only the data changes.\<close>

lemma acquire_calm [outcome_simps]: "calm i s \<Longrightarrow> acquire l s = Inr (enter l s)"
  by (simp add: acquire_ok calmD(1,8))

lemma release_enter_calm:
  assumes "cpu_ok t" and "balanced t = t" and "lock_free l t"
  shows "release l (enter l t) = Inr t"
proof -
  have "0 < c_ncli (self_cpu (enter l t))" using assms(1) by (rule ncli_enter_pos)
  then have "release l (enter l t) = Inr (leave l (enter l t))" using assms by (intro release_ok) simp_all
  then show ?thesis using assms by (simp add: leave_enter)
qed

lemma release_calm [outcome_simps]: "calm i t \<Longrightarrow> release l (enter l t) = Inr t"
  by (simp add: release_enter_calm calmD)

lemma section_calm:
  assumes "calm i s" and "f (enter l s) = enter l t" and "calm i t"
  shows "and_then (acquire l s) (\<lambda>u. release l (f u)) = Inr t"
  using assms by (simp add: acquire_calm release_calm)

lemma balanced_enter_calm [simp]: "cpu_ok s \<Longrightarrow> balanced (enter l s) = enter l s"
  by simp

lemma with_proc_enter:
  assumes "calm i s"
  shows "with_proc f (enter l s) = f i (enter l s)"
  using calmD [OF assms] by (simp add: with_proc_ok)

lemma with_proc_calm [outcome_simps]: "calm i s \<Longrightarrow> with_proc f s = f i s"
  by (simp add: with_proc_ok calmD)

lemma myproc_calm [outcome_simps]: "calm i s \<Longrightarrow> myproc s = Inr (Some i, s)"
  by (simp add: myproc_ok calmD)

lemma enter_free: "cpu_ok s \<Longrightarrow> lk_locked (locks s l) = 0 \<Longrightarrow> l \<noteq> m \<Longrightarrow> acquire l (enter m s) = Inr (enter l (enter m s))"
  by (simp add: acquire_ok)

lemma wakeup_calm [outcome_simps]:
  assumes "calm i s" and "unwaited ch s"
  shows "wakeup ch s = Inr s"
proof -
  have "wakeup1 ch (enter L_ptable s) = enter L_ptable s"
    using wakeup_unwaited [OF assms(2)] by (intro wakeup_unwaited) (use assms(2) in \<open>simp add: unwaited_def\<close>)
  then show ?thesis using assms(1) by (simp add: wakeup_def acquire_calm release_calm)
qed

lemma wakeup_enter_calm:
  assumes c: "calm i s" and u: "unwaited ch s" and l: "l \<noteq> L_ptable"
  shows "wakeup ch (enter l s) = Inr (enter l s)"
proof -
  note D = calmD [OF c]
  have w: "wakeup1 ch (enter L_ptable (enter l s)) = enter L_ptable (enter l s)"
    by (intro wakeup_unwaited) (use u in \<open>simp add: unwaited_def\<close>)
  have "lock_free L_ptable (enter l s)" using D l by simp
  then show ?thesis
    using D l w by (simp add: wakeup_def enter_free release_enter_calm)
qed

definition slock :: "int \<Rightarrow> slid \<Rightarrow> 'a sl_state_scheme \<Rightarrow> 'a sl_state_scheme" where
  "slock pid l s = set_sleeplock l (\<lambda>k. k\<lparr>sl_locked := True, sl_pid := pid\<rparr>) s"

definition sunlock :: "slid \<Rightarrow> 'a sl_state_scheme \<Rightarrow> 'a sl_state_scheme" where
  "sunlock l s = set_sleeplock l (\<lambda>k. k\<lparr>sl_locked := False, sl_pid := 0\<rparr>) s"

lemma set_sleeplock_simps [simp]:
  "procs (set_sleeplock l f s) = procs s" "unwaited ch (set_sleeplock l f s) = unwaited ch s"
  "enter m (set_sleeplock l f s) = set_sleeplock l f (enter m s)"
  "leave m (set_sleeplock l f s) = set_sleeplock l f (leave m s)"
  "balanced (set_sleeplock l f s) = set_sleeplock l f (balanced s)"
  "cpu_ok (set_sleeplock l f s) = cpu_ok s" "running (set_sleeplock l f s) = running s"
  "lock_free m (set_sleeplock l f s) = lock_free m s"
  "sleeplocks (set_sleeplock l f s) = (sleeplocks s)(l := f (sleeplocks s l))"
  "set_sleeplock l g (set_sleeplock l f s) = set_sleeplock l (\<lambda>k. g (f k)) s"
  by (simp_all add: set_sleeplock_def unwaited_def)

lemma calm_set_sleeplock [simp]: "calm i s \<Longrightarrow> calm i (set_sleeplock l f s)"
  by (simp add: calm_def)

lemma calm_slock [simp]: "calm i s \<Longrightarrow> calm i (slock pid l s)" "calm i s \<Longrightarrow> calm i (sunlock l s)"
  by (simp_all add: slock_def sunlock_def)

lemma acquiresleep_calm [outcome_simps]:
  assumes c: "calm i s" and f: "\<not> sl_locked (sleeplocks s l)" and k: "0 < e_fuel k"
  shows "acquiresleep k l s = Inr (slock (p_pid (procs s ! i)) l s)"
proof -
  obtain n where n: "e_fuel k = Suc n" using k by (cases "e_fuel k") simp_all
  have c1: "calm i (set_sleeplock l (\<lambda>k. k\<lparr>sl_locked := True\<rparr>) s)" using c by simp
  have "calm i (slock (p_pid (procs s ! i)) l s)" using c by simp
  from release_calm [OF this, of "L_sleep l"] c f n show ?thesis
    by (simp add: acquiresleep_def acquire_calm slock_def with_proc_enter [OF c1, simplified])
qed

lemma releasesleep_calm [outcome_simps]:
  assumes "calm i s"
  shows "releasesleep l s = Inr (sunlock l s)"
proof -
  have c: "calm i (sunlock l s)" using assms by simp
  have "unwaited (Ch_sleeplock l) (sunlock l s)" using calmD(6) [OF c] .
  from wakeup_enter_calm [OF c this, of "L_sleep l"] release_calm [OF c, of "L_sleep l"] assms
  show ?thesis by (simp add: releasesleep_def acquire_calm sunlock_def)
qed

lemma holdingsleep_calm [outcome_simps]:
  assumes "calm i s"
  shows "holdingsleep l s =
     Inr (sl_locked (sleeplocks s l) \<and> sl_pid (sleeplocks s l) = p_pid (procs s ! i), s)"
  using assms by (simp add: holdingsleep_def acquire_calm with_proc_enter release_calm)

lemma slock_simps [simp]:
  "sl_locked (sleeplocks (slock pid l s) m) \<longleftrightarrow> m = l \<or> sl_locked (sleeplocks s m)"
  "sl_pid (sleeplocks (slock pid l s) m) = (if m = l then pid else sl_pid (sleeplocks s m))"
  "sl_locked (sleeplocks (sunlock l s) m) \<longleftrightarrow> m \<noteq> l \<and> sl_locked (sleeplocks s m)"
  "procs (slock pid l s) = procs s" "procs (sunlock l s) = procs s"
  by (simp_all add: slock_def sunlock_def)

end
