(* ===== verification/Bio.thy ===== *)
theory Bio
  imports Sleeplock
begin

text \<open>
  The buffer cache, \<open>src/bio.c\<close> with \<open>src/buf.h\<close>, on the memory disk of \<open>src/memide.c\<close>.

  \<open>bufs\<close> is the array \<open>bcache.buf\<close> followed by \<open>bcache.head\<close>: buffers are named by their
  index and \<open>head\<close> is index 30. The doubly linked list is kept as in the code, in the
  fields \<open>b_prev\<close> and \<open>b_next\<close>; a walk along it has fuel for one round. The disk is a
  map from block numbers to blocks, and \<open>written\<close> records the block writes in the order in
  which the disk sees them; no routine reads it.
\<close>

unbundle bit_operations_syntax

record buf =
  b_flags :: u32
  b_dev :: u32
  b_blockno :: u32
  b_refcnt :: u32
  b_prev :: nat
  b_next :: nat
  b_data :: "u8 list"

record bio_state = sl_state +
  bufs :: "buf list"
  memdisk :: "u32 \<Rightarrow> u8 list"
  disksize :: u32
  written :: "(u32 \<times> u8 list) list"

abbreviation (input) NBUF :: nat where "NBUF \<equiv> 30"
abbreviation (input) head :: nat where "head \<equiv> 30"
abbreviation (input) BSIZE :: nat where "BSIZE \<equiv> 512"
abbreviation (input) B_VALID :: u32 where "B_VALID \<equiv> 2"
abbreviation (input) B_DIRTY :: u32 where "B_DIRTY \<equiv> 4"

definition set_buf :: "nat \<Rightarrow> (buf \<Rightarrow> buf) \<Rightarrow> 'a bio_state_scheme \<Rightarrow> 'a bio_state_scheme" where
  "set_buf b f s = s\<lparr>bufs := (bufs s)[b := f (bufs s ! b)]\<rparr>"

lemma bio_fields [simp]:
  "bufs (pushed s) = bufs s" "memdisk (pushed s) = memdisk s" "disksize (pushed s) = disksize s"
  "written (pushed s) = written s" "bufs (popped s) = bufs s" "memdisk (popped s) = memdisk s"
  "disksize (popped s) = disksize s" "written (popped s) = written s" "bufs (balanced s) = bufs s"
  "memdisk (balanced s) = memdisk s" "disksize (balanced s) = disksize s"
  "written (balanced s) = written s" "bufs (set_lock l f s) = bufs s"
  "memdisk (set_lock l f s) = memdisk s" "disksize (set_lock l f s) = disksize s"
  "written (set_lock l f s) = written s" "bufs (enter l s) = bufs s"
  "memdisk (enter l s) = memdisk s" "disksize (enter l s) = disksize s"
  "written (enter l s) = written s" "bufs (leave l s) = bufs s" "memdisk (leave l s) = memdisk s"
  "disksize (leave l s) = disksize s" "written (leave l s) = written s"
  by (simp_all add: enter_def leave_def balanced_def popped_def pushed_def set_lock_def)

lemma bio_updates [simp]:
  "here (s\<lparr>bufs := v0\<rparr>) = here s" "self (s\<lparr>bufs := v0\<rparr>) = self s"
  "self_cpu (s\<lparr>bufs := v0\<rparr>) = self_cpu s"
  "running (s\<lparr>bufs := v0\<rparr>) = running s"
  "cpu_ok (s\<lparr>bufs := v0\<rparr>) = cpu_ok s"
  "lock_free l (s\<lparr>bufs := v0\<rparr>) = lock_free l s"
  "lock_held l (s\<lparr>bufs := v0\<rparr>) = lock_held l s"
  "lock_mine l (s\<lparr>bufs := v0\<rparr>) = lock_mine l s"
  "here (s\<lparr>memdisk := v1\<rparr>) = here s" "self (s\<lparr>memdisk := v1\<rparr>) = self s"
  "self_cpu (s\<lparr>memdisk := v1\<rparr>) = self_cpu s"
  "running (s\<lparr>memdisk := v1\<rparr>) = running s"
  "cpu_ok (s\<lparr>memdisk := v1\<rparr>) = cpu_ok s"
  "lock_free l (s\<lparr>memdisk := v1\<rparr>) = lock_free l s"
  "lock_held l (s\<lparr>memdisk := v1\<rparr>) = lock_held l s"
  "lock_mine l (s\<lparr>memdisk := v1\<rparr>) = lock_mine l s"
  "here (s\<lparr>disksize := v2\<rparr>) = here s"
  "self (s\<lparr>disksize := v2\<rparr>) = self s"
  "self_cpu (s\<lparr>disksize := v2\<rparr>) = self_cpu s"
  "running (s\<lparr>disksize := v2\<rparr>) = running s"
  "cpu_ok (s\<lparr>disksize := v2\<rparr>) = cpu_ok s"
  "lock_free l (s\<lparr>disksize := v2\<rparr>) = lock_free l s"
  "lock_held l (s\<lparr>disksize := v2\<rparr>) = lock_held l s"
  "lock_mine l (s\<lparr>disksize := v2\<rparr>) = lock_mine l s"
  "here (s\<lparr>written := v3\<rparr>) = here s" "self (s\<lparr>written := v3\<rparr>) = self s"
  "self_cpu (s\<lparr>written := v3\<rparr>) = self_cpu s"
  "running (s\<lparr>written := v3\<rparr>) = running s"
  "cpu_ok (s\<lparr>written := v3\<rparr>) = cpu_ok s"
  "lock_free l (s\<lparr>written := v3\<rparr>) = lock_free l s"
  "lock_held l (s\<lparr>written := v3\<rparr>) = lock_held l s"
  "lock_mine l (s\<lparr>written := v3\<rparr>) = lock_mine l s"
  by (simp_all add: here_def self_def self_cpu_def running_def cpu_ok_def lock_free_def lock_held_def
      lock_mine_def)

lemma bio_commute [simp]:
  "pushed (s\<lparr>bufs := v0\<rparr>) = (pushed s)\<lparr>bufs := v0\<rparr>"
  "popped (s\<lparr>bufs := v0\<rparr>) = (popped s)\<lparr>bufs := v0\<rparr>"
  "balanced (s\<lparr>bufs := v0\<rparr>) = (balanced s)\<lparr>bufs := v0\<rparr>"
  "set_lock l f (s\<lparr>bufs := v0\<rparr>) = (set_lock l f s)\<lparr>bufs := v0\<rparr>"
  "pushed (s\<lparr>memdisk := v1\<rparr>) = (pushed s)\<lparr>memdisk := v1\<rparr>"
  "popped (s\<lparr>memdisk := v1\<rparr>) = (popped s)\<lparr>memdisk := v1\<rparr>"
  "balanced (s\<lparr>memdisk := v1\<rparr>) = (balanced s)\<lparr>memdisk := v1\<rparr>"
  "set_lock l f (s\<lparr>memdisk := v1\<rparr>) = (set_lock l f s)\<lparr>memdisk := v1\<rparr>"
  "pushed (s\<lparr>disksize := v2\<rparr>) = (pushed s)\<lparr>disksize := v2\<rparr>"
  "popped (s\<lparr>disksize := v2\<rparr>) = (popped s)\<lparr>disksize := v2\<rparr>"
  "balanced (s\<lparr>disksize := v2\<rparr>) = (balanced s)\<lparr>disksize := v2\<rparr>"
  "set_lock l f (s\<lparr>disksize := v2\<rparr>) = (set_lock l f s)\<lparr>disksize := v2\<rparr>"
  "pushed (s\<lparr>written := v3\<rparr>) = (pushed s)\<lparr>written := v3\<rparr>"
  "popped (s\<lparr>written := v3\<rparr>) = (popped s)\<lparr>written := v3\<rparr>"
  "balanced (s\<lparr>written := v3\<rparr>) = (balanced s)\<lparr>written := v3\<rparr>"
  "set_lock l f (s\<lparr>written := v3\<rparr>) = (set_lock l f s)\<lparr>written := v3\<rparr>"
  by (simp_all add: pushed_def popped_def balanced_def set_lock_def)

lemma bio_commute_lock [simp]:
  "enter l (s\<lparr>bufs := v0\<rparr>) = (enter l s)\<lparr>bufs := v0\<rparr>"
  "leave l (s\<lparr>bufs := v0\<rparr>) = (leave l s)\<lparr>bufs := v0\<rparr>"
  "enter l (s\<lparr>memdisk := v1\<rparr>) = (enter l s)\<lparr>memdisk := v1\<rparr>"
  "leave l (s\<lparr>memdisk := v1\<rparr>) = (leave l s)\<lparr>memdisk := v1\<rparr>"
  "enter l (s\<lparr>disksize := v2\<rparr>) = (enter l s)\<lparr>disksize := v2\<rparr>"
  "leave l (s\<lparr>disksize := v2\<rparr>) = (leave l s)\<lparr>disksize := v2\<rparr>"
  "enter l (s\<lparr>written := v3\<rparr>) = (enter l s)\<lparr>written := v3\<rparr>"
  "leave l (s\<lparr>written := v3\<rparr>) = (leave l s)\<lparr>written := v3\<rparr>"
  by (simp_all add: enter_def leave_def)

section \<open>The disk in memory\<close>

text \<open>\<open>ideinit\<close> of the memory disk: the disk is an image of \<open>n\<close> bytes linked into the kernel.\<close>

definition ideinit :: "(u32 \<Rightarrow> u8 list) \<Rightarrow> u32 \<Rightarrow> 'a bio_state_scheme \<Rightarrow> 'a bio_state_scheme" where
  "ideinit img n s = s\<lparr>memdisk := img, disksize := n div 512\<rparr>"

definition iderw :: "nat \<Rightarrow> 'a bio_state_scheme \<Rightarrow> ('a bio_state_scheme) outcome" where
  "iderw b s =
     and_then (holdingsleep (SL_buf b) s) (\<lambda>(h, s).
       if \<not> h then Inl (Panic ''iderw: buf not locked'')
       else if b_flags (bufs s ! b) AND (B_VALID OR B_DIRTY) = B_VALID
       then Inl (Panic ''iderw: nothing to do'')
       else if b_dev (bufs s ! b) \<noteq> 1 then Inl (Panic ''iderw: request not for disk 1'')
       else if disksize s \<le> b_blockno (bufs s ! b) then Inl (Panic ''iderw: block out of range'')
       else
         let p = b_blockno (bufs s ! b);
             s = (if b_flags (bufs s ! b) AND B_DIRTY \<noteq> 0
                  then let s = set_buf b (\<lambda>b. b\<lparr>b_flags := b_flags b AND NOT B_DIRTY\<rparr>) s
                       in s\<lparr>memdisk := (memdisk s)(p := b_data (bufs s ! b)),
                            written := written s @ [(p, b_data (bufs s ! b))]\<rparr>
                  else set_buf b (\<lambda>b. b\<lparr>b_data := memdisk s p\<rparr>) s)
         in Inr (set_buf b (\<lambda>b. b\<lparr>b_flags := b_flags b OR B_VALID\<rparr>) s))"

section \<open>The cache\<close>

text \<open>The body of \<open>binit\<close>'s loop, and \<open>binit\<close>.\<close>

definition link_front :: "nat \<Rightarrow> 'a bio_state_scheme \<Rightarrow> 'a bio_state_scheme" where
  "link_front b s =
     (let s = set_buf b (\<lambda>x. x\<lparr>b_next := b_next (bufs s ! head)\<rparr>) s;
          s = set_buf b (\<lambda>x. x\<lparr>b_prev := head\<rparr>) s;
          s = set_buf (b_next (bufs s ! head)) (\<lambda>x. x\<lparr>b_prev := b\<rparr>) s
      in set_buf head (\<lambda>x. x\<lparr>b_next := b\<rparr>) s)"

definition binit :: "'a bio_state_scheme \<Rightarrow> 'a bio_state_scheme" where
  "binit s =
     (let s = initlock L_bcache ''bcache'' s;
          s = set_buf head (\<lambda>x. x\<lparr>b_prev := head\<rparr>) s;
          s = set_buf head (\<lambda>x. x\<lparr>b_next := head\<rparr>) s
      in fold (\<lambda>b s. link_front b (initsleeplock (SL_buf b) ''buffer'' s)) [0..<NBUF] s)"

primrec walk :: "nat \<Rightarrow> (buf \<Rightarrow> nat) \<Rightarrow> (buf \<Rightarrow> bool) \<Rightarrow> buf list \<Rightarrow> nat \<Rightarrow> (nat option) outcome" where
  "walk 0 link P bs b = Inl OutOfFuel"
| "walk (Suc n) link P bs b =
     (if b = head then Inr None
      else if P (bs ! b) then Inr (Some b) else walk n link P bs (link (bs ! b)))"

definition bget ::
    "'a bio_state_scheme env \<Rightarrow> u32 \<Rightarrow> u32 \<Rightarrow> 'a bio_state_scheme \<Rightarrow>
       (nat \<times> 'a bio_state_scheme) outcome" where
  "bget k dev blockno s =
     and_then (acquire L_bcache s) (\<lambda>s.
     and_then (walk (NBUF + 1) b_next (\<lambda>x. b_dev x = dev \<and> b_blockno x = blockno) (bufs s)
                 (b_next (bufs s ! head))) (\<lambda>r.
       case r of
         Some b \<Rightarrow>
           let s = set_buf b (\<lambda>x. x\<lparr>b_refcnt := b_refcnt x + 1\<rparr>) s in
           and_then (release L_bcache s) (\<lambda>s.
           and_then (acquiresleep k (SL_buf b) s) (\<lambda>s. Inr (b, s)))
       | None \<Rightarrow>
           and_then (walk (NBUF + 1) b_prev (\<lambda>x. b_refcnt x = 0 \<and> b_flags x AND B_DIRTY = 0) (bufs s)
                       (b_prev (bufs s ! head))) (\<lambda>r.
             case r of
               Some b \<Rightarrow>
                 let s = set_buf b (\<lambda>x. x\<lparr>b_dev := dev, b_blockno := blockno, b_flags := 0, b_refcnt := 1\<rparr>) s in
                 and_then (release L_bcache s) (\<lambda>s.
                 and_then (acquiresleep k (SL_buf b) s) (\<lambda>s. Inr (b, s)))
             | None \<Rightarrow> Inl (Panic ''bget: no buffers''))))"

definition bread ::
    "'a bio_state_scheme env \<Rightarrow> u32 \<Rightarrow> u32 \<Rightarrow> 'a bio_state_scheme \<Rightarrow>
       (nat \<times> 'a bio_state_scheme) outcome" where
  "bread k dev blockno s =
     and_then (bget k dev blockno s) (\<lambda>(b, s).
       if b_flags (bufs s ! b) AND B_VALID = 0
       then and_then (iderw b s) (\<lambda>s. Inr (b, s))
       else Inr (b, s))"

definition bwrite :: "nat \<Rightarrow> 'a bio_state_scheme \<Rightarrow> ('a bio_state_scheme) outcome" where
  "bwrite b s =
     and_then (holdingsleep (SL_buf b) s) (\<lambda>(h, s).
       if \<not> h then Inl (Panic ''bwrite'')
       else let s = set_buf b (\<lambda>x. x\<lparr>b_flags := b_flags x OR B_DIRTY\<rparr>) s in iderw b s)"

definition unlink_buf :: "nat \<Rightarrow> 'a bio_state_scheme \<Rightarrow> 'a bio_state_scheme" where
  "unlink_buf b s =
     (let s = set_buf (b_next (bufs s ! b)) (\<lambda>x. x\<lparr>b_prev := b_prev (bufs s ! b)\<rparr>) s
      in set_buf (b_prev (bufs s ! b)) (\<lambda>x. x\<lparr>b_next := b_next (bufs s ! b)\<rparr>) s)"

definition brelse :: "nat \<Rightarrow> 'a bio_state_scheme \<Rightarrow> ('a bio_state_scheme) outcome" where
  "brelse b s =
     and_then (holdingsleep (SL_buf b) s) (\<lambda>(h, s).
       if \<not> h then Inl (Panic ''brelse'')
       else and_then (releasesleep (SL_buf b) s) (\<lambda>s.
            and_then (acquire L_bcache s) (\<lambda>s.
              let s = set_buf b (\<lambda>x. x\<lparr>b_refcnt := b_refcnt x - 1\<rparr>) s;
                  s = (if b_refcnt (bufs s ! b) = 0 then link_front b (unlink_buf b s) else s)
              in release L_bcache s)))"

end
