(* ===== verification/Log.thy ===== *)
theory Log
  imports Bio
begin

text \<open>
  The redo log, \<open>src/log.c\<close>, with the super block and \<open>readsb\<close> of \<open>src/fs.h\<close> and \<open>src/fs.c\<close>.

  The header block holds the count and the block numbers as 32-bit words. A count read from
  disk that exceeds the array \<open>log.lh.block\<close> makes \<open>read_head\<close> write beyond it, which is the
  stop \<open>Undefined\<close>.
\<close>

unbundle bit_operations_syntax

record superblock =
  sb_size :: u32
  sb_nblocks :: u32
  sb_ninodes :: u32
  sb_nlog :: u32
  sb_logstart :: u32
  sb_inodestart :: u32
  sb_bmapstart :: u32

record klog =
  lg_start :: u32
  lg_size :: int
  lg_outstanding :: int
  lg_committing :: bool
  lg_dev :: u32
  lg_n :: int
  lg_block :: "u32 list"

record log_state = bio_state +
  log :: klog

abbreviation (input) MAXOPBLOCKS :: int where "MAXOPBLOCKS \<equiv> 10"
abbreviation (input) LOGSIZE :: int where "LOGSIZE \<equiv> 30"

definition set_log :: "(klog \<Rightarrow> klog) \<Rightarrow> 'a log_state_scheme \<Rightarrow> 'a log_state_scheme" where
  "set_log f s = s\<lparr>log := f (log s)\<rparr>"

lemma log_fields [simp]:
  "log (pushed s) = log s" "log (popped s) = log s" "log (balanced s) = log s"
  "log (set_lock l f s) = log s" "log (enter l s) = log s" "log (leave l s) = log s"
  by (simp_all add: enter_def leave_def balanced_def popped_def pushed_def set_lock_def)

lemma log_updates [simp]:
  "here (s\<lparr>log := v0\<rparr>) = here s" "self (s\<lparr>log := v0\<rparr>) = self s"
  "self_cpu (s\<lparr>log := v0\<rparr>) = self_cpu s"
  "running (s\<lparr>log := v0\<rparr>) = running s"
  "cpu_ok (s\<lparr>log := v0\<rparr>) = cpu_ok s"
  "lock_free l (s\<lparr>log := v0\<rparr>) = lock_free l s"
  "lock_held l (s\<lparr>log := v0\<rparr>) = lock_held l s"
  "lock_mine l (s\<lparr>log := v0\<rparr>) = lock_mine l s"
  by (simp_all add: here_def self_def self_cpu_def running_def cpu_ok_def lock_free_def lock_held_def
      lock_mine_def)

lemma log_commute [simp]:
  "pushed (s\<lparr>log := v0\<rparr>) = (pushed s)\<lparr>log := v0\<rparr>"
  "popped (s\<lparr>log := v0\<rparr>) = (popped s)\<lparr>log := v0\<rparr>"
  "balanced (s\<lparr>log := v0\<rparr>) = (balanced s)\<lparr>log := v0\<rparr>"
  "set_lock l f (s\<lparr>log := v0\<rparr>) = (set_lock l f s)\<lparr>log := v0\<rparr>"
  by (simp_all add: pushed_def popped_def balanced_def set_lock_def)

lemma log_commute_lock [simp]:
  "enter l (s\<lparr>log := v0\<rparr>) = (enter l s)\<lparr>log := v0\<rparr>"
  "leave l (s\<lparr>log := v0\<rparr>) = (leave l s)\<lparr>log := v0\<rparr>"
  by (simp_all add: enter_def leave_def)

section \<open>Reading and writing the log\<close>

definition decode_sb :: "u8 list \<Rightarrow> superblock" where
  "decode_sb d =
     \<lparr>sb_size = get32 d 0, sb_nblocks = get32 d 4, sb_ninodes = get32 d 8, sb_nlog = get32 d 12,
      sb_logstart = get32 d 16, sb_inodestart = get32 d 20, sb_bmapstart = get32 d 24\<rparr>"

definition readsb ::
    "'a bio_state_scheme env \<Rightarrow> u32 \<Rightarrow> 'a bio_state_scheme \<Rightarrow> (superblock \<times> 'a bio_state_scheme) outcome" where
  "readsb k dev s =
     and_then (bread k dev 1 s) (\<lambda>(bp, s).
       let sb = decode_sb (b_data (bufs s ! bp))
       in and_then (brelse bp s) (\<lambda>s. Inr (sb, s)))"

definition install_block ::
    "'a log_state_scheme env \<Rightarrow> nat \<Rightarrow> 'a log_state_scheme \<Rightarrow> ('a log_state_scheme) outcome" where
  "install_block k tail s =
     and_then (bread k (lg_dev (log s)) (lg_start (log s) + of_nat tail + 1) s) (\<lambda>(lbuf, s).
     and_then (bread k (lg_dev (log s)) (lg_block (log s) ! tail) s) (\<lambda>(dbuf, s).
       let s = set_buf dbuf (\<lambda>x. x\<lparr>b_data := b_data (bufs s ! lbuf)\<rparr>) s in
       and_then (bwrite dbuf s) (\<lambda>s.
       and_then (brelse lbuf s) (brelse dbuf))))"

definition install_trans ::
    "'a log_state_scheme env \<Rightarrow> 'a log_state_scheme \<Rightarrow> ('a log_state_scheme) outcome" where
  "install_trans k s = for_each (install_block k) [0..<nat (lg_n (log s))] s"

definition read_head ::
    "'a log_state_scheme env \<Rightarrow> 'a log_state_scheme \<Rightarrow> ('a log_state_scheme) outcome" where
  "read_head k s =
     and_then (bread k (lg_dev (log s)) (lg_start (log s)) s) (\<lambda>(b, s).
       let d = b_data (bufs s ! b);
           s = set_log (\<lambda>g. g\<lparr>lg_n := sint (get32 d 0)\<rparr>) s
       in if LOGSIZE < lg_n (log s) then Inl (Undefined ''log.lh.block'')
          else let s = set_log (\<lambda>g. g\<lparr>lg_block :=
                         map (\<lambda>i. if int i < lg_n g then get32 d (4 + 4 * i) else lg_block g ! i)
                           [0..<length (lg_block g)]\<rparr>) s
               in brelse b s)"

definition write_head ::
    "'a log_state_scheme env \<Rightarrow> 'a log_state_scheme \<Rightarrow> ('a log_state_scheme) outcome" where
  "write_head k s =
     and_then (bread k (lg_dev (log s)) (lg_start (log s)) s) (\<lambda>(b, s).
       let g = log s;
           s = set_buf b (\<lambda>x. x\<lparr>b_data := put32 (b_data x) 0 (word_of_int (lg_n g))\<rparr>) s;
           s = set_buf b (\<lambda>x. x\<lparr>b_data :=
                 fold (\<lambda>i d. put32 d (4 + 4 * i) (lg_block g ! i)) [0..<nat (lg_n g)] (b_data x)\<rparr>) s
       in and_then (bwrite b s) (brelse b))"

definition recover_from_log ::
    "'a log_state_scheme env \<Rightarrow> 'a log_state_scheme \<Rightarrow> ('a log_state_scheme) outcome" where
  "recover_from_log k s =
     and_then (read_head k s) (\<lambda>s.
     and_then (install_trans k s) (\<lambda>s.
       let s = set_log (\<lambda>g. g\<lparr>lg_n := 0\<rparr>) s in write_head k s))"

text \<open>\<open>initlog\<close>; a \<open>struct logheader\<close> has 124 bytes, so its first test does not fire.\<close>

definition initlog ::
    "'a log_state_scheme env \<Rightarrow> u32 \<Rightarrow> 'a log_state_scheme \<Rightarrow> ('a log_state_scheme) outcome" where
  "initlog k dev s =
     (if 4 + 4 * nat LOGSIZE \<ge> BSIZE then Inl (Panic ''initlog: too big logheader'')
      else
        let s = initlock L_log ''log'' s in
        and_then (readsb k dev s) (\<lambda>(sb, s).
          let s = set_log (\<lambda>g. g\<lparr>lg_start := sb_logstart sb\<rparr>) s;
              s = set_log (\<lambda>g. g\<lparr>lg_size := sint (sb_nlog sb)\<rparr>) s;
              s = set_log (\<lambda>g. g\<lparr>lg_dev := dev\<rparr>) s
          in recover_from_log k s))"

section \<open>Transactions\<close>

primrec begin_op_loop ::
    "nat \<Rightarrow> ('a log_state_scheme \<Rightarrow> 'a log_state_scheme) \<Rightarrow> 'a log_state_scheme \<Rightarrow>
       ('a log_state_scheme) outcome" where
  "begin_op_loop 0 swtch s = Inl OutOfFuel"
| "begin_op_loop (Suc n) swtch s =
     (if lg_committing (log s)
      then and_then (sleep swtch Ch_log L_log s) (begin_op_loop n swtch)
      else if lg_n (log s) + (lg_outstanding (log s) + 1) * MAXOPBLOCKS > LOGSIZE
      then and_then (sleep swtch Ch_log L_log s) (begin_op_loop n swtch)
      else let s = set_log (\<lambda>g. g\<lparr>lg_outstanding := lg_outstanding g + 1\<rparr>) s in release L_log s)"

definition begin_op ::
    "'a log_state_scheme env \<Rightarrow> 'a log_state_scheme \<Rightarrow> ('a log_state_scheme) outcome" where
  "begin_op k s = and_then (acquire L_log s) (begin_op_loop (e_fuel k) (e_swtch k))"

definition log_block ::
    "'a log_state_scheme env \<Rightarrow> nat \<Rightarrow> 'a log_state_scheme \<Rightarrow> ('a log_state_scheme) outcome" where
  "log_block k tail s =
     and_then (bread k (lg_dev (log s)) (lg_start (log s) + of_nat tail + 1) s) (\<lambda>(to, s).
     and_then (bread k (lg_dev (log s)) (lg_block (log s) ! tail) s) (\<lambda>(from, s).
       let s = set_buf to (\<lambda>x. x\<lparr>b_data := b_data (bufs s ! from)\<rparr>) s in
       and_then (bwrite to s) (\<lambda>s.
       and_then (brelse from s) (brelse to))))"

definition write_log ::
    "'a log_state_scheme env \<Rightarrow> 'a log_state_scheme \<Rightarrow> ('a log_state_scheme) outcome" where
  "write_log k s = for_each (log_block k) [0..<nat (lg_n (log s))] s"

definition commit ::
    "'a log_state_scheme env \<Rightarrow> 'a log_state_scheme \<Rightarrow> ('a log_state_scheme) outcome" where
  "commit k s =
     (if 0 < lg_n (log s)
      then and_then (write_log k s) (\<lambda>s.
           and_then (write_head k s) (\<lambda>s.
           and_then (install_trans k s) (\<lambda>s.
             let s = set_log (\<lambda>g. g\<lparr>lg_n := 0\<rparr>) s in write_head k s)))
      else Inr s)"

definition end_op ::
    "'a log_state_scheme env \<Rightarrow> 'a log_state_scheme \<Rightarrow> ('a log_state_scheme) outcome" where
  "end_op k s =
     and_then (acquire L_log s) (\<lambda>s.
       let s = set_log (\<lambda>g. g\<lparr>lg_outstanding := lg_outstanding g - 1\<rparr>) s in
       if lg_committing (log s) then Inl (Panic ''log.committing'')
       else
         let do_commit = (lg_outstanding (log s) = 0) in
         and_then
           (if do_commit then Inr (set_log (\<lambda>g. g\<lparr>lg_committing := True\<rparr>) s)
            else wakeup Ch_log s) (\<lambda>s.
         and_then (release L_log s) (\<lambda>s.
           if do_commit
           then and_then (commit k s) (\<lambda>s.
                and_then (acquire L_log s) (\<lambda>s.
                  let s = set_log (\<lambda>g. g\<lparr>lg_committing := False\<rparr>) s
                  in and_then (wakeup Ch_log s) (release L_log)))
           else Inr s)))"

definition log_write :: "nat \<Rightarrow> 'a log_state_scheme \<Rightarrow> ('a log_state_scheme) outcome" where
  "log_write b s =
     (if lg_n (log s) \<ge> LOGSIZE \<or> lg_n (log s) \<ge> lg_size (log s) - 1
      then Inl (Panic ''too big a transaction'')
      else if lg_outstanding (log s) < 1 then Inl (Panic ''log_write outside of trans'')
      else and_then (acquire L_log s) (\<lambda>s.
        let i = (case find (\<lambda>i. lg_block (log s) ! i = b_blockno (bufs s ! b)) [0..<nat (lg_n (log s))] of
                   Some i \<Rightarrow> i | None \<Rightarrow> nat (lg_n (log s)));
            s = set_log (\<lambda>g. g\<lparr>lg_block := (lg_block g)[i := b_blockno (bufs s ! b)]\<rparr>) s;
            s = (if int i = lg_n (log s) then set_log (\<lambda>g. g\<lparr>lg_n := lg_n g + 1\<rparr>) s else s);
            s = set_buf b (\<lambda>x. x\<lparr>b_flags := b_flags x OR B_DIRTY\<rparr>) s
        in release L_log s))"

end
