(* ===== verification/Inode.thy ===== *)
theory Inode
  imports Log
begin

text \<open>
  Disk blocks and inodes: the first half of \<open>src/fs.c\<close>, from \<open>bzero\<close> to \<open>writei\<close>, with the
  structures of \<open>src/fs.h\<close> and \<open>src/file.h\<close>.

  In-memory inodes are named by their index in \<open>icache.inode\<close>. On disk an inode is 64 bytes
  of its block, read and written field by field. The \<open>short\<close> fields are 16-bit words.
\<close>

unbundle bit_operations_syntax

record inode =
  i_dev :: u32
  i_inum :: u32
  i_ref :: int
  i_valid :: bool
  i_type :: u16
  i_major :: u16
  i_minor :: u16
  i_nlink :: u16
  i_size :: u32
  i_addrs :: "u32 list"

record fs_state = log_state +
  sb :: superblock
  inodes :: "inode list"

abbreviation (input) NDIRECT :: nat where "NDIRECT \<equiv> 12"
abbreviation (input) NINDIRECT :: nat where "NINDIRECT \<equiv> 128"
abbreviation (input) MAXFILE :: nat where "MAXFILE \<equiv> 140"
abbreviation (input) BPB :: nat where "BPB \<equiv> 4096"
abbreviation (input) IPB :: u32 where "IPB \<equiv> 8"
abbreviation (input) NDEV :: int where "NDEV \<equiv> 10"
abbreviation (input) T_DIR :: u16 where "T_DIR \<equiv> 1"
abbreviation (input) T_FILE :: u16 where "T_FILE \<equiv> 2"
abbreviation (input) T_DEV :: u16 where "T_DEV \<equiv> 3"

definition set_inode :: "nat \<Rightarrow> (inode \<Rightarrow> inode) \<Rightarrow> 'a fs_state_scheme \<Rightarrow> 'a fs_state_scheme" where
  "set_inode ip f s = s\<lparr>inodes := (inodes s)[ip := f (inodes s ! ip)]\<rparr>"

lemma fs_fields [simp]:
  "sb (pushed s) = sb s" "inodes (pushed s) = inodes s" "sb (popped s) = sb s"
  "inodes (popped s) = inodes s" "sb (balanced s) = sb s" "inodes (balanced s) = inodes s"
  "sb (set_lock l f s) = sb s" "inodes (set_lock l f s) = inodes s" "sb (enter l s) = sb s"
  "inodes (enter l s) = inodes s" "sb (leave l s) = sb s" "inodes (leave l s) = inodes s"
  by (simp_all add: enter_def leave_def balanced_def popped_def pushed_def set_lock_def)

lemma fs_updates [simp]:
  "here (s\<lparr>sb := v0\<rparr>) = here s" "self (s\<lparr>sb := v0\<rparr>) = self s"
  "self_cpu (s\<lparr>sb := v0\<rparr>) = self_cpu s"
  "running (s\<lparr>sb := v0\<rparr>) = running s" "cpu_ok (s\<lparr>sb := v0\<rparr>) = cpu_ok s"
  "lock_free l (s\<lparr>sb := v0\<rparr>) = lock_free l s"
  "lock_held l (s\<lparr>sb := v0\<rparr>) = lock_held l s"
  "lock_mine l (s\<lparr>sb := v0\<rparr>) = lock_mine l s"
  "here (s\<lparr>inodes := v1\<rparr>) = here s" "self (s\<lparr>inodes := v1\<rparr>) = self s"
  "self_cpu (s\<lparr>inodes := v1\<rparr>) = self_cpu s"
  "running (s\<lparr>inodes := v1\<rparr>) = running s"
  "cpu_ok (s\<lparr>inodes := v1\<rparr>) = cpu_ok s"
  "lock_free l (s\<lparr>inodes := v1\<rparr>) = lock_free l s"
  "lock_held l (s\<lparr>inodes := v1\<rparr>) = lock_held l s"
  "lock_mine l (s\<lparr>inodes := v1\<rparr>) = lock_mine l s"
  by (simp_all add: here_def self_def self_cpu_def running_def cpu_ok_def lock_free_def lock_held_def
      lock_mine_def)

lemma fs_commute [simp]:
  "pushed (s\<lparr>sb := v0\<rparr>) = (pushed s)\<lparr>sb := v0\<rparr>"
  "popped (s\<lparr>sb := v0\<rparr>) = (popped s)\<lparr>sb := v0\<rparr>"
  "balanced (s\<lparr>sb := v0\<rparr>) = (balanced s)\<lparr>sb := v0\<rparr>"
  "set_lock l f (s\<lparr>sb := v0\<rparr>) = (set_lock l f s)\<lparr>sb := v0\<rparr>"
  "pushed (s\<lparr>inodes := v1\<rparr>) = (pushed s)\<lparr>inodes := v1\<rparr>"
  "popped (s\<lparr>inodes := v1\<rparr>) = (popped s)\<lparr>inodes := v1\<rparr>"
  "balanced (s\<lparr>inodes := v1\<rparr>) = (balanced s)\<lparr>inodes := v1\<rparr>"
  "set_lock l f (s\<lparr>inodes := v1\<rparr>) = (set_lock l f s)\<lparr>inodes := v1\<rparr>"
  by (simp_all add: pushed_def popped_def balanced_def set_lock_def)

lemma fs_commute_lock [simp]:
  "enter l (s\<lparr>sb := v0\<rparr>) = (enter l s)\<lparr>sb := v0\<rparr>"
  "leave l (s\<lparr>sb := v0\<rparr>) = (leave l s)\<lparr>sb := v0\<rparr>"
  "enter l (s\<lparr>inodes := v1\<rparr>) = (enter l s)\<lparr>inodes := v1\<rparr>"
  "leave l (s\<lparr>inodes := v1\<rparr>) = (leave l s)\<lparr>inodes := v1\<rparr>"
  by (simp_all add: enter_def leave_def)

definition IBLOCK :: "u32 \<Rightarrow> superblock \<Rightarrow> u32" where
  "IBLOCK i b = i div IPB + sb_inodestart b"

definition BBLOCK :: "u32 \<Rightarrow> superblock \<Rightarrow> u32" where
  "BBLOCK n b = n div 4096 + sb_bmapstart b"

section \<open>Blocks\<close>

definition bzero ::
    "'a log_state_scheme env \<Rightarrow> u32 \<Rightarrow> u32 \<Rightarrow> 'a log_state_scheme \<Rightarrow> ('a log_state_scheme) outcome" where
  "bzero k dev bno s =
     and_then (bread k dev bno s) (\<lambda>(bp, s).
       let s = set_buf bp (\<lambda>x. x\<lparr>b_data := replicate BSIZE 0\<rparr>) s in
       and_then (log_write bp s) (brelse bp))"

definition bit_of :: "u8 list \<Rightarrow> nat \<Rightarrow> u8" where
  "bit_of d bi = d ! (bi div 8) AND push_bit (bi mod 8) 1"

definition balloc_block ::
    "'a fs_state_scheme env \<Rightarrow> u32 \<Rightarrow> nat \<Rightarrow> 'a fs_state_scheme \<Rightarrow>
       (u32 option \<times> 'a fs_state_scheme) outcome" where
  "balloc_block k dev b s =
     and_then (bread k dev (BBLOCK (of_nat b) (sb s)) s) (\<lambda>(bp, s).
       case find (\<lambda>bi. bit_of (b_data (bufs s ! bp)) bi = 0) [0..<min BPB (unat (sb_size (sb s)) - b)] of
         Some bi \<Rightarrow>
           let s = set_buf bp (\<lambda>x. x\<lparr>b_data :=
                     (b_data x)[bi div 8 := b_data x ! (bi div 8) OR push_bit (bi mod 8) 1]\<rparr>) s
           in and_then (log_write bp s) (\<lambda>s.
              and_then (brelse bp s) (\<lambda>s.
              and_then (bzero k dev (of_nat (b + bi)) s) (\<lambda>s. Inr (Some (of_nat (b + bi)), s))))
       | None \<Rightarrow> and_then (brelse bp s) (\<lambda>s. Inr (None, s)))"

definition balloc ::
    "'a fs_state_scheme env \<Rightarrow> u32 \<Rightarrow> 'a fs_state_scheme \<Rightarrow> (u32 \<times> 'a fs_state_scheme) outcome" where
  "balloc k dev s =
     and_then (for_until (balloc_block k dev)
                 (map (\<lambda>j. BPB * j) [0..<(unat (sb_size (sb s)) + (BPB - 1)) div BPB]) s) (\<lambda>(r, s).
       case r of Some b \<Rightarrow> Inr (b, s) | None \<Rightarrow> Inl (Panic ''balloc: out of blocks''))"

definition bfree ::
    "'a fs_state_scheme env \<Rightarrow> u32 \<Rightarrow> u32 \<Rightarrow> 'a fs_state_scheme \<Rightarrow> ('a fs_state_scheme) outcome" where
  "bfree k dev b s =
     and_then (bread k dev (BBLOCK b (sb s)) s) (\<lambda>(bp, s).
       let bi = unat b mod BPB in
       if bit_of (b_data (bufs s ! bp)) bi = 0 then Inl (Panic ''freeing free block'')
       else
         let s = set_buf bp (\<lambda>x. x\<lparr>b_data :=
                   (b_data x)[bi div 8 := b_data x ! (bi div 8) AND NOT (push_bit (bi mod 8) 1)]\<rparr>) s
         in and_then (log_write bp s) (brelse bp))"

section \<open>Inodes\<close>

definition iinit ::
    "'a fs_state_scheme env \<Rightarrow> u32 \<Rightarrow> 'a fs_state_scheme \<Rightarrow> ('a fs_state_scheme) outcome" where
  "iinit k dev s =
     (let s = initlock L_icache ''icache'' s;
          s = fold (\<lambda>i. initsleeplock (SL_inode i) ''inode'') [0..<length (inodes s)] s
      in and_then (readsb k dev s) (\<lambda>(b, s).
           let s = s\<lparr>sb := b\<rparr> in
           Inr (cprintf (''sb: size %d nblocks %d ninodes %d nlog %d logstart %d inodestart %d bmap start %d'' @ [CHR 0x0A])
                  (map (\<lambda>w. A_int (sint w)) [sb_size b, sb_nblocks b, sb_ninodes b, sb_nlog b, sb_logstart b,
                     sb_inodestart b, sb_bmapstart b]) s)))"

definition iget ::
    "u32 \<Rightarrow> u32 \<Rightarrow> 'a fs_state_scheme \<Rightarrow> (nat \<times> 'a fs_state_scheme) outcome" where
  "iget dev inum s =
     and_then (acquire L_icache s) (\<lambda>s.
       case scan (\<lambda>x. 0 < i_ref x \<and> i_dev x = dev \<and> i_inum x = inum) (inodes s) of
         Some ip \<Rightarrow>
           let s = set_inode ip (\<lambda>x. x\<lparr>i_ref := i_ref x + 1\<rparr>) s
           in and_then (release L_icache s) (\<lambda>s. Inr (ip, s))
       | None \<Rightarrow>
           (case scan (\<lambda>x. i_ref x = 0) (inodes s) of
              None \<Rightarrow> Inl (Panic ''iget: no inodes'')
            | Some ip \<Rightarrow>
                let s = set_inode ip (\<lambda>x. x\<lparr>i_dev := dev, i_inum := inum, i_ref := 1, i_valid := False\<rparr>) s
                in and_then (release L_icache s) (\<lambda>s. Inr (ip, s))))"

text \<open>The inode at a byte offset of its block, as the structure of \<open>src/fs.h\<close> lays it out.\<close>

definition ioff :: "u32 \<Rightarrow> nat" where
  "ioff inum = 64 * unat (inum mod IPB)"

definition ialloc_try ::
    "'a fs_state_scheme env \<Rightarrow> u32 \<Rightarrow> u16 \<Rightarrow> nat \<Rightarrow> 'a fs_state_scheme \<Rightarrow>
       (nat option \<times> 'a fs_state_scheme) outcome" where
  "ialloc_try k dev type inum s =
     and_then (bread k dev (IBLOCK (of_nat inum) (sb s)) s) (\<lambda>(bp, s).
       let dip = ioff (of_nat inum) in
       if get16 (b_data (bufs s ! bp)) dip = 0
       then
         let s = set_buf bp (\<lambda>x. x\<lparr>b_data := overwrite (b_data x) dip (replicate 64 0)\<rparr>) s;
             s = set_buf bp (\<lambda>x. x\<lparr>b_data := put16 (b_data x) dip type\<rparr>) s
         in and_then (log_write bp s) (\<lambda>s.
            and_then (brelse bp s) (\<lambda>s.
            and_then (iget dev (of_nat inum) s) (\<lambda>(ip, s). Inr (Some ip, s))))
       else and_then (brelse bp s) (\<lambda>s. Inr (None, s)))"

definition ialloc ::
    "'a fs_state_scheme env \<Rightarrow> u32 \<Rightarrow> u16 \<Rightarrow> 'a fs_state_scheme \<Rightarrow> (nat \<times> 'a fs_state_scheme) outcome" where
  "ialloc k dev type s =
     and_then (for_until (ialloc_try k dev type) [1..<unat (sb_ninodes (sb s))] s) (\<lambda>(r, s).
       case r of Some ip \<Rightarrow> Inr (ip, s) | None \<Rightarrow> Inl (Panic ''ialloc: no inodes''))"

text \<open>The stores of \<open>iupdate\<close> and the loads of \<open>ilock\<close>.\<close>

definition put_dinode :: "inode \<Rightarrow> nat \<Rightarrow> u8 list \<Rightarrow> u8 list" where
  "put_dinode x dip d =
     (let d = put16 d dip (i_type x);
          d = put16 d (dip + 2) (i_major x);
          d = put16 d (dip + 4) (i_minor x);
          d = put16 d (dip + 6) (i_nlink x);
          d = put32 d (dip + 8) (i_size x)
      in overwrite d (dip + 12) (concat (map bytes32 (i_addrs x))))"

definition get_dinode :: "u8 list \<Rightarrow> nat \<Rightarrow> inode \<Rightarrow> inode" where
  "get_dinode d dip x =
     x\<lparr>i_type := get16 d dip, i_major := get16 d (dip + 2), i_minor := get16 d (dip + 4),
       i_nlink := get16 d (dip + 6), i_size := get32 d (dip + 8),
       i_addrs := map (\<lambda>j. get32 d (dip + 12 + 4 * j)) [0..<NDIRECT + 1]\<rparr>"

definition iupdate ::
    "'a fs_state_scheme env \<Rightarrow> nat \<Rightarrow> 'a fs_state_scheme \<Rightarrow> ('a fs_state_scheme) outcome" where
  "iupdate k ip s =
     and_then (bread k (i_dev (inodes s ! ip)) (IBLOCK (i_inum (inodes s ! ip)) (sb s)) s) (\<lambda>(bp, s).
       let dip = ioff (i_inum (inodes s ! ip));
           s = set_buf bp (\<lambda>x. x\<lparr>b_data := put_dinode (inodes s ! ip) dip (b_data x)\<rparr>) s
       in and_then (log_write bp s) (brelse bp))"

definition idup :: "nat \<Rightarrow> 'a fs_state_scheme \<Rightarrow> (nat \<times> 'a fs_state_scheme) outcome" where
  "idup ip s =
     and_then (acquire L_icache s) (\<lambda>s.
       let s = set_inode ip (\<lambda>x. x\<lparr>i_ref := i_ref x + 1\<rparr>) s
       in and_then (release L_icache s) (\<lambda>s. Inr (ip, s)))"

text \<open>The null test of \<open>ilock\<close> and \<open>iunlock\<close> has no counterpart: an index is never null.\<close>

definition ilock ::
    "'a fs_state_scheme env \<Rightarrow> nat \<Rightarrow> 'a fs_state_scheme \<Rightarrow> ('a fs_state_scheme) outcome" where
  "ilock k ip s =
     (if i_ref (inodes s ! ip) < 1 then Inl (Panic ''ilock'')
      else and_then (acquiresleep k (SL_inode ip) s) (\<lambda>s.
        if \<not> i_valid (inodes s ! ip)
        then and_then (bread k (i_dev (inodes s ! ip)) (IBLOCK (i_inum (inodes s ! ip)) (sb s)) s) (\<lambda>(bp, s).
               let dip = ioff (i_inum (inodes s ! ip));
                   s = set_inode ip (get_dinode (b_data (bufs s ! bp)) dip) s
               in and_then (brelse bp s) (\<lambda>s.
                    let s = set_inode ip (\<lambda>x. x\<lparr>i_valid := True\<rparr>) s in
                    if i_type (inodes s ! ip) = 0 then Inl (Panic ''ilock: no type'') else Inr s))
        else Inr s))"

definition iunlock :: "nat \<Rightarrow> 'a fs_state_scheme \<Rightarrow> ('a fs_state_scheme) outcome" where
  "iunlock ip s =
     and_then (holdingsleep (SL_inode ip) s) (\<lambda>(h, s).
       if \<not> h \<or> i_ref (inodes s ! ip) < 1 then Inl (Panic ''iunlock'')
       else releasesleep (SL_inode ip) s)"

definition free_addr ::
    "'a fs_state_scheme env \<Rightarrow> nat \<Rightarrow> nat \<Rightarrow> 'a fs_state_scheme \<Rightarrow> ('a fs_state_scheme) outcome" where
  "free_addr k ip i s =
     (if i_addrs (inodes s ! ip) ! i \<noteq> 0
      then and_then (bfree k (i_dev (inodes s ! ip)) (i_addrs (inodes s ! ip) ! i) s) (\<lambda>s.
             Inr (set_inode ip (\<lambda>x. x\<lparr>i_addrs := (i_addrs x)[i := 0]\<rparr>) s))
      else Inr s)"

definition itrunc ::
    "'a fs_state_scheme env \<Rightarrow> nat \<Rightarrow> 'a fs_state_scheme \<Rightarrow> ('a fs_state_scheme) outcome" where
  "itrunc k ip s =
     and_then (for_each (free_addr k ip) [0..<NDIRECT] s) (\<lambda>s.
     and_then
       (if i_addrs (inodes s ! ip) ! NDIRECT \<noteq> 0
        then and_then (bread k (i_dev (inodes s ! ip)) (i_addrs (inodes s ! ip) ! NDIRECT) s) (\<lambda>(bp, s).
             and_then (for_each (\<lambda>j s.
                 let a = get32 (b_data (bufs s ! bp)) (4 * j) in
                 if a \<noteq> 0 then bfree k (i_dev (inodes s ! ip)) a s else Inr s) [0..<NINDIRECT] s) (\<lambda>s.
             and_then (brelse bp s) (free_addr k ip NDIRECT)))
        else Inr s) (\<lambda>s.
       let s = set_inode ip (\<lambda>x. x\<lparr>i_size := 0\<rparr>) s in iupdate k ip s))"

definition iput ::
    "'a fs_state_scheme env \<Rightarrow> nat \<Rightarrow> 'a fs_state_scheme \<Rightarrow> ('a fs_state_scheme) outcome" where
  "iput k ip s =
     and_then (acquiresleep k (SL_inode ip) s) (\<lambda>s.
     and_then
       (if i_valid (inodes s ! ip) \<and> i_nlink (inodes s ! ip) = 0
        then and_then (acquire L_icache s) (\<lambda>s.
               let r = i_ref (inodes s ! ip) in
               and_then (release L_icache s) (\<lambda>s.
                 if r = 1
                 then and_then (itrunc k ip s) (\<lambda>s.
                        let s = set_inode ip (\<lambda>x. x\<lparr>i_type := 0\<rparr>) s in
                        and_then (iupdate k ip s) (\<lambda>s.
                          Inr (set_inode ip (\<lambda>x. x\<lparr>i_valid := False\<rparr>) s)))
                 else Inr s))
        else Inr s) (\<lambda>s.
     and_then (releasesleep (SL_inode ip) s) (\<lambda>s.
     and_then (acquire L_icache s) (\<lambda>s.
       let s = set_inode ip (\<lambda>x. x\<lparr>i_ref := i_ref x - 1\<rparr>) s in release L_icache s))))"

definition iunlockput ::
    "'a fs_state_scheme env \<Rightarrow> nat \<Rightarrow> 'a fs_state_scheme \<Rightarrow> ('a fs_state_scheme) outcome" where
  "iunlockput k ip s = and_then (iunlock ip s) (iput k ip)"

section \<open>Inode content\<close>

definition bmap_direct ::
    "'a fs_state_scheme env \<Rightarrow> nat \<Rightarrow> nat \<Rightarrow> 'a fs_state_scheme \<Rightarrow> (u32 \<times> 'a fs_state_scheme) outcome" where
  "bmap_direct k ip i s =
     (let addr = i_addrs (inodes s ! ip) ! i in
      if addr = 0
      then and_then (balloc k (i_dev (inodes s ! ip)) s) (\<lambda>(addr, s).
             Inr (addr, set_inode ip (\<lambda>x. x\<lparr>i_addrs := (i_addrs x)[i := addr]\<rparr>) s))
      else Inr (addr, s))"

definition bmap ::
    "'a fs_state_scheme env \<Rightarrow> nat \<Rightarrow> nat \<Rightarrow> 'a fs_state_scheme \<Rightarrow> (u32 \<times> 'a fs_state_scheme) outcome" where
  "bmap k ip bn s =
     (if bn < NDIRECT then bmap_direct k ip bn s
      else let bn = bn - NDIRECT in
        if bn < NINDIRECT
        then and_then (bmap_direct k ip NDIRECT s) (\<lambda>(addr, s).
             and_then (bread k (i_dev (inodes s ! ip)) addr s) (\<lambda>(bp, s).
               let addr = get32 (b_data (bufs s ! bp)) (4 * bn) in
               and_then
                 (if addr = 0
                  then and_then (balloc k (i_dev (inodes s ! ip)) s) (\<lambda>(addr, s).
                         let s = set_buf bp (\<lambda>x. x\<lparr>b_data := put32 (b_data x) (4 * bn) addr\<rparr>) s in
                         and_then (log_write bp s) (\<lambda>s. Inr (addr, s)))
                  else Inr (addr, s)) (\<lambda>(addr, s).
               and_then (brelse bp s) (\<lambda>s. Inr (addr, s)))))
        else Inl (Panic ''bmap: out of range''))"

definition vstore16 :: "u32 \<Rightarrow> u16 \<Rightarrow> 'a kmem_state_scheme \<Rightarrow> ('a kmem_state_scheme) outcome" where
  "vstore16 a w s = and_then (vstore8 a (ucast w) s) (vstore8 (a + 1) (ucast (drop_bit 8 w)))"

text \<open>\<open>stati\<close> fills the \<open>struct stat\<close> at the user address \<open>st\<close>.\<close>

definition stati :: "nat \<Rightarrow> u32 \<Rightarrow> 'a fs_state_scheme \<Rightarrow> ('a fs_state_scheme) outcome" where
  "stati ip st s =
     (let x = inodes s ! ip in
      and_then (vstore32 (st + 4) (i_dev x) s) (\<lambda>s.
      and_then (vstore32 (st + 8) (i_inum x) s) (\<lambda>s.
      and_then (vstore16 st (i_type x) s) (\<lambda>s.
      and_then (vstore16 (st + 12) (i_nlink x) s) (\<lambda>s.
        vstore32 (st + 16) (i_size x) s)))))"

text \<open>\<open>memmove\<close> between a buffer and the memory the caller named.\<close>

definition store_bytes :: "kdst \<Rightarrow> u8 list \<Rightarrow> 'a kmem_state_scheme \<Rightarrow> ('a kmem_state_scheme) outcome" where
  "store_bytes dst xs s =
     (case dst of
        D_var \<Rightarrow> Inr s
      | D_kern a \<Rightarrow> Inr (s\<lparr>mem := array_at a xs (mem s)\<rparr>)
      | D_user a \<Rightarrow> for_each (\<lambda>j. vstore8 (a + of_nat j) (xs ! j)) [0..<length xs] s)"

definition next_dst :: "nat \<Rightarrow> kdst \<Rightarrow> kdst" where
  "next_dst m dst =
     (case dst of D_var \<Rightarrow> D_var | D_kern a \<Rightarrow> D_kern (a + of_nat m) | D_user a \<Rightarrow> D_user (a + of_nat m))"

primrec vload_bytes :: "nat \<Rightarrow> u32 \<Rightarrow> 'a kmem_state_scheme \<Rightarrow> (u8 list) outcome" where
  "vload_bytes 0 a s = Inr []"
| "vload_bytes (Suc n) a s =
     and_then (vload8 a s) (\<lambda>b. and_then (vload_bytes n (a + 1) s) (\<lambda>bs. Inr (b # bs)))"

definition load_bytes :: "ksrc \<Rightarrow> nat \<Rightarrow> 'a kmem_state_scheme \<Rightarrow> (u8 list) outcome" where
  "load_bytes src m s =
     (case src of S_bytes xs \<Rightarrow> Inr (take m xs) | S_user a \<Rightarrow> vload_bytes m a s)"

definition next_src :: "nat \<Rightarrow> ksrc \<Rightarrow> ksrc" where
  "next_src m src =
     (case src of S_bytes xs \<Rightarrow> S_bytes (drop m xs) | S_user a \<Rightarrow> S_user (a + of_nat m))"

text \<open>
  The loops of \<open>readi\<close> and \<open>writei\<close>. Each round moves at least one byte, so \<open>tot\<close> reaches
  \<open>n\<close>. \<open>off\<close> and \<open>n\<close> are the values of the C variables; the tests before the loops exclude
  that \<open>off + n\<close> wraps.
\<close>

function readi_loop ::
    "'a fs_state_scheme env \<Rightarrow> nat \<Rightarrow> nat \<Rightarrow> nat \<Rightarrow> nat \<Rightarrow> kdst \<Rightarrow> 'a fs_state_scheme \<Rightarrow>
       (u8 list \<times> 'a fs_state_scheme) outcome" where
  "readi_loop k ip n tot off dst s =
     (if n \<le> tot then Inr ([], s)
      else
        let m = min (n - tot) (BSIZE - off mod BSIZE) in
        and_then (bmap k ip (off div BSIZE) s) (\<lambda>(addr, s).
        and_then (bread k (i_dev (inodes s ! ip)) addr s) (\<lambda>(bp, s).
          let xs = slice (b_data (bufs s ! bp)) (off mod BSIZE) m in
          and_then (store_bytes dst xs s) (\<lambda>s.
          and_then (brelse bp s) (\<lambda>s.
          and_then (readi_loop k ip n (tot + m) (off + m) (next_dst m dst) s) (\<lambda>(ys, s). Inr (xs @ ys, s)))))))"
  by pat_completeness auto
termination
  by (relation "measure (\<lambda>(k, ip, n, tot, off, dst, s). n - tot)") (auto simp: min_def mod_less_divisor)

definition readi ::
    "'a fs_state_scheme env \<Rightarrow> nat \<Rightarrow> kdst \<Rightarrow> u32 \<Rightarrow> u32 \<Rightarrow> 'a fs_state_scheme \<Rightarrow>
       ((int \<times> u8 list) \<times> 'a fs_state_scheme) outcome" where
  "readi k ip dst off n s =
     (let x = inodes s ! ip in
      if i_type x = T_DEV
      then (if sint (i_major x) < 0 \<or> sint (i_major x) \<ge> NDEV then Inr ((-1, []), s)
            else case e_devread k (unat (i_major x)) of
                   None \<Rightarrow> Inr ((-1, []), s) | Some f \<Rightarrow> f ip dst n s)
      else if i_size x < off \<or> off + n < off then Inr ((-1, []), s)
      else
        let n = (if i_size x < off + n then i_size x - off else n) in
        and_then (readi_loop k ip (unat n) 0 (unat off) dst s) (\<lambda>(xs, s). Inr ((sint n, xs), s)))"

function writei_loop ::
    "'a fs_state_scheme env \<Rightarrow> nat \<Rightarrow> nat \<Rightarrow> nat \<Rightarrow> nat \<Rightarrow> ksrc \<Rightarrow> 'a fs_state_scheme \<Rightarrow>
       (nat \<times> 'a fs_state_scheme) outcome" where
  "writei_loop k ip n tot off src s =
     (if n \<le> tot then Inr (off, s)
      else
        let m = min (n - tot) (BSIZE - off mod BSIZE) in
        and_then (bmap k ip (off div BSIZE) s) (\<lambda>(addr, s).
        and_then (bread k (i_dev (inodes s ! ip)) addr s) (\<lambda>(bp, s).
        and_then (load_bytes src m s) (\<lambda>xs.
          let s = set_buf bp (\<lambda>x. x\<lparr>b_data := overwrite (b_data x) (off mod BSIZE) xs\<rparr>) s in
          and_then (log_write bp s) (\<lambda>s.
          and_then (brelse bp s) (\<lambda>s.
            writei_loop k ip n (tot + m) (off + m) (next_src m src) s))))))"
  by pat_completeness auto
termination
  by (relation "measure (\<lambda>(k, ip, n, tot, off, src, s). n - tot)") (auto simp: min_def mod_less_divisor)

definition writei ::
    "'a fs_state_scheme env \<Rightarrow> nat \<Rightarrow> ksrc \<Rightarrow> u32 \<Rightarrow> u32 \<Rightarrow> 'a fs_state_scheme \<Rightarrow>
       (int \<times> 'a fs_state_scheme) outcome" where
  "writei k ip src off n s =
     (let x = inodes s ! ip in
      if i_type x = T_DEV
      then (if sint (i_major x) < 0 \<or> sint (i_major x) \<ge> NDEV then Inr (-1, s)
            else case e_devwrite k (unat (i_major x)) of
                   None \<Rightarrow> Inr (-1, s) | Some f \<Rightarrow> f ip src n s)
      else if i_size x < off \<or> off + n < off then Inr (-1, s)
      else if MAXFILE * BSIZE < unat (off + n) then Inr (-1, s)
      else and_then (writei_loop k ip (unat n) 0 (unat off) src s) (\<lambda>(off, s).
        if 0 < n \<and> unat (i_size (inodes s ! ip)) < off
        then let s = set_inode ip (\<lambda>x. x\<lparr>i_size := of_nat off\<rparr>) s in
             and_then (iupdate k ip s) (\<lambda>s. Inr (sint n, s))
        else Inr (sint n, s)))"

end
