(* ===== verification/Dir.thy ===== *)
theory Dir
  imports Inode
begin

text \<open>
  Directories and path names: the second half of \<open>src/fs.c\<close>, from \<open>namecmp\<close> to
  \<open>nameiparent\<close>.

  A path is the list of its bytes without the terminating zero; a name is an array of
  \<open>DIRSIZ\<close> = 14 bytes, terminated only when shorter. \<open>namecmp\<close> and the copy into a directory
  entry call the routines of \<open>string.c\<close> on arrays placed in memory.
\<close>

unbundle bit_operations_syntax

abbreviation (input) DIRSIZ :: nat where "DIRSIZ \<equiv> 14"
abbreviation (input) ROOTDEV :: u32 where "ROOTDEV \<equiv> 1"
abbreviation (input) ROOTINO :: u32 where "ROOTINO \<equiv> 1"
abbreviation (input) slash :: u8 where "slash \<equiv> 47"
abbreviation (input) dot :: u8 where "dot \<equiv> 46"

section \<open>Directories\<close>

definition namecmp :: "u8 list \<Rightarrow> u8 list \<Rightarrow> int" where
  "namecmp s t = strncmp DIRSIZ 0x100 0x200 (array_at 0x100 s (array_at 0x200 t (\<lambda>_. 0)))"

text \<open>\<open>strncpy(de.name, name, DIRSIZ)\<close>, where \<open>de\<close> held \<open>old\<close>.\<close>

definition copy_name :: "u8 list \<Rightarrow> u8 list \<Rightarrow> u8 list" where
  "copy_name old name =
     array_from (strncpy 0x100 0x200 (int DIRSIZ) (array_at 0x100 old (array_at 0x200 name (\<lambda>_. 0)))) 0x100 DIRSIZ"

definition de_inum :: "u8 list \<Rightarrow> u16" where "de_inum de = get16 de 0"
definition de_name :: "u8 list \<Rightarrow> u8 list" where "de_name de = slice de 2 DIRSIZ"

text \<open>The offsets the loops over a directory of \<open>n\<close> bytes visit.\<close>

definition dir_offsets :: "nat \<Rightarrow> nat list" where
  "dir_offsets n = map (\<lambda>j. 16 * j) [0..<(n + 15) div 16]"

definition read_dirent ::
    "string \<Rightarrow> 'a fs_state_scheme env \<Rightarrow> nat \<Rightarrow> nat \<Rightarrow> 'a fs_state_scheme \<Rightarrow>
       (u8 list \<times> 'a fs_state_scheme) outcome" where
  "read_dirent msg k dp off s =
     and_then (readi k dp D_var (of_nat off) 16 s) (\<lambda>((r, de), s).
       if r \<noteq> 16 then Inl (Panic msg) else Inr (de, s))"

definition dirlookup_at ::
    "'a fs_state_scheme env \<Rightarrow> nat \<Rightarrow> u8 list \<Rightarrow> nat \<Rightarrow> 'a fs_state_scheme \<Rightarrow>
       ((nat \<times> nat) option \<times> 'a fs_state_scheme) outcome" where
  "dirlookup_at k dp name off s =
     and_then (read_dirent ''dirlookup read'' k dp off s) (\<lambda>(de, s).
       if de_inum de = 0 then Inr (None, s)
       else if namecmp name (de_name de) = 0
       then and_then (iget (i_dev (inodes s ! dp)) (ucast (de_inum de)) s) (\<lambda>(ip, s). Inr (Some (ip, off), s))
       else Inr (None, s))"

definition dirlookup ::
    "'a fs_state_scheme env \<Rightarrow> nat \<Rightarrow> u8 list \<Rightarrow> 'a fs_state_scheme \<Rightarrow>
       ((nat \<times> nat) option \<times> 'a fs_state_scheme) outcome" where
  "dirlookup k dp name s =
     (if i_type (inodes s ! dp) \<noteq> T_DIR then Inl (Panic ''dirlookup not DIR'')
      else for_until (dirlookup_at k dp name) (dir_offsets (unat (i_size (inodes s ! dp)))) s)"

definition free_entry_at ::
    "'a fs_state_scheme env \<Rightarrow> nat \<Rightarrow> nat \<Rightarrow> u8 list \<times> 'a fs_state_scheme \<Rightarrow>
       (nat option \<times> u8 list \<times> 'a fs_state_scheme) outcome" where
  "free_entry_at k dp off ds =
     (case ds of (_, s) \<Rightarrow>
        and_then (read_dirent ''dirlink read'' k dp off s) (\<lambda>(de, s).
          Inr (if de_inum de = 0 then Some off else None, de, s)))"

text \<open>
  \<open>dirlink\<close>. \<open>de\<close> is uninitialised until the loop reads into it; \<open>strncpy\<close> and the store
  of \<open>inum\<close> overwrite all of it, so the initial zeros here do not matter.
\<close>

definition dirlink ::
    "'a fs_state_scheme env \<Rightarrow> nat \<Rightarrow> u8 list \<Rightarrow> u32 \<Rightarrow> 'a fs_state_scheme \<Rightarrow>
       (int \<times> 'a fs_state_scheme) outcome" where
  "dirlink k dp name inum s =
     and_then (dirlookup k dp name s) (\<lambda>(r, s).
       case r of
         Some (ip, _) \<Rightarrow> and_then (iput k ip s) (\<lambda>s. Inr (-1, s))
       | None \<Rightarrow>
           let sz = unat (i_size (inodes s ! dp)) in
           and_then (for_until (free_entry_at k dp) (dir_offsets sz) (replicate 16 0, s)) (\<lambda>(r, de, s).
             let off = (case r of Some off \<Rightarrow> off | None \<Rightarrow> 16 * ((sz + 15) div 16));
                 de = overwrite de 2 (copy_name (de_name de) name);
                 de = put16 de 0 (ucast inum)
             in and_then (writei k dp (S_bytes de) (of_nat off) 16 s) (\<lambda>(r, s).
                  if r \<noteq> 16 then Inl (Panic ''dirlink'') else Inr (0, s))))"

section \<open>Paths\<close>

text \<open>
  \<open>skipelem\<close>: the name buffer after the call and the rest of the path. A short element
  overwrites only the beginning of the buffer.
\<close>

definition skipelem :: "u8 list \<Rightarrow> u8 list \<Rightarrow> (u8 list \<times> u8 list) option" where
  "skipelem path name =
     (let path = dropWhile (\<lambda>c. c = slash) path in
      if path = [] then None
      else
        let elem = takeWhile (\<lambda>c. c \<noteq> slash) path;
            path = dropWhile (\<lambda>c. c \<noteq> slash) path;
            name = (if length elem \<ge> DIRSIZ then take DIRSIZ elem
                    else overwrite name 0 (elem @ [0]))
        in Some (name, dropWhile (\<lambda>c. c = slash) path))"

lemma skipelem_shorter: "skipelem path name = Some (nm, rest) \<Longrightarrow> length rest < length path"
proof -
  assume "skipelem path name = Some (nm, rest)"
  then obtain p where p: "p = dropWhile (\<lambda>c. c = slash) path" "p \<noteq> []"
    and r: "rest = dropWhile (\<lambda>c. c = slash) (dropWhile (\<lambda>c. c \<noteq> slash) p)"
    by (auto simp: skipelem_def Let_def split: if_splits)
  have "hd p \<noteq> slash" using p hd_dropWhile [of "\<lambda>c. c = slash" path] by simp
  then obtain x xs where "p = x # xs" "x \<noteq> slash" using p(2) by (cases p) auto
  then have "length (dropWhile (\<lambda>c. c \<noteq> slash) p) \<le> length xs"
    by (simp add: length_dropWhile_le)
  moreover have "length rest \<le> length (dropWhile (\<lambda>c. c \<noteq> slash) p)" unfolding r by (rule length_dropWhile_le)
  moreover have "length p \<le> length path" unfolding p(1) by (rule length_dropWhile_le)
  ultimately show ?thesis using \<open>p = x # xs\<close> by simp
qed

function namex_loop ::
    "'a fs_state_scheme env \<Rightarrow> bool \<Rightarrow> nat \<Rightarrow> u8 list \<Rightarrow> u8 list \<Rightarrow> 'a fs_state_scheme \<Rightarrow>
       ((nat \<times> u8 list) option \<times> 'a fs_state_scheme) outcome" where
  "namex_loop k parent ip path name s =
     (case skipelem path name of
        None \<Rightarrow>
          if parent then and_then (iput k ip s) (\<lambda>s. Inr (None, s)) else Inr (Some (ip, name), s)
      | Some (name, path) \<Rightarrow>
          and_then (ilock k ip s) (\<lambda>s.
            if i_type (inodes s ! ip) \<noteq> T_DIR
            then and_then (iunlockput k ip s) (\<lambda>s. Inr (None, s))
            else if parent \<and> path = []
            then and_then (iunlock ip s) (\<lambda>s. Inr (Some (ip, name), s))
            else and_then (dirlookup k ip name s) (\<lambda>(r, s).
              case r of
                None \<Rightarrow> and_then (iunlockput k ip s) (\<lambda>s. Inr (None, s))
              | Some (nxt, _) \<Rightarrow>
                  and_then (iunlockput k ip s) (\<lambda>s. namex_loop k parent nxt path name s))))"
  by pat_completeness auto
termination
  by (relation "measure (\<lambda>(k, parent, ip, path, name, s). length path)") (auto dest: skipelem_shorter)

text \<open>\<open>namex\<close>: the inode and the name buffer; \<open>name\<close> starts uninitialised.\<close>

definition namex ::
    "'a fs_state_scheme env \<Rightarrow> u8 list \<Rightarrow> bool \<Rightarrow> 'a fs_state_scheme \<Rightarrow>
       ((nat \<times> u8 list) option \<times> 'a fs_state_scheme) outcome" where
  "namex k path parent s =
     and_then
       (if path \<noteq> [] \<and> hd path = slash then iget ROOTDEV ROOTINO s
        else with_proc (\<lambda>i s.
          case p_cwd (procs s ! i) of None \<Rightarrow> Inl (Fault 0) | Some cwd \<Rightarrow> idup cwd s) s) (\<lambda>(ip, s).
       namex_loop k parent ip path (replicate DIRSIZ 0) s)"

definition namei ::
    "'a fs_state_scheme env \<Rightarrow> u8 list \<Rightarrow> 'a fs_state_scheme \<Rightarrow> (nat option \<times> 'a fs_state_scheme) outcome" where
  "namei k path s = and_then (namex k path False s) (\<lambda>(r, s). Inr (map_option fst r, s))"

definition nameiparent ::
    "'a fs_state_scheme env \<Rightarrow> u8 list \<Rightarrow> 'a fs_state_scheme \<Rightarrow>
       ((nat \<times> u8 list) option \<times> 'a fs_state_scheme) outcome" where
  "nameiparent k path s = namex k path True s"

end
