(* ===== verification/File.thy ===== *)
theory File
  imports Dir
begin

text \<open>
  Open files and pipes, \<open>src/file.c\<close> and \<open>src/pipe.c\<close> with \<open>src/file.h\<close>.

  A \<open>struct file\<close> is named by its index in \<open>ftable.file\<close>. A pipe lives in a page of its own
  and is named by the page's address; the heap \<open>pipes\<close> holds the structures. The data of
  \<open>read\<close> and \<open>write\<close> is in the memory of the calling process. The fuel of the waiting loops
  bounds the number of times a process goes to sleep before one byte can be moved.
\<close>

unbundle bit_operations_syntax

datatype ftype = FD_NONE | FD_PIPE | FD_INODE

record kfile =
  f_type :: ftype
  f_ref :: int
  f_readable :: bool
  f_writable :: bool
  f_pipe :: u32
  f_ip :: nat
  f_off :: u32

record pipe =
  pi_data :: "u8 list"
  pi_nread :: u32
  pi_nwrite :: u32
  pi_readopen :: bool
  pi_writeopen :: bool

record file_state = fs_state +
  files :: "kfile list"
  pipes :: "u32 \<Rightarrow> pipe"

abbreviation (input) PIPESIZE :: u32 where "PIPESIZE \<equiv> 512"

definition set_file :: "nat \<Rightarrow> (kfile \<Rightarrow> kfile) \<Rightarrow> 'a file_state_scheme \<Rightarrow> 'a file_state_scheme" where
  "set_file f g s = s\<lparr>files := (files s)[f := g (files s ! f)]\<rparr>"

definition set_pipe :: "u32 \<Rightarrow> (pipe \<Rightarrow> pipe) \<Rightarrow> 'a file_state_scheme \<Rightarrow> 'a file_state_scheme" where
  "set_pipe p g s = s\<lparr>pipes := (pipes s)(p := g (pipes s p))\<rparr>"

lemma file_fields [simp]:
  "files (pushed s) = files s" "pipes (pushed s) = pipes s" "files (popped s) = files s"
  "pipes (popped s) = pipes s" "files (balanced s) = files s" "pipes (balanced s) = pipes s"
  "files (set_lock l f s) = files s" "pipes (set_lock l f s) = pipes s"
  "files (enter l s) = files s" "pipes (enter l s) = pipes s" "files (leave l s) = files s"
  "pipes (leave l s) = pipes s"
  by (simp_all add: enter_def leave_def balanced_def popped_def pushed_def set_lock_def)

lemma file_updates [simp]:
  "here (s\<lparr>files := v0\<rparr>) = here s" "self (s\<lparr>files := v0\<rparr>) = self s"
  "self_cpu (s\<lparr>files := v0\<rparr>) = self_cpu s"
  "running (s\<lparr>files := v0\<rparr>) = running s"
  "cpu_ok (s\<lparr>files := v0\<rparr>) = cpu_ok s"
  "lock_free l (s\<lparr>files := v0\<rparr>) = lock_free l s"
  "lock_held l (s\<lparr>files := v0\<rparr>) = lock_held l s"
  "lock_mine l (s\<lparr>files := v0\<rparr>) = lock_mine l s"
  "here (s\<lparr>pipes := v1\<rparr>) = here s" "self (s\<lparr>pipes := v1\<rparr>) = self s"
  "self_cpu (s\<lparr>pipes := v1\<rparr>) = self_cpu s"
  "running (s\<lparr>pipes := v1\<rparr>) = running s"
  "cpu_ok (s\<lparr>pipes := v1\<rparr>) = cpu_ok s"
  "lock_free l (s\<lparr>pipes := v1\<rparr>) = lock_free l s"
  "lock_held l (s\<lparr>pipes := v1\<rparr>) = lock_held l s"
  "lock_mine l (s\<lparr>pipes := v1\<rparr>) = lock_mine l s"
  by (simp_all add: here_def self_def self_cpu_def running_def cpu_ok_def lock_free_def lock_held_def
      lock_mine_def)

lemma file_commute [simp]:
  "pushed (s\<lparr>files := v0\<rparr>) = (pushed s)\<lparr>files := v0\<rparr>"
  "popped (s\<lparr>files := v0\<rparr>) = (popped s)\<lparr>files := v0\<rparr>"
  "balanced (s\<lparr>files := v0\<rparr>) = (balanced s)\<lparr>files := v0\<rparr>"
  "set_lock l f (s\<lparr>files := v0\<rparr>) = (set_lock l f s)\<lparr>files := v0\<rparr>"
  "pushed (s\<lparr>pipes := v1\<rparr>) = (pushed s)\<lparr>pipes := v1\<rparr>"
  "popped (s\<lparr>pipes := v1\<rparr>) = (popped s)\<lparr>pipes := v1\<rparr>"
  "balanced (s\<lparr>pipes := v1\<rparr>) = (balanced s)\<lparr>pipes := v1\<rparr>"
  "set_lock l f (s\<lparr>pipes := v1\<rparr>) = (set_lock l f s)\<lparr>pipes := v1\<rparr>"
  by (simp_all add: pushed_def popped_def balanced_def set_lock_def)

lemma file_commute_lock [simp]:
  "enter l (s\<lparr>files := v0\<rparr>) = (enter l s)\<lparr>files := v0\<rparr>"
  "leave l (s\<lparr>files := v0\<rparr>) = (leave l s)\<lparr>files := v0\<rparr>"
  "enter l (s\<lparr>pipes := v1\<rparr>) = (enter l s)\<lparr>pipes := v1\<rparr>"
  "leave l (s\<lparr>pipes := v1\<rparr>) = (leave l s)\<lparr>pipes := v1\<rparr>"
  by (simp_all add: enter_def leave_def)

section \<open>Pipes\<close>

definition pipeclose ::
    "u32 \<Rightarrow> bool \<Rightarrow> 'a file_state_scheme \<Rightarrow> ('a file_state_scheme) outcome" where
  "pipeclose p writable s =
     and_then (acquire (L_pipe p) s) (\<lambda>s.
     and_then
       (if writable
        then let s = set_pipe p (\<lambda>x. x\<lparr>pi_writeopen := False\<rparr>) s in wakeup (Ch_nread p) s
        else let s = set_pipe p (\<lambda>x. x\<lparr>pi_readopen := False\<rparr>) s in wakeup (Ch_nwrite p) s) (\<lambda>s.
       if \<not> pi_readopen (pipes s p) \<and> \<not> pi_writeopen (pipes s p)
       then and_then (release (L_pipe p) s) (kfree p)
       else release (L_pipe p) s))"

text \<open>The inner loop of \<open>pipewrite\<close>: \<open>False\<close> when the call ends with -1.\<close>

primrec pipewrite_wait ::
    "nat \<Rightarrow> ('a file_state_scheme \<Rightarrow> 'a file_state_scheme) \<Rightarrow> u32 \<Rightarrow> 'a file_state_scheme \<Rightarrow>
       (bool \<times> 'a file_state_scheme) outcome" where
  "pipewrite_wait 0 swtch p s = Inl OutOfFuel"
| "pipewrite_wait (Suc fuel) swtch p s =
     (if pi_nwrite (pipes s p) = pi_nread (pipes s p) + PIPESIZE
      then and_then
             (if \<not> pi_readopen (pipes s p) then Inr (True, s)
              else with_proc (\<lambda>i s. Inr (p_killed (procs s ! i), s)) s) (\<lambda>(stp, s).
             if stp then and_then (release (L_pipe p) s) (\<lambda>s. Inr (False, s))
             else and_then (wakeup (Ch_nread p) s) (\<lambda>s.
                  and_then (sleep swtch (Ch_nwrite p) (L_pipe p) s) (pipewrite_wait fuel swtch p)))
      else Inr (True, s))"

definition pipe_put :: "u8 \<Rightarrow> pipe \<Rightarrow> pipe" where
  "pipe_put c x =
     x\<lparr>pi_data := (pi_data x)[unat (pi_nwrite x mod PIPESIZE) := c], pi_nwrite := pi_nwrite x + 1\<rparr>"

definition pipewrite_byte ::
    "'a file_state_scheme env \<Rightarrow> u32 \<Rightarrow> u32 \<Rightarrow> nat \<Rightarrow> 'a file_state_scheme \<Rightarrow>
       (int option \<times> 'a file_state_scheme) outcome" where
  "pipewrite_byte k p addr i s =
     and_then (pipewrite_wait (e_fuel k) (e_swtch k) p s) (\<lambda>(ok, s).
       if \<not> ok then Inr (Some (-1), s)
       else and_then (vload8 (addr + of_nat i) s) (\<lambda>c. Inr (None, set_pipe p (pipe_put c) s)))"

definition pipewrite ::
    "'a file_state_scheme env \<Rightarrow> u32 \<Rightarrow> u32 \<Rightarrow> int \<Rightarrow> 'a file_state_scheme \<Rightarrow>
       (int \<times> 'a file_state_scheme) outcome" where
  "pipewrite k p addr n s =
     and_then (acquire (L_pipe p) s) (\<lambda>s.
     and_then (for_until (pipewrite_byte k p addr) [0..<nat n] s) (\<lambda>(r, s).
       case r of Some v \<Rightarrow> Inr (v, s)
       | None \<Rightarrow>
           and_then (wakeup (Ch_nread p) s) (\<lambda>s.
           and_then (release (L_pipe p) s) (\<lambda>s. Inr (n, s)))))"

primrec piperead_wait ::
    "nat \<Rightarrow> ('a file_state_scheme \<Rightarrow> 'a file_state_scheme) \<Rightarrow> u32 \<Rightarrow> 'a file_state_scheme \<Rightarrow>
       (bool \<times> 'a file_state_scheme) outcome" where
  "piperead_wait 0 swtch p s = Inl OutOfFuel"
| "piperead_wait (Suc fuel) swtch p s =
     (if pi_nread (pipes s p) = pi_nwrite (pipes s p) \<and> pi_writeopen (pipes s p)
      then with_proc (\<lambda>i s.
             if p_killed (procs s ! i) then and_then (release (L_pipe p) s) (\<lambda>s. Inr (False, s))
             else and_then (sleep swtch (Ch_nread p) (L_pipe p) s) (piperead_wait fuel swtch p)) s
      else Inr (True, s))"

text \<open>The copying loop with \<open>n\<close> bytes to go and \<open>i\<close> bytes done; the result is the final \<open>i\<close>.\<close>

primrec piperead_loop ::
    "nat \<Rightarrow> nat \<Rightarrow> u32 \<Rightarrow> u32 \<Rightarrow> 'a file_state_scheme \<Rightarrow> (nat \<times> 'a file_state_scheme) outcome" where
  "piperead_loop 0 i p addr s = Inr (i, s)"
| "piperead_loop (Suc n) i p addr s =
     (if pi_nread (pipes s p) = pi_nwrite (pipes s p) then Inr (i, s)
      else
        let c = pi_data (pipes s p) ! unat (pi_nread (pipes s p) mod PIPESIZE);
            s = set_pipe p (\<lambda>x. x\<lparr>pi_nread := pi_nread x + 1\<rparr>) s
        in and_then (vstore8 (addr + of_nat i) c s) (piperead_loop n (Suc i) p addr))"

definition piperead ::
    "'a file_state_scheme env \<Rightarrow> u32 \<Rightarrow> u32 \<Rightarrow> int \<Rightarrow> 'a file_state_scheme \<Rightarrow>
       (int \<times> 'a file_state_scheme) outcome" where
  "piperead k p addr n s =
     and_then (acquire (L_pipe p) s) (\<lambda>s.
     and_then (piperead_wait (e_fuel k) (e_swtch k) p s) (\<lambda>(ok, s).
       if \<not> ok then Inr (-1, s)
       else and_then (piperead_loop (nat n) 0 p addr s) (\<lambda>(i, s).
            and_then (wakeup (Ch_nwrite p) s) (\<lambda>s.
            and_then (release (L_pipe p) s) (\<lambda>s. Inr (int i, s))))))"

section \<open>Open files\<close>

definition fileinit :: "'a machine_scheme \<Rightarrow> 'a machine_scheme" where
  "fileinit s = initlock L_ftable ''ftable'' s"

definition filealloc :: "'a file_state_scheme \<Rightarrow> (nat option \<times> 'a file_state_scheme) outcome" where
  "filealloc s =
     and_then (acquire L_ftable s) (\<lambda>s.
       case scan (\<lambda>f. f_ref f = 0) (files s) of
         Some f \<Rightarrow>
           let s = set_file f (\<lambda>x. x\<lparr>f_ref := 1\<rparr>) s
           in and_then (release L_ftable s) (\<lambda>s. Inr (Some f, s))
       | None \<Rightarrow> and_then (release L_ftable s) (\<lambda>s. Inr (None, s)))"

definition filedup :: "nat \<Rightarrow> 'a file_state_scheme \<Rightarrow> (nat \<times> 'a file_state_scheme) outcome" where
  "filedup f s =
     and_then (acquire L_ftable s) (\<lambda>s.
       if f_ref (files s ! f) < 1 then Inl (Panic ''filedup'')
       else let s = set_file f (\<lambda>x. x\<lparr>f_ref := f_ref x + 1\<rparr>) s
            in and_then (release L_ftable s) (\<lambda>s. Inr (f, s)))"

definition fileclose ::
    "'a file_state_scheme env \<Rightarrow> nat \<Rightarrow> 'a file_state_scheme \<Rightarrow> ('a file_state_scheme) outcome" where
  "fileclose k f s =
     and_then (acquire L_ftable s) (\<lambda>s.
       if f_ref (files s ! f) < 1 then Inl (Panic ''fileclose'')
       else
         let s = set_file f (\<lambda>x. x\<lparr>f_ref := f_ref x - 1\<rparr>) s in
         if f_ref (files s ! f) > 0 then release L_ftable s
         else
           let ff = files s ! f;
               s = set_file f (\<lambda>x. x\<lparr>f_ref := 0, f_type := FD_NONE\<rparr>) s
           in and_then (release L_ftable s) (\<lambda>s.
                if f_type ff = FD_PIPE then pipeclose (f_pipe ff) (f_writable ff) s
                else if f_type ff = FD_INODE
                then and_then (begin_op k s) (\<lambda>s. and_then (iput k (f_ip ff) s) (end_op k))
                else Inr s))"

definition filestat ::
    "'a file_state_scheme env \<Rightarrow> nat \<Rightarrow> u32 \<Rightarrow> 'a file_state_scheme \<Rightarrow>
       (int \<times> 'a file_state_scheme) outcome" where
  "filestat k f st s =
     (if f_type (files s ! f) = FD_INODE
      then let ip = f_ip (files s ! f) in
        and_then (ilock k ip s) (\<lambda>s.
        and_then (stati ip st s) (\<lambda>s.
        and_then (iunlock ip s) (\<lambda>s. Inr (0, s))))
      else Inr (-1, s))"

definition fileread ::
    "'a file_state_scheme env \<Rightarrow> nat \<Rightarrow> u32 \<Rightarrow> int \<Rightarrow> 'a file_state_scheme \<Rightarrow>
       (int \<times> 'a file_state_scheme) outcome" where
  "fileread k f addr n s =
     (if \<not> f_readable (files s ! f) then Inr (-1, s)
      else if f_type (files s ! f) = FD_PIPE then piperead k (f_pipe (files s ! f)) addr n s
      else if f_type (files s ! f) = FD_INODE
      then let ip = f_ip (files s ! f) in
        and_then (ilock k ip s) (\<lambda>s.
        and_then (readi k ip (D_user addr) (f_off (files s ! f)) (word_of_int n) s) (\<lambda>((r, _), s).
          let s = (if r > 0 then set_file f (\<lambda>x. x\<lparr>f_off := f_off x + word_of_int r\<rparr>) s else s)
          in and_then (iunlock ip s) (\<lambda>s. Inr (r, s))))
      else Inl (Panic ''fileread''))"

text \<open>
  The loop of \<open>filewrite\<close> with \<open>i\<close> of \<open>n\<close> bytes written; a round writes at most \<open>max\<close> = 1536
  bytes, and at least one.
\<close>

function filewrite_loop ::
    "'a file_state_scheme env \<Rightarrow> nat \<Rightarrow> u32 \<Rightarrow> nat \<Rightarrow> nat \<Rightarrow> 'a file_state_scheme \<Rightarrow>
       (nat \<times> 'a file_state_scheme) outcome" where
  "filewrite_loop k f addr n i s =
     (if n \<le> i then Inr (i, s)
      else
        let n1 = min (n - i) 1536; ip = f_ip (files s ! f) in
        and_then (begin_op k s) (\<lambda>s.
        and_then (ilock k ip s) (\<lambda>s.
        and_then (writei k ip (S_user (addr + of_nat i)) (f_off (files s ! f)) (of_nat n1) s) (\<lambda>(r, s).
          let s = (if r > 0 then set_file f (\<lambda>x. x\<lparr>f_off := f_off x + word_of_int r\<rparr>) s else s) in
          and_then (iunlock ip s) (\<lambda>s.
          and_then (end_op k s) (\<lambda>s.
            if r < 0 then Inr (i, s)
            else if r \<noteq> int n1 then Inl (Panic ''short filewrite'')
            else filewrite_loop k f addr n (i + n1) s))))))"
  by pat_completeness auto
termination
  by (relation "measure (\<lambda>(k, f, addr, n, i, s). n - i)") (auto simp: min_def)

definition filewrite ::
    "'a file_state_scheme env \<Rightarrow> nat \<Rightarrow> u32 \<Rightarrow> int \<Rightarrow> 'a file_state_scheme \<Rightarrow>
       (int \<times> 'a file_state_scheme) outcome" where
  "filewrite k f addr n s =
     (if \<not> f_writable (files s ! f) then Inr (-1, s)
      else if f_type (files s ! f) = FD_PIPE then pipewrite k (f_pipe (files s ! f)) addr n s
      else if f_type (files s ! f) = FD_INODE
      then and_then (filewrite_loop k f addr (nat n) 0 s) (\<lambda>(i, s).
             Inr (if int i = n then n else -1, s))
      else Inl (Panic ''filewrite''))"

text \<open>
  \<open>pipealloc\<close>; \<open>bad\<close> is the code after its label, with the pipe's page and the two files
  that have been obtained so far.
\<close>

definition pipealloc_bad ::
    "'a file_state_scheme env \<Rightarrow> u32 \<Rightarrow> nat option \<Rightarrow> nat option \<Rightarrow> 'a file_state_scheme \<Rightarrow>
       ((nat \<times> nat) option \<times> 'a file_state_scheme) outcome" where
  "pipealloc_bad k p f0 f1 s =
     and_then (if p \<noteq> 0 then kfree p s else Inr s) (\<lambda>s.
     and_then (case f0 of Some f \<Rightarrow> fileclose k f s | None \<Rightarrow> Inr s) (\<lambda>s.
     and_then (case f1 of Some f \<Rightarrow> fileclose k f s | None \<Rightarrow> Inr s) (\<lambda>s.
       Inr (None, s))))"

definition pipealloc ::
    "'a file_state_scheme env \<Rightarrow> 'a file_state_scheme \<Rightarrow>
       ((nat \<times> nat) option \<times> 'a file_state_scheme) outcome" where
  "pipealloc k s =
     and_then (filealloc s) (\<lambda>(r0, s).
       case r0 of None \<Rightarrow> pipealloc_bad k 0 None None s
       | Some f0 \<Rightarrow>
           and_then (filealloc s) (\<lambda>(r1, s).
             case r1 of None \<Rightarrow> pipealloc_bad k 0 (Some f0) None s
             | Some f1 \<Rightarrow>
                 and_then (kalloc s) (\<lambda>(p, s).
                   if p = 0 then pipealloc_bad k 0 (Some f0) (Some f1) s
                   else
                     let s = set_pipe p (\<lambda>x. x\<lparr>pi_readopen := True, pi_writeopen := True, pi_nwrite := 0,
                                                pi_nread := 0\<rparr>) s;
                         s = initlock (L_pipe p) ''pipe'' s;
                         s = set_file f0 (\<lambda>x. x\<lparr>f_type := FD_PIPE, f_readable := True, f_writable := False,
                                                f_pipe := p\<rparr>) s;
                         s = set_file f1 (\<lambda>x. x\<lparr>f_type := FD_PIPE, f_readable := False, f_writable := True,
                                                f_pipe := p\<rparr>) s
                     in Inr (Some (f0, f1), s))))"

end
