(* ===== verification/Console.thy ===== *)
theory Console
  imports File
begin

text \<open>
  The console and its devices: \<open>src/console.c\<close>, \<open>src/kbd.c\<close> with \<open>src/kbd.h\<close>, and the input
  and output routines of \<open>src/uart.c\<close>.

  The devices are part of the state: \<open>kbd_in\<close> and \<open>uart_in\<close> are the bytes waiting in the
  keyboard controller and in the serial port, \<open>uart_out\<close> what has been sent, \<open>crt\<close> the cells
  of the screen and \<open>crt_pos\<close> the cursor register. The kernel's messages are recorded as
  \<open>printed\<close> (see \<open>Spinlock\<close>); \<open>cprintf_out\<close> is the sequence of characters that \<open>cprintf\<close>
  passes to \<open>consputc\<close> for such a message. \<open>panic\<close> ends a run (\<open>Panic\<close>), so the flag
  \<open>panicked\<close>, which freezes the other CPUs, is not part of the model.
\<close>

unbundle bit_operations_syntax

record console_state = file_state +
  input_buf :: "u8 list"
  input_r :: u32
  input_w :: u32
  input_e :: u32
  crt :: "nat \<Rightarrow> u16"
  crt_pos :: nat
  uart :: bool
  uart_out :: "u8 list"
  uart_in :: "u8 list"
  kbd_in :: "u8 list"
  kbd_shift :: u32

abbreviation (input) INPUT_BUF :: u32 where "INPUT_BUF \<equiv> 128"
abbreviation (input) BACKSPACE :: int where "BACKSPACE \<equiv> 0x100"

lemma console_fields [simp]:
  "input_buf (pushed s) = input_buf s" "input_r (pushed s) = input_r s"
  "input_w (pushed s) = input_w s" "input_e (pushed s) = input_e s" "crt (pushed s) = crt s"
  "crt_pos (pushed s) = crt_pos s" "uart (pushed s) = uart s" "uart_out (pushed s) = uart_out s"
  "uart_in (pushed s) = uart_in s" "kbd_in (pushed s) = kbd_in s"
  "kbd_shift (pushed s) = kbd_shift s" "input_buf (popped s) = input_buf s"
  "input_r (popped s) = input_r s" "input_w (popped s) = input_w s" "input_e (popped s) = input_e s"
  "crt (popped s) = crt s" "crt_pos (popped s) = crt_pos s" "uart (popped s) = uart s"
  "uart_out (popped s) = uart_out s" "uart_in (popped s) = uart_in s" "kbd_in (popped s) = kbd_in s"
  "kbd_shift (popped s) = kbd_shift s" "input_buf (balanced s) = input_buf s"
  "input_r (balanced s) = input_r s" "input_w (balanced s) = input_w s"
  "input_e (balanced s) = input_e s" "crt (balanced s) = crt s" "crt_pos (balanced s) = crt_pos s"
  "uart (balanced s) = uart s" "uart_out (balanced s) = uart_out s"
  "uart_in (balanced s) = uart_in s" "kbd_in (balanced s) = kbd_in s"
  "kbd_shift (balanced s) = kbd_shift s" "input_buf (set_lock l f s) = input_buf s"
  "input_r (set_lock l f s) = input_r s" "input_w (set_lock l f s) = input_w s"
  "input_e (set_lock l f s) = input_e s" "crt (set_lock l f s) = crt s"
  "crt_pos (set_lock l f s) = crt_pos s" "uart (set_lock l f s) = uart s"
  "uart_out (set_lock l f s) = uart_out s" "uart_in (set_lock l f s) = uart_in s"
  "kbd_in (set_lock l f s) = kbd_in s" "kbd_shift (set_lock l f s) = kbd_shift s"
  "input_buf (enter l s) = input_buf s" "input_r (enter l s) = input_r s"
  "input_w (enter l s) = input_w s" "input_e (enter l s) = input_e s" "crt (enter l s) = crt s"
  "crt_pos (enter l s) = crt_pos s" "uart (enter l s) = uart s" "uart_out (enter l s) = uart_out s"
  "uart_in (enter l s) = uart_in s" "kbd_in (enter l s) = kbd_in s"
  "kbd_shift (enter l s) = kbd_shift s" "input_buf (leave l s) = input_buf s"
  "input_r (leave l s) = input_r s" "input_w (leave l s) = input_w s"
  "input_e (leave l s) = input_e s" "crt (leave l s) = crt s" "crt_pos (leave l s) = crt_pos s"
  "uart (leave l s) = uart s" "uart_out (leave l s) = uart_out s" "uart_in (leave l s) = uart_in s"
  "kbd_in (leave l s) = kbd_in s" "kbd_shift (leave l s) = kbd_shift s"
  by (simp_all add: enter_def leave_def balanced_def popped_def pushed_def set_lock_def)

lemma console_updates [simp]:
  "here (s\<lparr>input_buf := v0\<rparr>) = here s"
  "self (s\<lparr>input_buf := v0\<rparr>) = self s"
  "self_cpu (s\<lparr>input_buf := v0\<rparr>) = self_cpu s"
  "running (s\<lparr>input_buf := v0\<rparr>) = running s"
  "cpu_ok (s\<lparr>input_buf := v0\<rparr>) = cpu_ok s"
  "lock_free l (s\<lparr>input_buf := v0\<rparr>) = lock_free l s"
  "lock_held l (s\<lparr>input_buf := v0\<rparr>) = lock_held l s"
  "lock_mine l (s\<lparr>input_buf := v0\<rparr>) = lock_mine l s"
  "here (s\<lparr>input_r := v1\<rparr>) = here s" "self (s\<lparr>input_r := v1\<rparr>) = self s"
  "self_cpu (s\<lparr>input_r := v1\<rparr>) = self_cpu s"
  "running (s\<lparr>input_r := v1\<rparr>) = running s"
  "cpu_ok (s\<lparr>input_r := v1\<rparr>) = cpu_ok s"
  "lock_free l (s\<lparr>input_r := v1\<rparr>) = lock_free l s"
  "lock_held l (s\<lparr>input_r := v1\<rparr>) = lock_held l s"
  "lock_mine l (s\<lparr>input_r := v1\<rparr>) = lock_mine l s"
  "here (s\<lparr>input_w := v2\<rparr>) = here s" "self (s\<lparr>input_w := v2\<rparr>) = self s"
  "self_cpu (s\<lparr>input_w := v2\<rparr>) = self_cpu s"
  "running (s\<lparr>input_w := v2\<rparr>) = running s"
  "cpu_ok (s\<lparr>input_w := v2\<rparr>) = cpu_ok s"
  "lock_free l (s\<lparr>input_w := v2\<rparr>) = lock_free l s"
  "lock_held l (s\<lparr>input_w := v2\<rparr>) = lock_held l s"
  "lock_mine l (s\<lparr>input_w := v2\<rparr>) = lock_mine l s"
  "here (s\<lparr>input_e := v3\<rparr>) = here s" "self (s\<lparr>input_e := v3\<rparr>) = self s"
  "self_cpu (s\<lparr>input_e := v3\<rparr>) = self_cpu s"
  "running (s\<lparr>input_e := v3\<rparr>) = running s"
  "cpu_ok (s\<lparr>input_e := v3\<rparr>) = cpu_ok s"
  "lock_free l (s\<lparr>input_e := v3\<rparr>) = lock_free l s"
  "lock_held l (s\<lparr>input_e := v3\<rparr>) = lock_held l s"
  "lock_mine l (s\<lparr>input_e := v3\<rparr>) = lock_mine l s"
  "here (s\<lparr>crt := v4\<rparr>) = here s" "self (s\<lparr>crt := v4\<rparr>) = self s"
  "self_cpu (s\<lparr>crt := v4\<rparr>) = self_cpu s"
  "running (s\<lparr>crt := v4\<rparr>) = running s"
  "cpu_ok (s\<lparr>crt := v4\<rparr>) = cpu_ok s"
  "lock_free l (s\<lparr>crt := v4\<rparr>) = lock_free l s"
  "lock_held l (s\<lparr>crt := v4\<rparr>) = lock_held l s"
  "lock_mine l (s\<lparr>crt := v4\<rparr>) = lock_mine l s"
  "here (s\<lparr>crt_pos := v5\<rparr>) = here s" "self (s\<lparr>crt_pos := v5\<rparr>) = self s"
  "self_cpu (s\<lparr>crt_pos := v5\<rparr>) = self_cpu s"
  "running (s\<lparr>crt_pos := v5\<rparr>) = running s"
  "cpu_ok (s\<lparr>crt_pos := v5\<rparr>) = cpu_ok s"
  "lock_free l (s\<lparr>crt_pos := v5\<rparr>) = lock_free l s"
  "lock_held l (s\<lparr>crt_pos := v5\<rparr>) = lock_held l s"
  "lock_mine l (s\<lparr>crt_pos := v5\<rparr>) = lock_mine l s"
  "here (s\<lparr>uart := v6\<rparr>) = here s" "self (s\<lparr>uart := v6\<rparr>) = self s"
  "self_cpu (s\<lparr>uart := v6\<rparr>) = self_cpu s"
  "running (s\<lparr>uart := v6\<rparr>) = running s"
  "cpu_ok (s\<lparr>uart := v6\<rparr>) = cpu_ok s"
  "lock_free l (s\<lparr>uart := v6\<rparr>) = lock_free l s"
  "lock_held l (s\<lparr>uart := v6\<rparr>) = lock_held l s"
  "lock_mine l (s\<lparr>uart := v6\<rparr>) = lock_mine l s"
  "here (s\<lparr>uart_out := v7\<rparr>) = here s"
  "self (s\<lparr>uart_out := v7\<rparr>) = self s"
  "self_cpu (s\<lparr>uart_out := v7\<rparr>) = self_cpu s"
  "running (s\<lparr>uart_out := v7\<rparr>) = running s"
  "cpu_ok (s\<lparr>uart_out := v7\<rparr>) = cpu_ok s"
  "lock_free l (s\<lparr>uart_out := v7\<rparr>) = lock_free l s"
  "lock_held l (s\<lparr>uart_out := v7\<rparr>) = lock_held l s"
  "lock_mine l (s\<lparr>uart_out := v7\<rparr>) = lock_mine l s"
  "here (s\<lparr>uart_in := v8\<rparr>) = here s" "self (s\<lparr>uart_in := v8\<rparr>) = self s"
  "self_cpu (s\<lparr>uart_in := v8\<rparr>) = self_cpu s"
  "running (s\<lparr>uart_in := v8\<rparr>) = running s"
  "cpu_ok (s\<lparr>uart_in := v8\<rparr>) = cpu_ok s"
  "lock_free l (s\<lparr>uart_in := v8\<rparr>) = lock_free l s"
  "lock_held l (s\<lparr>uart_in := v8\<rparr>) = lock_held l s"
  "lock_mine l (s\<lparr>uart_in := v8\<rparr>) = lock_mine l s"
  "here (s\<lparr>kbd_in := v9\<rparr>) = here s" "self (s\<lparr>kbd_in := v9\<rparr>) = self s"
  "self_cpu (s\<lparr>kbd_in := v9\<rparr>) = self_cpu s"
  "running (s\<lparr>kbd_in := v9\<rparr>) = running s"
  "cpu_ok (s\<lparr>kbd_in := v9\<rparr>) = cpu_ok s"
  "lock_free l (s\<lparr>kbd_in := v9\<rparr>) = lock_free l s"
  "lock_held l (s\<lparr>kbd_in := v9\<rparr>) = lock_held l s"
  "lock_mine l (s\<lparr>kbd_in := v9\<rparr>) = lock_mine l s"
  "here (s\<lparr>kbd_shift := v10\<rparr>) = here s"
  "self (s\<lparr>kbd_shift := v10\<rparr>) = self s"
  "self_cpu (s\<lparr>kbd_shift := v10\<rparr>) = self_cpu s"
  "running (s\<lparr>kbd_shift := v10\<rparr>) = running s"
  "cpu_ok (s\<lparr>kbd_shift := v10\<rparr>) = cpu_ok s"
  "lock_free l (s\<lparr>kbd_shift := v10\<rparr>) = lock_free l s"
  "lock_held l (s\<lparr>kbd_shift := v10\<rparr>) = lock_held l s"
  "lock_mine l (s\<lparr>kbd_shift := v10\<rparr>) = lock_mine l s"
  by (simp_all add: here_def self_def self_cpu_def running_def cpu_ok_def lock_free_def lock_held_def
      lock_mine_def)

lemma console_commute [simp]:
  "pushed (s\<lparr>input_buf := v0\<rparr>) = (pushed s)\<lparr>input_buf := v0\<rparr>"
  "popped (s\<lparr>input_buf := v0\<rparr>) = (popped s)\<lparr>input_buf := v0\<rparr>"
  "balanced (s\<lparr>input_buf := v0\<rparr>) = (balanced s)\<lparr>input_buf := v0\<rparr>"
  "set_lock l f (s\<lparr>input_buf := v0\<rparr>) = (set_lock l f s)\<lparr>input_buf := v0\<rparr>"
  "pushed (s\<lparr>input_r := v1\<rparr>) = (pushed s)\<lparr>input_r := v1\<rparr>"
  "popped (s\<lparr>input_r := v1\<rparr>) = (popped s)\<lparr>input_r := v1\<rparr>"
  "balanced (s\<lparr>input_r := v1\<rparr>) = (balanced s)\<lparr>input_r := v1\<rparr>"
  "set_lock l f (s\<lparr>input_r := v1\<rparr>) = (set_lock l f s)\<lparr>input_r := v1\<rparr>"
  "pushed (s\<lparr>input_w := v2\<rparr>) = (pushed s)\<lparr>input_w := v2\<rparr>"
  "popped (s\<lparr>input_w := v2\<rparr>) = (popped s)\<lparr>input_w := v2\<rparr>"
  "balanced (s\<lparr>input_w := v2\<rparr>) = (balanced s)\<lparr>input_w := v2\<rparr>"
  "set_lock l f (s\<lparr>input_w := v2\<rparr>) = (set_lock l f s)\<lparr>input_w := v2\<rparr>"
  "pushed (s\<lparr>input_e := v3\<rparr>) = (pushed s)\<lparr>input_e := v3\<rparr>"
  "popped (s\<lparr>input_e := v3\<rparr>) = (popped s)\<lparr>input_e := v3\<rparr>"
  "balanced (s\<lparr>input_e := v3\<rparr>) = (balanced s)\<lparr>input_e := v3\<rparr>"
  "set_lock l f (s\<lparr>input_e := v3\<rparr>) = (set_lock l f s)\<lparr>input_e := v3\<rparr>"
  "pushed (s\<lparr>crt := v4\<rparr>) = (pushed s)\<lparr>crt := v4\<rparr>"
  "popped (s\<lparr>crt := v4\<rparr>) = (popped s)\<lparr>crt := v4\<rparr>"
  "balanced (s\<lparr>crt := v4\<rparr>) = (balanced s)\<lparr>crt := v4\<rparr>"
  "set_lock l f (s\<lparr>crt := v4\<rparr>) = (set_lock l f s)\<lparr>crt := v4\<rparr>"
  "pushed (s\<lparr>crt_pos := v5\<rparr>) = (pushed s)\<lparr>crt_pos := v5\<rparr>"
  "popped (s\<lparr>crt_pos := v5\<rparr>) = (popped s)\<lparr>crt_pos := v5\<rparr>"
  "balanced (s\<lparr>crt_pos := v5\<rparr>) = (balanced s)\<lparr>crt_pos := v5\<rparr>"
  "set_lock l f (s\<lparr>crt_pos := v5\<rparr>) = (set_lock l f s)\<lparr>crt_pos := v5\<rparr>"
  "pushed (s\<lparr>uart := v6\<rparr>) = (pushed s)\<lparr>uart := v6\<rparr>"
  "popped (s\<lparr>uart := v6\<rparr>) = (popped s)\<lparr>uart := v6\<rparr>"
  "balanced (s\<lparr>uart := v6\<rparr>) = (balanced s)\<lparr>uart := v6\<rparr>"
  "set_lock l f (s\<lparr>uart := v6\<rparr>) = (set_lock l f s)\<lparr>uart := v6\<rparr>"
  "pushed (s\<lparr>uart_out := v7\<rparr>) = (pushed s)\<lparr>uart_out := v7\<rparr>"
  "popped (s\<lparr>uart_out := v7\<rparr>) = (popped s)\<lparr>uart_out := v7\<rparr>"
  "balanced (s\<lparr>uart_out := v7\<rparr>) = (balanced s)\<lparr>uart_out := v7\<rparr>"
  "set_lock l f (s\<lparr>uart_out := v7\<rparr>) = (set_lock l f s)\<lparr>uart_out := v7\<rparr>"
  "pushed (s\<lparr>uart_in := v8\<rparr>) = (pushed s)\<lparr>uart_in := v8\<rparr>"
  "popped (s\<lparr>uart_in := v8\<rparr>) = (popped s)\<lparr>uart_in := v8\<rparr>"
  "balanced (s\<lparr>uart_in := v8\<rparr>) = (balanced s)\<lparr>uart_in := v8\<rparr>"
  "set_lock l f (s\<lparr>uart_in := v8\<rparr>) = (set_lock l f s)\<lparr>uart_in := v8\<rparr>"
  "pushed (s\<lparr>kbd_in := v9\<rparr>) = (pushed s)\<lparr>kbd_in := v9\<rparr>"
  "popped (s\<lparr>kbd_in := v9\<rparr>) = (popped s)\<lparr>kbd_in := v9\<rparr>"
  "balanced (s\<lparr>kbd_in := v9\<rparr>) = (balanced s)\<lparr>kbd_in := v9\<rparr>"
  "set_lock l f (s\<lparr>kbd_in := v9\<rparr>) = (set_lock l f s)\<lparr>kbd_in := v9\<rparr>"
  "pushed (s\<lparr>kbd_shift := v10\<rparr>) = (pushed s)\<lparr>kbd_shift := v10\<rparr>"
  "popped (s\<lparr>kbd_shift := v10\<rparr>) = (popped s)\<lparr>kbd_shift := v10\<rparr>"
  "balanced (s\<lparr>kbd_shift := v10\<rparr>) = (balanced s)\<lparr>kbd_shift := v10\<rparr>"
  "set_lock l f (s\<lparr>kbd_shift := v10\<rparr>) = (set_lock l f s)\<lparr>kbd_shift := v10\<rparr>"
  by (simp_all add: pushed_def popped_def balanced_def set_lock_def)

lemma console_commute_lock [simp]:
  "enter l (s\<lparr>input_buf := v0\<rparr>) = (enter l s)\<lparr>input_buf := v0\<rparr>"
  "leave l (s\<lparr>input_buf := v0\<rparr>) = (leave l s)\<lparr>input_buf := v0\<rparr>"
  "enter l (s\<lparr>input_r := v1\<rparr>) = (enter l s)\<lparr>input_r := v1\<rparr>"
  "leave l (s\<lparr>input_r := v1\<rparr>) = (leave l s)\<lparr>input_r := v1\<rparr>"
  "enter l (s\<lparr>input_w := v2\<rparr>) = (enter l s)\<lparr>input_w := v2\<rparr>"
  "leave l (s\<lparr>input_w := v2\<rparr>) = (leave l s)\<lparr>input_w := v2\<rparr>"
  "enter l (s\<lparr>input_e := v3\<rparr>) = (enter l s)\<lparr>input_e := v3\<rparr>"
  "leave l (s\<lparr>input_e := v3\<rparr>) = (leave l s)\<lparr>input_e := v3\<rparr>"
  "enter l (s\<lparr>crt := v4\<rparr>) = (enter l s)\<lparr>crt := v4\<rparr>"
  "leave l (s\<lparr>crt := v4\<rparr>) = (leave l s)\<lparr>crt := v4\<rparr>"
  "enter l (s\<lparr>crt_pos := v5\<rparr>) = (enter l s)\<lparr>crt_pos := v5\<rparr>"
  "leave l (s\<lparr>crt_pos := v5\<rparr>) = (leave l s)\<lparr>crt_pos := v5\<rparr>"
  "enter l (s\<lparr>uart := v6\<rparr>) = (enter l s)\<lparr>uart := v6\<rparr>"
  "leave l (s\<lparr>uart := v6\<rparr>) = (leave l s)\<lparr>uart := v6\<rparr>"
  "enter l (s\<lparr>uart_out := v7\<rparr>) = (enter l s)\<lparr>uart_out := v7\<rparr>"
  "leave l (s\<lparr>uart_out := v7\<rparr>) = (leave l s)\<lparr>uart_out := v7\<rparr>"
  "enter l (s\<lparr>uart_in := v8\<rparr>) = (enter l s)\<lparr>uart_in := v8\<rparr>"
  "leave l (s\<lparr>uart_in := v8\<rparr>) = (leave l s)\<lparr>uart_in := v8\<rparr>"
  "enter l (s\<lparr>kbd_in := v9\<rparr>) = (enter l s)\<lparr>kbd_in := v9\<rparr>"
  "leave l (s\<lparr>kbd_in := v9\<rparr>) = (leave l s)\<lparr>kbd_in := v9\<rparr>"
  "enter l (s\<lparr>kbd_shift := v10\<rparr>) = (enter l s)\<lparr>kbd_shift := v10\<rparr>"
  "leave l (s\<lparr>kbd_shift := v10\<rparr>) = (leave l s)\<lparr>kbd_shift := v10\<rparr>"
  by (simp_all add: enter_def leave_def)

section \<open>Formatting\<close>

definition digit :: "nat \<Rightarrow> u8" where
  "digit d = of_char (''0123456789abcdef'' ! d)"

function digits :: "nat \<Rightarrow> nat \<Rightarrow> u8 list" where
  "digits base x =
     (if base \<le> 1 \<or> x < base then [digit x] else digits base (x div base) @ [digit (x mod base)])"
  by pat_completeness auto
termination
  by (relation "measure snd") auto

declare digits.simps [simp del]

text \<open>\<open>printint\<close> for a base of at least 2, as \<open>cprintf\<close> calls it.\<close>

definition printint :: "u32 \<Rightarrow> nat \<Rightarrow> bool \<Rightarrow> u8 list" where
  "printint xx base sign =
     (let neg = (sign \<and> xx <s 0); x = (if neg then - xx else xx)
      in (if neg then [45] else []) @ digits base (unat x))"

definition arg_word :: "karg \<Rightarrow> u32" where
  "arg_word a = (case a of A_int n \<Rightarrow> word_of_int n | A_hex w \<Rightarrow> w | A_str _ \<Rightarrow> 0 | A_name _ \<Rightarrow> 0)"

definition arg_chars :: "karg \<Rightarrow> u8 list" where
  "arg_chars a =
     (case a of A_str xs \<Rightarrow> takeWhile (\<lambda>c. c \<noteq> 0) xs | A_name t \<Rightarrow> map of_char t
      | _ \<Rightarrow> map of_char ''(null)'')"

text \<open>A conversion with no argument left reads past the arguments in C; here it prints nothing.\<close>

fun cprintf_out :: "string \<Rightarrow> karg list \<Rightarrow> u8 list" where
  "cprintf_out [] args = []"
| "cprintf_out [c] args = (if c = CHR 0x25 then [] else [of_char c])"
| "cprintf_out (c # d # cs) args =
     (if c \<noteq> CHR 0x25 then of_char c # cprintf_out (d # cs) args
      else if d \<in> {CHR ''d'', CHR ''x'', CHR ''p'', CHR ''s''} then
        (case args of
           [] \<Rightarrow> cprintf_out cs []
         | a # as \<Rightarrow>
             (if d = CHR ''d'' then printint (arg_word a) 10 True
              else if d = CHR ''s'' then arg_chars a
              else printint (arg_word a) 16 False) @ cprintf_out cs as)
      else if d = CHR 0x25 then of_char d # cprintf_out cs args
      else of_char c # of_char d # cprintf_out cs args)"

section \<open>Output\<close>

definition uartputc :: "int \<Rightarrow> 'a console_state_scheme \<Rightarrow> 'a console_state_scheme" where
  "uartputc c s = (if \<not> uart s then s else s\<lparr>uart_out := uart_out s @ [word_of_int c]\<rparr>)"

definition cgaputc :: "int \<Rightarrow> 'a console_state_scheme \<Rightarrow> ('a console_state_scheme) outcome" where
  "cgaputc c s =
     (let pos = crt_pos s;
          (pos, s) = (if c = 10 then (pos + (80 - pos mod 80), s)
                      else if c = BACKSPACE then (if pos > 0 then pos - 1 else pos, s)
                      else (pos + 1, s\<lparr>crt := (crt s)(pos := (word_of_int c AND 0xff) OR 0x0700)\<rparr>))
      in if pos > 25 * 80 then Inl (Panic ''pos under/overflow'')
         else
           let (pos, s) =
                 (if pos div 80 \<ge> 24
                  then let s = s\<lparr>crt := \<lambda>i. if i < 23 * 80 then crt s (i + 80) else crt s i\<rparr>;
                           pos = pos - 80
                       in (pos, s\<lparr>crt := \<lambda>i. if pos \<le> i \<and> i < 24 * 80 then 0 else crt s i\<rparr>)
                  else (pos, s));
               s = s\<lparr>crt_pos := pos\<rparr>
           in Inr (s\<lparr>crt := (crt s)(pos := 0x0720)\<rparr>))"

definition consputc :: "int \<Rightarrow> 'a console_state_scheme \<Rightarrow> ('a console_state_scheme) outcome" where
  "consputc c s =
     (let s = (if c = BACKSPACE then uartputc 8 (uartputc 32 (uartputc 8 s)) else uartputc c s)
      in cgaputc c s)"

section \<open>Input\<close>

definition keymap :: "u32 list \<Rightarrow> (u8 \<times> u32) list \<Rightarrow> u8 \<Rightarrow> u32" where
  "keymap xs ys d =
     (case map_of ys d of Some v \<Rightarrow> v | None \<Rightarrow> if unat d < length xs then xs ! unat d else 0)"

definition shiftcode :: "u8 \<Rightarrow> u32" where
  "shiftcode d =
     (case map_of [(29, 2), (42, 1), (54, 1), (56, 4), (157, 2), (184, 4)] d of
        Some v \<Rightarrow> v | None \<Rightarrow> 0)"

definition togglecode :: "u8 \<Rightarrow> u32" where
  "togglecode d =
     (case map_of [(58, 8), (69, 16), (70, 32)] d of
        Some v \<Rightarrow> v | None \<Rightarrow> 0)"

definition normalmap :: "u8 \<Rightarrow> u32" where
  "normalmap d =
     keymap [
      0, 27, 49, 50, 51, 52, 53, 54, 55, 56, 57, 48, 45, 61, 8, 9, 113, 119, 101, 114, 116, 121,
      117, 105, 111, 112, 91, 93, 10, 0, 97, 115, 100, 102, 103, 104, 106, 107, 108, 59, 39, 96,
      0, 92, 122, 120, 99, 118, 98, 110, 109, 44, 46, 47, 0, 42, 0, 32, 0, 0, 0, 0, 0, 0, 0, 0,
      0, 0, 0, 0, 0, 55, 56, 57, 45, 52, 53, 54, 43, 49, 50, 51, 48, 46, 0, 0, 0, 0]
       [
      (156, 10), (181, 47), (200, 226), (208, 227), (201, 230), (209, 231), (203, 228),
      (205, 229), (151, 224), (207, 225), (210, 232), (211, 233)] d"

definition shiftmap :: "u8 \<Rightarrow> u32" where
  "shiftmap d =
     keymap [
      0, 27, 33, 64, 35, 36, 37, 94, 38, 42, 40, 41, 95, 43, 8, 9, 81, 87, 69, 82, 84, 89, 85,
      73, 79, 80, 123, 125, 10, 0, 65, 83, 68, 70, 71, 72, 74, 75, 76, 58, 34, 126, 0, 124, 90,
      88, 67, 86, 66, 78, 77, 60, 62, 63, 0, 42, 0, 32, 0, 0, 0, 0, 0, 0, 0, 0, 0, 0, 0, 0, 0,
      55, 56, 57, 45, 52, 53, 54, 43, 49, 50, 51, 48, 46, 0, 0, 0, 0]
       [
      (156, 10), (181, 47), (200, 226), (208, 227), (201, 230), (209, 231), (203, 228),
      (205, 229), (151, 224), (207, 225), (210, 232), (211, 233)] d"

definition ctlmap :: "u8 \<Rightarrow> u32" where
  "ctlmap d =
     keymap [
      0, 0, 0, 0, 0, 0, 0, 0, 0, 0, 0, 0, 0, 0, 0, 0, 17, 23, 5, 18, 20, 25, 21, 9, 15, 16, 0, 0,
      13, 0, 1, 19, 4, 6, 7, 8, 10, 11, 12, 0, 0, 0, 0, 28, 26, 24, 3, 22, 2, 14, 13, 0, 0, 239,
      0, 0]
       [
      (156, 13), (181, 239), (200, 226), (208, 227), (201, 230), (209, 231), (203, 228),
      (205, 229), (151, 224), (207, 225), (210, 232), (211, 233)] d"

text \<open>\<open>kbdgetc\<close>: the status port says whether a byte waits, the data port takes it.\<close>

definition kbd_char :: "u32 \<Rightarrow> u8 \<Rightarrow> int \<times> u32" where
  "kbd_char shift data =
     (let shift = shift OR shiftcode data;
          shift = shift XOR togglecode data;
          c = (if shift AND 3 = 0 then normalmap data else if shift AND 3 = 1 then shiftmap data else ctlmap data);
          c = (if shift AND 8 \<noteq> 0
               then (if 97 \<le> c \<and> c \<le> 122 then c - 32 else if 65 \<le> c \<and> c \<le> 90 then c + 32 else c)
               else c)
      in (uint c, shift))"

definition kbdgetc :: "'a console_state_scheme \<Rightarrow> int \<times> 'a console_state_scheme" where
  "kbdgetc s =
     (case kbd_in s of
        [] \<Rightarrow> (-1, s)
      | data # ds \<Rightarrow>
          let s = s\<lparr>kbd_in := ds\<rparr>; shift = kbd_shift s in
          if data = 0xE0 then (0, s\<lparr>kbd_shift := shift OR 64\<rparr>)
          else if data AND 0x80 \<noteq> 0 then
            let data = (if shift AND 64 \<noteq> 0 then data else data AND 0x7F)
            in (0, s\<lparr>kbd_shift := shift AND NOT (shiftcode data OR 64)\<rparr>)
          else
            let (data, shift) = (if shift AND 64 \<noteq> 0 then (data OR 0x80, shift AND NOT 64) else (data, shift));
                (c, shift) = kbd_char shift data
            in (c, s\<lparr>kbd_shift := shift\<rparr>))"

definition uartgetc :: "'a console_state_scheme \<Rightarrow> int \<times> 'a console_state_scheme" where
  "uartgetc s =
     (if \<not> uart s then (-1, s)
      else case uart_in s of [] \<Rightarrow> (-1, s) | c # cs \<Rightarrow> (uint c, s\<lparr>uart_in := cs\<rparr>))"

text \<open>The loop behind control-U, with fuel for the bytes of the buffer.\<close>

primrec kill_line :: "nat \<Rightarrow> 'a console_state_scheme \<Rightarrow> ('a console_state_scheme) outcome" where
  "kill_line 0 s = Inl OutOfFuel"
| "kill_line (Suc n) s =
     (if input_e s \<noteq> input_w s \<and> input_buf s ! unat ((input_e s - 1) mod INPUT_BUF) \<noteq> 10
      then let s = s\<lparr>input_e := input_e s - 1\<rparr> in and_then (consputc BACKSPACE s) (kill_line n)
      else Inr s)"

definition consoleintr_char ::
    "int \<Rightarrow> 'a console_state_scheme \<Rightarrow> ('a console_state_scheme) outcome" where
  "consoleintr_char c s =
     (if c = 21 then kill_line 129 s
      else if c = 8 \<or> c = 127 then
        (if input_e s \<noteq> input_w s
         then let s = s\<lparr>input_e := input_e s - 1\<rparr> in consputc BACKSPACE s
         else Inr s)
      else if c \<noteq> 0 \<and> input_e s - input_r s < INPUT_BUF then
        let c = (if c = 13 then 10 else c);
            s = s\<lparr>input_buf := (input_buf s)[unat (input_e s mod INPUT_BUF) := word_of_int c],
                  input_e := input_e s + 1\<rparr>
        in and_then (consputc c s) (\<lambda>s.
             if c = 10 \<or> c = 4 \<or> input_e s = input_r s + INPUT_BUF
             then wakeup Ch_input (s\<lparr>input_w := input_e s\<rparr>)
             else Inr s)
      else Inr s)"

text \<open>The fuel of the loop bounds the number of characters that one interrupt delivers.\<close>

primrec consoleintr_loop ::
    "nat \<Rightarrow> ('a console_state_scheme \<Rightarrow> int \<times> 'a console_state_scheme) \<Rightarrow> bool \<Rightarrow> 'a console_state_scheme \<Rightarrow>
       (bool \<times> 'a console_state_scheme) outcome" where
  "consoleintr_loop 0 getc dump s = Inl OutOfFuel"
| "consoleintr_loop (Suc n) getc dump s =
     (let (c, s) = getc s in
      if c < 0 then Inr (dump, s)
      else if c = 16 then consoleintr_loop n getc True s
      else and_then (consoleintr_char c s) (consoleintr_loop n getc dump))"

definition consoleintr ::
    "nat \<Rightarrow> ('a console_state_scheme \<Rightarrow> int \<times> 'a console_state_scheme) \<Rightarrow> 'a console_state_scheme \<Rightarrow>
       ('a console_state_scheme) outcome" where
  "consoleintr fuel getc s =
     and_then (acquire L_cons s) (\<lambda>s.
     and_then (consoleintr_loop fuel getc False s) (\<lambda>(doprocdump, s).
     and_then (release L_cons s) (\<lambda>s.
       Inr (if doprocdump then procdump s else s))))"

definition kbdintr :: "'a console_state_scheme \<Rightarrow> ('a console_state_scheme) outcome" where
  "kbdintr s = consoleintr (Suc (length (kbd_in s))) kbdgetc s"

definition uartintr :: "'a console_state_scheme \<Rightarrow> ('a console_state_scheme) outcome" where
  "uartintr s = consoleintr (Suc (length (uart_in s))) uartgetc s"

section \<open>The console as a device file\<close>

primrec consoleread_wait ::
    "nat \<Rightarrow> ('a console_state_scheme \<Rightarrow> 'a console_state_scheme) \<Rightarrow> 'a console_state_scheme \<Rightarrow>
       (bool \<times> 'a console_state_scheme) outcome" where
  "consoleread_wait 0 swtch s = Inl OutOfFuel"
| "consoleread_wait (Suc n) swtch s =
     (if input_r s = input_w s
      then with_proc (\<lambda>i s.
             if p_killed (procs s ! i) then Inr (False, s)
             else and_then (sleep swtch Ch_input L_cons s) (consoleread_wait n swtch)) s
      else Inr (True, s))"

text \<open>
  The loop with \<open>n\<close> bytes to go, \<open>xs\<close> read so far: \<open>None\<close> when the process was killed.
\<close>

primrec consoleread_loop ::
    "nat \<Rightarrow> 'a console_state_scheme env \<Rightarrow> kdst \<Rightarrow> u8 list \<Rightarrow> 'a console_state_scheme \<Rightarrow>
       (u8 list option \<times> 'a console_state_scheme) outcome" where
  "consoleread_loop 0 k dst xs s = Inr (Some xs, s)"
| "consoleread_loop (Suc n) k dst xs s =
     and_then (consoleread_wait (e_fuel k) (e_swtch k) s) (\<lambda>(ok, s).
       if \<not> ok then Inr (None, s)
       else
         let c = input_buf s ! unat (input_r s mod INPUT_BUF);
             s = s\<lparr>input_r := input_r s + 1\<rparr>
         in if c = 4
            then Inr (Some xs, if xs \<noteq> [] then s\<lparr>input_r := input_r s - 1\<rparr> else s)
            else and_then (store_bytes dst [c] s) (\<lambda>s.
              if c = 10 then Inr (Some (xs @ [c]), s)
              else consoleread_loop n k (next_dst 1 dst) (xs @ [c]) s))"

definition consoleread ::
    "'a console_state_scheme env \<Rightarrow> nat \<Rightarrow> kdst \<Rightarrow> u32 \<Rightarrow> 'a console_state_scheme \<Rightarrow>
       ((int \<times> u8 list) \<times> 'a console_state_scheme) outcome" where
  "consoleread k ip dst n s =
     and_then (iunlock ip s) (\<lambda>s.
     and_then (acquire L_cons s) (\<lambda>s.
     and_then (consoleread_loop (nat (sint n)) k dst [] s) (\<lambda>(r, s).
     and_then (release L_cons s) (\<lambda>s.
     and_then (ilock k ip s) (\<lambda>s.
       Inr (case r of Some xs \<Rightarrow> (int (length xs), xs) | None \<Rightarrow> (-1, []), s))))))"

definition consolewrite ::
    "'a console_state_scheme env \<Rightarrow> nat \<Rightarrow> ksrc \<Rightarrow> u32 \<Rightarrow> 'a console_state_scheme \<Rightarrow>
       (int \<times> 'a console_state_scheme) outcome" where
  "consolewrite k ip src n s =
     and_then (iunlock ip s) (\<lambda>s.
     and_then (acquire L_cons s) (\<lambda>s.
     and_then (for_each (\<lambda>i s.
         and_then (load_bytes (next_src i src) 1 s) (\<lambda>c. consputc (uint (hd c)) s)) [0..<nat (sint n)] s) (\<lambda>s.
     and_then (release L_cons s) (\<lambda>s.
     and_then (ilock k ip s) (\<lambda>s. Inr (sint n, s))))))"

text \<open>
  The device table that \<open>consoleinit\<close> sets up: the console is device 1. The routines use
  only the scheduling part of their own environment.
\<close>

definition console_env ::
    "('a console_state_scheme \<Rightarrow> 'a console_state_scheme) \<Rightarrow> nat \<Rightarrow> 'a console_state_scheme env" where
  "console_env swtch fuel =
     (let k = \<lparr>e_swtch = swtch, e_fuel = fuel, e_devread = \<lambda>_. None, e_devwrite = \<lambda>_. None\<rparr>
      in k\<lparr>e_devread := \<lambda>m. if m = 1 then Some (consoleread k) else None,
           e_devwrite := \<lambda>m. if m = 1 then Some (consolewrite k) else None\<rparr>)"

definition consoleinit :: "'a machine_scheme \<Rightarrow> 'a machine_scheme" where
  "consoleinit s = initlock L_cons ''console'' s"

end
