(* ===== verification/Exec.thy ===== *)
theory Exec
  imports File
begin

text \<open>
  Program loading: \<open>src/exec.c\<close>, \<open>loaduvm\<close> of \<open>src/vm.c\<close> and the layouts of \<open>src/elf.h\<close>.

  The path and the argument strings are given by their bytes. The code after the label
  \<open>bad\<close> is \<open>exec_bad\<close>; the loops that can jump there return \<open>None\<close>.
  Of the headers of the file, \<open>elfhdr\<close> and \<open>proghdr\<close> keep the fields that \<open>exec\<close> reads.
\<close>

unbundle bit_operations_syntax

record elfhdr =
  elf_magic :: u32
  elf_entry :: u32
  elf_phoff :: u32
  elf_phnum :: u16

record proghdr =
  ph_type :: u32
  ph_off :: u32
  ph_vaddr :: u32
  ph_filesz :: u32
  ph_memsz :: u32

abbreviation (input) ELF_MAGIC :: u32 where "ELF_MAGIC \<equiv> 0x464C457F"
abbreviation (input) MAXARG :: nat where "MAXARG \<equiv> 32"

definition decode_elf :: "u8 list \<Rightarrow> elfhdr" where
  "decode_elf d = \<lparr>elf_magic = get32 d 0, elf_entry = get32 d 24, elf_phoff = get32 d 28, elf_phnum = get16 d 44\<rparr>"

definition decode_ph :: "u8 list \<Rightarrow> proghdr" where
  "decode_ph d =
     \<lparr>ph_type = get32 d 0, ph_off = get32 d 4, ph_vaddr = get32 d 8, ph_filesz = get32 d 16, ph_memsz = get32 d 20\<rparr>"

definition load_page ::
    "'a fs_state_scheme env \<Rightarrow> u32 \<Rightarrow> u32 \<Rightarrow> nat \<Rightarrow> u32 \<Rightarrow> u32 \<Rightarrow> u32 \<Rightarrow> 'a fs_state_scheme \<Rightarrow>
       (int option \<times> 'a fs_state_scheme) outcome" where
  "load_page k pgdir addr ip offset sz i s =
     and_then (walkpgdir pgdir (addr + i) False s) (\<lambda>(pte, s).
       if pte = 0 then Inl (Panic ''loaduvm: address should exist'')
       else
         let pa = PTE_ADDR (load32 (mem s) pte);
             n = (if sz - i < PGSIZE then sz - i else PGSIZE)
         in and_then (readi k ip (D_kern (P2V pa)) (offset + i) n s) (\<lambda>((r, _), s).
              Inr (if word_of_int r \<noteq> n then Some (-1) else None, s)))"

definition loaduvm ::
    "'a fs_state_scheme env \<Rightarrow> u32 \<Rightarrow> u32 \<Rightarrow> nat \<Rightarrow> u32 \<Rightarrow> u32 \<Rightarrow> 'a fs_state_scheme \<Rightarrow>
       (int \<times> 'a fs_state_scheme) outcome" where
  "loaduvm k pgdir addr ip offset sz s =
     (if addr mod PGSIZE \<noteq> 0 then Inl (Panic ''loaduvm: addr must be page aligned'')
      else and_then (for_until (load_page k pgdir addr ip offset sz)
                       (map (\<lambda>j. of_nat (4096 * j)) [0..<(unat sz + 4095) div 4096]) s) (\<lambda>(r, s).
        case r of Some v \<Rightarrow> Inr (v, s) | None \<Rightarrow> Inr (0, s)))"

text \<open>The loop over the program headers, with \<open>n\<close> headers to go: the new size, or \<open>None\<close> for \<open>bad\<close>.\<close>

primrec exec_load ::
    "nat \<Rightarrow> 'a fs_state_scheme env \<Rightarrow> nat \<Rightarrow> u32 \<Rightarrow> u32 \<Rightarrow> u32 \<Rightarrow> 'a fs_state_scheme \<Rightarrow>
       (u32 option \<times> 'a fs_state_scheme) outcome" where
  "exec_load 0 k ip pgdir off sz s = Inr (Some sz, s)"
| "exec_load (Suc n) k ip pgdir off sz s =
     and_then (readi k ip D_var off 32 s) (\<lambda>((r, d), s).
       let ph = decode_ph d in
       if r \<noteq> 32 then Inr (None, s)
       else if ph_type ph \<noteq> 1 then exec_load n k ip pgdir (off + 32) sz s
       else if ph_memsz ph < ph_filesz ph then Inr (None, s)
       else if ph_vaddr ph + ph_memsz ph < ph_vaddr ph then Inr (None, s)
       else and_then (allocuvm pgdir sz (ph_vaddr ph + ph_memsz ph) s) (\<lambda>(sz, s).
         if sz = 0 then Inr (None, s)
         else if ph_vaddr ph mod PGSIZE \<noteq> 0 then Inr (None, s)
         else and_then (loaduvm k pgdir (ph_vaddr ph) ip (ph_off ph) (ph_filesz ph) s) (\<lambda>(r, s).
           if r < 0 then Inr (None, s) else exec_load n k ip pgdir (off + 32) sz s)))"

text \<open>The loop that copies the argument strings; \<open>us\<close> are the entries of \<open>ustack\<close> from index 3.\<close>

primrec exec_args ::
    "u32 \<Rightarrow> u8 list list \<Rightarrow> u32 list \<Rightarrow> u32 \<Rightarrow> 'a kmem_state_scheme \<Rightarrow>
       ((u32 \<times> u32 list) option \<times> 'a kmem_state_scheme) outcome" where
  "exec_args pgdir [] us sp s = Inr (Some (sp, us), s)"
| "exec_args pgdir (a # as) us sp s =
     (if length us \<ge> MAXARG then Inr (None, s)
      else
        let sp = (sp - of_nat (length a + 1)) AND NOT 3 in
        and_then (copyout pgdir sp (a @ [0]) s) (\<lambda>(r, s).
          if r < 0 then Inr (None, s) else exec_args pgdir as (us @ [sp]) sp s))"

definition exec_bad ::
    "'a fs_state_scheme env \<Rightarrow> u32 \<Rightarrow> nat option \<Rightarrow> 'a fs_state_scheme \<Rightarrow>
       (int \<times> 'a fs_state_scheme) outcome" where
  "exec_bad k pgdir ip s =
     and_then (if pgdir \<noteq> 0 then freevm pgdir s else Inr s) (\<lambda>s.
     and_then (case ip of Some ip \<Rightarrow> and_then (iunlockput k ip s) (end_op k) | None \<Rightarrow> Inr s) (\<lambda>s.
       Inr (-1, s)))"

text \<open>The program name: what follows the last slash of the path.\<close>

definition exec_name :: "u8 list \<Rightarrow> u8 list" where
  "exec_name path = rev (takeWhile (\<lambda>c. c \<noteq> slash) (rev path))"

definition reset_handlers :: "proc \<Rightarrow> proc" where
  "reset_handlers p =
     p\<lparr>p_allinfo := map (\<lambda>h. if h_disposition h = IGN then h else h\<lparr>h_disposition := DFL\<rparr>) (p_allinfo p)\<rparr>"

text \<open>From the commitment to the new image on.\<close>

definition exec_commit ::
    "nat \<Rightarrow> u8 list \<Rightarrow> u32 \<Rightarrow> u32 \<Rightarrow> u32 \<Rightarrow> u32 \<Rightarrow> 'a proc_state_scheme \<Rightarrow> (int \<times> 'a proc_state_scheme) outcome" where
  "exec_commit i path pgdir sz entry sp s =
     (let s = set_proc i (\<lambda>p. p\<lparr>p_name := safestrcpy_array (p_name p) (exec_name path)\<rparr>) s;
          oldpgdir = p_pgdir (procs s ! i);
          s = set_proc i (\<lambda>p. p\<lparr>p_pgdir := pgdir\<rparr>) s;
          s = set_proc i (\<lambda>p. p\<lparr>p_sz := sz\<rparr>) s;
          s = set_tf (p_tf (procs s ! i)) (\<lambda>f. f\<lparr>tf_eip := entry\<rparr>) s;
          s = set_tf (p_tf (procs s ! i)) (\<lambda>f. f\<lparr>tf_esp := sp\<rparr>) s;
          s = set_proc i reset_handlers s
      in and_then (switchuvm i s) (\<lambda>s.
         and_then (freevm oldpgdir s) (\<lambda>s. Inr (0, s))))"

text \<open>From the stack pages on, when the file has been closed.\<close>

definition exec_stack ::
    "'a fs_state_scheme env \<Rightarrow> nat \<Rightarrow> u8 list \<Rightarrow> u8 list list \<Rightarrow> u32 \<Rightarrow> u32 \<Rightarrow> u32 \<Rightarrow> 'a fs_state_scheme \<Rightarrow>
       (int \<times> 'a fs_state_scheme) outcome" where
  "exec_stack k i path argv pgdir sz entry s =
     (let sz = PGROUNDUP sz in
      and_then (allocuvm pgdir sz (sz + 2 * PGSIZE) s) (\<lambda>(sz, s).
        if sz = 0 then exec_bad k pgdir None s
        else and_then (clearpteu pgdir (sz - 2 * PGSIZE) s) (\<lambda>s.
        and_then (exec_args pgdir argv [] sz s) (\<lambda>(r, s).
          case r of None \<Rightarrow> exec_bad k pgdir None s
          | Some (sp, us) \<Rightarrow>
              let argc = of_nat (length us);
                  ustack = [0xffffffff, argc, sp - (argc + 1) * 4] @ us @ [0];
                  sp = sp - (3 + argc + 1) * 4
              in and_then (copyout pgdir sp (concat (map bytes32 ustack)) s) (\<lambda>(r, s).
                   if r < 0 then exec_bad k pgdir None s
                   else exec_commit i path pgdir sz entry sp s)))))"

definition exec ::
    "'a fs_state_scheme env \<Rightarrow> u8 list \<Rightarrow> u8 list list \<Rightarrow> 'a fs_state_scheme \<Rightarrow>
       (int \<times> 'a fs_state_scheme) outcome" where
  "exec k path argv s =
     with_proc (\<lambda>i s.
       and_then (begin_op k s) (\<lambda>s.
       and_then (namei k path s) (\<lambda>(r, s).
         case r of
           None \<Rightarrow>
             and_then (end_op k s) (\<lambda>s. Inr (-1, cprintf (''exec: fail'' @ [CHR 0x0A]) [] s))
         | Some ip \<Rightarrow>
             and_then (ilock k ip s) (\<lambda>s.
             and_then (readi k ip D_var 0 52 s) (\<lambda>((r, d), s).
               if r \<noteq> 52 then exec_bad k 0 (Some ip) s
               else if elf_magic (decode_elf d) \<noteq> ELF_MAGIC then exec_bad k 0 (Some ip) s
               else and_then (setupkvm s) (\<lambda>(pgdir, s).
                 if pgdir = 0 then exec_bad k 0 (Some ip) s
                 else and_then (exec_load (unat (elf_phnum (decode_elf d))) k ip pgdir
                                  (elf_phoff (decode_elf d)) 0 s) (\<lambda>(r, s).
                   case r of None \<Rightarrow> exec_bad k pgdir (Some ip) s
                   | Some sz \<Rightarrow>
                       and_then (iunlockput k ip s) (\<lambda>s.
                       and_then (end_op k s)
                         (exec_stack k i path argv pgdir sz (elf_entry (decode_elf d))))))))))) s"

end
