(* ===== verification/Signal.thy ===== *)
theory Signal
  imports Sample
begin

text \<open>
  Signals, \<open>src/signal.c\<close>, with the two assembly routines it ends in,
  \<open>src/jmptohandler.S\<close> and \<open>src/restoreuser.S\<close>.

  A process has a mask of pending signals, a mask of blocked ones, a disposition and a
  handler per signal, and \<open>userdefed\<close>, the mask of signals whose disposition is \<open>USERDEF\<close>.
  \<open>Kill\<close> posts a signal, \<open>psig\<close> acts on the pending ones before the process returns to
  user space, \<open>kernel_sigreturn\<close> undoes the jump to a handler.

  Accesses to the user stack go through the page table of the CPU (\<open>vload32\<close>,
  \<open>vstore32\<close>); a page that is not mapped there is the stop \<open>Fault\<close>.
\<close>

unbundle bit_operations_syntax

abbreviation (input) SIGKILL :: nat where "SIGKILL \<equiv> 9"
abbreviation (input) SIGCHLD :: nat where "SIGCHLD \<equiv> 17"
abbreviation (input) SIGCONT :: nat where "SIGCONT \<equiv> 18"
abbreviation (input) SIGSTOP :: nat where "SIGSTOP \<equiv> 19"
abbreviation (input) CURRNUM :: nat where "CURRNUM \<equiv> 22"

abbreviation (input) SIG_DFL :: u32 where "SIG_DFL \<equiv> 0"
abbreviation (input) SIG_IGN :: u32 where "SIG_IGN \<equiv> 1"
abbreviation (input) SIG_ERR :: u32 where "SIG_ERR \<equiv> 0xFFFFFFFF"

datatype action = A_NONE | A_TERM | A_IGNORE | A_CORE | A_CONT | A_STOP

definition def_disposition :: "action list" where
  "def_disposition =
     [A_NONE, A_TERM, A_TERM, A_CORE, A_CORE, A_NONE, A_CORE, A_NONE, A_CORE, A_TERM, A_TERM, A_CORE, A_TERM,
      A_TERM, A_TERM, A_TERM, A_NONE, A_IGNORE, A_CONT, A_STOP, A_STOP, A_STOP, A_STOP] @ replicate 9 A_NONE"

section \<open>Leaving for user space\<close>

text \<open>
  \<open>jmptohandler\<close> drops its return address and executes \<open>iret\<close>, which loads the five
  registers below. \<open>restoreuser\<close> pops the general registers (\<open>popal\<close> skips the stack
  pointer), the data segment registers, and executes \<open>iret\<close>.
\<close>

record iret_frame =
  ir_eip :: u32
  ir_cs :: u16
  ir_eflags :: u32
  ir_esp :: u32
  ir_ss :: u16

record uregs = iret_frame +
  u_edi :: u32
  u_esi :: u32
  u_ebp :: u32
  u_ebx :: u32
  u_edx :: u32
  u_ecx :: u32
  u_eax :: u32
  u_gs :: u16
  u_fs :: u16
  u_es :: u16
  u_ds :: u16

definition jmptohandler :: "u32 \<Rightarrow> u32 \<Rightarrow> u32 \<Rightarrow> u32 \<Rightarrow> u32 \<Rightarrow> iret_frame" where
  "jmptohandler handler cs eflags esp ss =
     \<lparr>ir_eip = handler, ir_cs = ucast cs, ir_eflags = eflags, ir_esp = esp, ir_ss = ucast ss\<rparr>"

text \<open>The argument list is the 17 words of the C call, in order.\<close>

definition restoreuser :: "u32 list \<Rightarrow> uregs" where
  "restoreuser w =
     \<lparr>ir_eip = w ! 12, ir_cs = ucast (w ! 13), ir_eflags = w ! 14, ir_esp = w ! 15,
      ir_ss = ucast (w ! 16), u_edi = w ! 0, u_esi = w ! 1, u_ebp = w ! 2, u_ebx = w ! 4,
      u_edx = w ! 5, u_ecx = w ! 6, u_eax = w ! 7, u_gs = ucast (w ! 8), u_fs = ucast (w ! 9),
      u_es = ucast (w ! 10), u_ds = ucast (w ! 11)\<rparr>"

section \<open>Acting on pending signals\<close>

definition issig :: "proc \<Rightarrow> u32" where
  "issig p = p_sigpending p AND NOT (p_sigblocked p)"

definition coredump :: "'a proc_state_scheme \<Rightarrow> ('a proc_state_scheme) outcome" where
  "coredump s =
     with_proc (\<lambda>i s.
       let p = procs s ! i;
           s = (if p_state p \<noteq> UNUSED then dump_proc p s else s)
       in Inr (cprintf [CHR 0x0A] [] s)) s"

text \<open>\<open>core\<close>, \<open>term\<close> and \<open>stop\<close> set \<open>*done\<close>; the loops below thread it as a flag.\<close>

definition core :: "nat \<Rightarrow> 'a proc_state_scheme \<Rightarrow> ('a proc_state_scheme) outcome" where
  "core i s =
     and_then (coredump s) (\<lambda>s.
     and_then (release L_ptable s) (\<lambda>s.
     and_then (kill (p_pid (procs s ! i)) s) (\<lambda>(_, s). acquire L_ptable s)))"

definition sigterm :: "nat \<Rightarrow> 'a proc_state_scheme \<Rightarrow> ('a proc_state_scheme) outcome" where
  "sigterm i s =
     and_then (release L_ptable s) (\<lambda>s.
     and_then (kill (p_pid (procs s ! i)) s) (\<lambda>(_, s). acquire L_ptable s))"

definition cont :: "nat \<Rightarrow> 'a proc_state_scheme \<Rightarrow> 'a proc_state_scheme" where
  "cont i s =
     (if p_state (procs s ! i) = SLEEPING
      then let s = set_proc i (\<lambda>p. p\<lparr>p_state := RUNNABLE\<rparr>) s
           in set_proc i (\<lambda>p. p\<lparr>p_justwoken := True\<rparr>) s
      else s)"

definition stop ::
    "('a proc_state_scheme \<Rightarrow> 'a proc_state_scheme) \<Rightarrow> nat \<Rightarrow> 'a proc_state_scheme \<Rightarrow>
       ('a proc_state_scheme) outcome" where
  "stop swtch i s =
     (let s = set_proc i (\<lambda>p. p\<lparr>p_state := SLEEPING\<rparr>) s in sched swtch s)"

definition stopsig :: "nat list" where "stopsig = [19, 20, 21, 22]"
definition coresig :: "nat list" where "coresig = [3, 6, 4, 8, 11]"
definition termsig :: "nat list" where "termsig = [1, 2, 13, 14, 15, 10, 12]"

text \<open>The test of the default-action loops: pending, not blocked, default disposition.\<close>

definition default_due :: "nat \<Rightarrow> proc \<Rightarrow> bool" where
  "default_due sig p \<longleftrightarrow>
     p_sigpending p AND sigbit sig = sigbit sig \<and> p_sigblocked p AND sigbit sig = 0 \<and>
     h_disposition (p_allinfo p ! sig) = DFL"

definition clear_pending :: "nat \<Rightarrow> proc \<Rightarrow> proc" where
  "clear_pending sig p = p\<lparr>p_sigpending := p_sigpending p AND NOT (sigbit sig)\<rparr>"

text \<open>
  One iteration of a loop over signals with the same default action, which is performed
  for the first of them only.
\<close>

definition act_once ::
    "('a proc_state_scheme \<Rightarrow> ('a proc_state_scheme) outcome) \<Rightarrow> nat \<Rightarrow> nat \<Rightarrow>
       bool \<times> 'a proc_state_scheme \<Rightarrow> (bool \<times> 'a proc_state_scheme) outcome" where
  "act_once act i sig ds =
     (case ds of (done, s) \<Rightarrow>
        if default_due sig (procs s ! i)
        then and_then (if \<not> done then act s else Inr s) (\<lambda>s.
               Inr (True, set_proc i (clear_pending sig) s))
        else Inr (done, s))"

definition stop_step ::
    "('a proc_state_scheme \<Rightarrow> 'a proc_state_scheme) \<Rightarrow> nat \<Rightarrow> nat \<Rightarrow>
       bool \<times> 'a proc_state_scheme \<Rightarrow> (bool \<times> 'a proc_state_scheme) outcome" where
  "stop_step swtch i sig ds =
     (case ds of (done, s) \<Rightarrow>
        if default_due sig (procs s ! i) \<and> default_due SIGCONT (procs s ! i)
        then let s = set_proc i (clear_pending SIGCONT) s
             in Inr (done, set_proc i (clear_pending sig) s)
        else act_once (stop swtch i) i sig (done, s))"

definition handler_frame :: "trapframe \<Rightarrow> nat \<Rightarrow> u32 \<Rightarrow> (u32 \<times> u32) list" where
  "handler_frame tf sig ret =
     [(4, ucast (tf_ss tf)), (8, tf_esp tf), (12, tf_eflags tf), (16, ucast (tf_cs tf)),
      (20, tf_eip tf), (24, ucast (tf_ds tf)), (28, ucast (tf_es tf)), (32, ucast (tf_fs tf)),
      (36, ucast (tf_gs tf)), (40, tf_eax tf), (44, tf_ecx tf), (48, tf_edx tf), (52, tf_ebx tf),
      (56, tf_oesp tf), (60, tf_ebp tf), (64, tf_esi tf), (68, tf_edi tf),
      (72, of_nat sig), (76, ret)]"

definition push_word ::
    "u32 \<Rightarrow> u32 \<times> u32 \<Rightarrow> 'a kmem_state_scheme \<Rightarrow> ('a kmem_state_scheme) outcome" where
  "push_word esp ow s = (case ow of (off, w) \<Rightarrow> vstore32 (esp - off) w s)"

datatype psig_exit = Back int | ToHandler iret_frame

definition enter_handler ::
    "nat \<Rightarrow> 'a proc_state_scheme \<Rightarrow> (psig_exit \<times> 'a proc_state_scheme) outcome" where
  "enter_handler i s =
     (let p = procs s ! i; tf = tfs s (p_tf p) in
      case find (\<lambda>n. p_userdefed p AND sigbit n = sigbit n) [1..<32] of
        None \<Rightarrow> Inl (Undefined ''1 << 32'')
      | Some sig \<Rightarrow>
          and_then (for_each (push_word (tf_esp tf)) (handler_frame tf sig (p_addr_sigreturn p)) s) (\<lambda>s.
            let s = set_tf (p_tf p) (\<lambda>f. f\<lparr>tf_esp := tf_esp f - 76\<rparr>) s;
                s = set_proc i (clear_pending sig) s
            in and_then (release L_ptable s) (\<lambda>s.
                 let tf = tfs s (p_tf p) in
                 Inr (ToHandler (jmptohandler (h_handler (p_allinfo p ! sig)) (ucast (tf_cs tf))
                        (tf_eflags tf) (tf_esp tf) (ucast (tf_ss tf))), s))))"

text \<open>The second half of \<open>psig\<close>, from the test for SIGSTOP on; \<open>psig_stopped\<close> follows a stop.\<close>

definition psig_stopped ::
    "('a proc_state_scheme \<Rightarrow> 'a proc_state_scheme) \<Rightarrow> nat \<Rightarrow> bool \<Rightarrow> 'a proc_state_scheme \<Rightarrow>
       (psig_exit \<times> 'a proc_state_scheme) outcome" where
  "psig_stopped swtch i stopcalled s =
     (let s = (if default_due SIGCHLD (procs s ! i)
               then set_proc i (clear_pending SIGCHLD) s else s) in
      and_then (for_each (stop_step swtch i) stopsig (stopcalled, s)) (\<lambda>(_, s).
        let s = (if default_due SIGCONT (procs s ! i)
                 then set_proc i (clear_pending SIGCONT) (cont i s) else s) in
        if p_userdefed (procs s ! i) = 0
        then and_then (release L_ptable s) (\<lambda>s. Inr (Back 1, s))
        else enter_handler i s))"

definition psig_tail ::
    "('a proc_state_scheme \<Rightarrow> 'a proc_state_scheme) \<Rightarrow> nat \<Rightarrow> 'a proc_state_scheme \<Rightarrow>
       (psig_exit \<times> 'a proc_state_scheme) outcome" where
  "psig_tail swtch i s =
     (if p_sigpending (procs s ! i) AND sigbit SIGSTOP = sigbit SIGSTOP
      then and_then (stop swtch i s) (\<lambda>s.
             psig_stopped swtch i True (set_proc i (clear_pending SIGSTOP) s))
      else psig_stopped swtch i False s)"

definition psig ::
    "('a proc_state_scheme \<Rightarrow> 'a proc_state_scheme) \<Rightarrow> nat option \<Rightarrow> 'a proc_state_scheme \<Rightarrow>
       (psig_exit \<times> 'a proc_state_scheme) outcome" where
  "psig swtch q s =
     (case q of None \<Rightarrow> Inr (Back (-1), s) | Some i \<Rightarrow>
        and_then (acquire L_ptable s) (\<lambda>s.
        and_then (for_each (act_once (sigterm i) i) termsig (False, s)) (\<lambda>(_, s).
        and_then (for_each (act_once (core i) i) coresig (False, s)) (\<lambda>(_, s).
          psig_tail swtch i s))))"

text \<open>The words \<open>kernel_sigreturn\<close> reads above the stack pointer, in argument order.\<close>

definition sigframe_offsets :: "u32 list" where
  "sigframe_offsets = [4, 8, 12, 16, 20, 24, 28, 32, 36, 40, 44, 48, 52, 56, 60, 64, 68]"

primrec vload_words :: "u32 \<Rightarrow> u32 list \<Rightarrow> 'a kmem_state_scheme \<Rightarrow> u32 list outcome" where
  "vload_words esp [] s = Inr []"
| "vload_words esp (off # offs) s =
     and_then (vload32 (esp + off) s) (\<lambda>w. and_then (vload_words esp offs s) (\<lambda>ws. Inr (w # ws)))"

definition kernel_sigreturn ::
    "u32 \<Rightarrow> 'a proc_state_scheme \<Rightarrow> (uregs option \<times> 'a proc_state_scheme) outcome" where
  "kernel_sigreturn sig s =
     and_then (myproc s) (\<lambda>(p, s).
       case p of None \<Rightarrow> Inr (None, s) | Some i \<Rightarrow>
         let esp = tf_esp (tfs s (p_tf (procs s ! i))) in
         and_then (vload_words esp sigframe_offsets s) (\<lambda>w. Inr (Some (restoreuser w), s)))"

section \<open>Dispositions and masks\<close>

definition set_info :: "nat \<Rightarrow> (handlerinfo \<Rightarrow> handlerinfo) \<Rightarrow> proc \<Rightarrow> proc" where
  "set_info sig f p = p\<lparr>p_allinfo := (p_allinfo p)[sig := f (p_allinfo p ! sig)]\<rparr>"

definition prev_handler :: "handlerinfo \<Rightarrow> u32" where
  "prev_handler h =
     (case h_disposition h of USERDEF \<Rightarrow> h_handler h | IGN \<Rightarrow> SIG_IGN | DFL \<Rightarrow> SIG_DFL)"

definition forget_handler :: "nat \<Rightarrow> proc \<Rightarrow> proc" where
  "forget_handler sig p =
     (if h_disposition (p_allinfo p ! sig) = USERDEF
      then p\<lparr>p_userdefed := p_userdefed p AND NOT (sigbit sig)\<rparr> else p)"

definition signal ::
    "u32 \<Rightarrow> int \<Rightarrow> u32 \<Rightarrow> 'a proc_state_scheme \<Rightarrow> (u32 \<times> 'a proc_state_scheme) outcome" where
  "signal returnfn signum handler s =
     (if signum \<le> 0 \<or> signum > int CURRNUM then Inr (SIG_ERR, s)
      else if signum = int SIGKILL \<or> signum = int SIGSTOP then Inr (SIG_ERR, s)
      else and_then (myproc s) (\<lambda>(q, s).
        case q of None \<Rightarrow> Inr (SIG_ERR, s) | Some i \<Rightarrow>
          let sig = nat signum; prev = prev_handler (p_allinfo (procs s ! i) ! sig) in
          and_then (acquire L_ptable s) (\<lambda>s.
            let s = set_proc i (\<lambda>p. p\<lparr>p_addr_sigreturn := 0\<rparr>) s;
                s = (if handler = SIG_IGN then
                       set_proc i (set_info sig (\<lambda>h. h\<lparr>h_disposition := IGN\<rparr>))
                         (set_proc i (forget_handler sig) s)
                     else if handler = SIG_DFL then
                       set_proc i (set_info sig (\<lambda>h. h\<lparr>h_disposition := DFL\<rparr>))
                         (set_proc i (forget_handler sig) s)
                     else
                       let s = set_proc i (set_info sig (\<lambda>h. h\<lparr>h_disposition := USERDEF\<rparr>)) s;
                           s = set_proc i (\<lambda>p. p\<lparr>p_userdefed := p_userdefed p OR sigbit sig\<rparr>) s;
                           s = set_proc i (set_info sig (\<lambda>h. h\<lparr>h_handler := handler\<rparr>)) s
                       in set_proc i (\<lambda>p. p\<lparr>p_addr_sigreturn := returnfn\<rparr>) s)
            in and_then (release L_ptable s) (\<lambda>s. Inr (prev, s)))))"

definition siggetmask :: "'a proc_state_scheme \<Rightarrow> (u32 \<times> 'a proc_state_scheme) outcome" where
  "siggetmask s =
     and_then (myproc s) (\<lambda>(q, s).
       case q of None \<Rightarrow> Inr (0xFFFFFFFF, s) | Some i \<Rightarrow>
         and_then (acquire L_ptable s) (\<lambda>s.
           let msk = p_sigblocked (procs s ! i)
           in and_then (release L_ptable s) (\<lambda>s. Inr (msk, s))))"

definition sigsetmask :: "u32 \<Rightarrow> 'a proc_state_scheme \<Rightarrow> (u32 \<times> 'a proc_state_scheme) outcome" where
  "sigsetmask msk s =
     (if msk AND sigbit SIGKILL \<noteq> 0 \<or> msk AND sigbit SIGSTOP \<noteq> 0 \<or> msk AND sigbit SIGCONT \<noteq> 0
      then Inr (0, s)
      else if msk AND 1 \<noteq> 0 then Inr (0, s)
      else and_then (myproc s) (\<lambda>(q, s).
        case q of None \<Rightarrow> Inr (0xFFFFFFFF, s) | Some i \<Rightarrow>
          and_then (acquire L_ptable s) (\<lambda>s.
            let s = set_proc i (\<lambda>p. p\<lparr>p_sigblocked := msk\<rparr>) s
            in and_then (release L_ptable s) (\<lambda>s. Inr (msk, s)))))"

definition sigblock :: "int \<Rightarrow> 'a proc_state_scheme \<Rightarrow> (u32 \<times> 'a proc_state_scheme) outcome" where
  "sigblock sig s =
     (if sig \<le> 0 \<or> sig > int CURRNUM then Inr (0xFFFFFFFF, s)
      else if sig = int SIGKILL \<or> sig = int SIGSTOP \<or> sig = int SIGCONT then Inr (0, s)
      else and_then (siggetmask s) (\<lambda>(msk, s).
        let msk = msk OR sigbit (nat sig) in sigsetmask msk s))"

definition sigunblock :: "int \<Rightarrow> 'a proc_state_scheme \<Rightarrow> (u32 \<times> 'a proc_state_scheme) outcome" where
  "sigunblock sig s =
     (if sig \<le> 0 \<or> sig > int CURRNUM then Inr (0xFFFFFFFF, s)
      else if sig = int SIGKILL \<or> sig = int SIGSTOP then Inr (0, s)
      else and_then (siggetmask s) (\<lambda>(msk, s).
        let msk = msk AND NOT (sigbit (nat sig)) in sigsetmask msk s))"

section \<open>Posting signals\<close>

text \<open>
  \<open>Kill\<close> reads \<open>p->tf->cs\<close>. In a slot that was never used \<open>p->tf\<close> is the null pointer, and
  the read goes to offset 60 of the current address space.
\<close>

definition tf_cs_of :: "nat \<Rightarrow> 'a proc_state_scheme \<Rightarrow> u16 outcome" where
  "tf_cs_of i s =
     (if p_tf (procs s ! i) = 0
      then and_then (vload8 60 s) (\<lambda>b0. and_then (vload8 61 s) (\<lambda>b1.
             Inr (ucast b0 OR push_bit 8 (ucast b1))))
      else Inr (tf_cs (tfs s (p_tf (procs s ! i)))))"

definition post_signal :: "nat \<Rightarrow> nat \<Rightarrow> 'a proc_state_scheme \<Rightarrow> 'a proc_state_scheme" where
  "post_signal sig j s = set_proc j (\<lambda>p. p\<lparr>p_sigpending := p_sigpending p OR sigbit sig\<rparr>) s"

text \<open>
  The body of the loop over the process table for slot \<open>j\<close>: \<open>Some r\<close> leaves \<open>Kill\<close> with
  result \<open>r\<close>, \<open>None\<close> goes on with the next slot.
\<close>

definition Kill_slot ::
    "nat \<Rightarrow> bool \<Rightarrow> int \<Rightarrow> nat \<Rightarrow> nat \<Rightarrow> 'a proc_state_scheme \<Rightarrow>
       (int option \<times> 'a proc_state_scheme) outcome" where
  "Kill_slot curproc minusone pid sig j s =
     (let next = (if minusone then None else Some 0) in
      if p_pid (procs s ! j) = 1 then Inr (None, s)
      else if minusone \<or> p_pid (procs s ! j) = pid then
        and_then (tf_cs_of j s) (\<lambda>receiver_cs.
        and_then (tf_cs_of curproc s) (\<lambda>sender_cs.
          if receiver_cs AND 3 \<noteq> 3 \<and> sender_cs AND 3 = 3 then Inr (next, s)
          else and_then (acquire L_ptable s) (\<lambda>s.
            if sig = SIGKILL then
              and_then (release L_ptable s) (\<lambda>s.
              and_then (kill (p_pid (procs s ! j)) s) (\<lambda>(_, s). Inr (next, s)))
            else if sig = SIGCHLD \<and> h_disposition (p_allinfo (procs s ! j) ! SIGCHLD) = DFL then
              and_then (release L_ptable s) (\<lambda>s. Inr (next, s))
            else if sig = SIGCONT then
              let s = (if p_state (procs s ! j) = SLEEPING
                       then set_proc j (\<lambda>p. p\<lparr>p_state := RUNNABLE, p_justwoken := True\<rparr>) s else s);
                  d = h_disposition (p_allinfo (procs s ! j) ! SIGCONT);
                  s = (if d \<noteq> DFL \<and> d \<noteq> IGN then post_signal sig j s else s)
              in and_then (release L_ptable s) (\<lambda>s. Inr (next, s))
            else
              let s = (if h_disposition (p_allinfo (procs s ! j) ! sig) \<noteq> IGN \<and> sig \<noteq> 0
                       then post_signal sig j s else s)
              in and_then (release L_ptable s) (\<lambda>s. Inr (next, s)))))
      else Inr (None, s))"

definition Kill :: "int \<Rightarrow> int \<Rightarrow> 'a proc_state_scheme \<Rightarrow> (int \<times> 'a proc_state_scheme) outcome" where
  "Kill pid sig s =
     (if sig \<le> 0 \<or> sig > int CURRNUM then Inr (-1, s)
      else if pid = 1 \<or> pid = 0 \<or> pid < -1
      then Inr (0, cprintf (''Operation not allowed'' @ [CHR 0x0A]) [] s)
      else and_then (myproc s) (\<lambda>(q, s).
        case q of None \<Rightarrow> Inr (-1, s) | Some i \<Rightarrow>
          let minusone = (pid = -1) in
          and_then (for_until (Kill_slot i minusone pid (nat sig)) [0..<length (procs s)] s)
            (\<lambda>(r, s). case r of Some v \<Rightarrow> Inr (v, s) | None \<Rightarrow> Inr (0, s))))"

definition raise :: "int \<Rightarrow> 'a proc_state_scheme \<Rightarrow> (int \<times> 'a proc_state_scheme) outcome" where
  "raise sig s =
     and_then (myproc s) (\<lambda>(q, s).
       case q of None \<Rightarrow> Inr (-1, s) | Some i \<Rightarrow> Kill (p_pid (procs s ! i)) sig s)"

section \<open>Masks\<close>

lemma ptable_update:
  assumes "on_cpu i s"
  shows "and_then (acquire L_ptable (balanced s)) (\<lambda>s.
           and_then (release L_ptable (set_proc j f s)) (\<lambda>s. Inr (v, s))) =
         Inr (v, set_proc j f (balanced s))"
  using on_cpuD [OF assms] ncli_enter_pos [of "balanced s" L_ptable]
  by (simp add: acquire_ok release_ok leave_enter)

lemma on_cpu_set_proc [simp]: "on_cpu i (set_proc j f s) = on_cpu i s"
  by (simp add: on_cpu_def at_ease_def)

lemma on_cpu_balanced [simp]: "on_cpu i s \<Longrightarrow> on_cpu i (balanced s)"
  by (simp add: on_cpu_def at_ease_def)

lemma siggetmask_ok [outcome_simps]:
  assumes "on_cpu i s"
  shows "siggetmask s = Inr (p_sigblocked (procs s ! i), balanced s)"
  using on_cpuD [OF assms] ncli_enter_pos [of "balanced s" L_ptable]
  by (simp add: siggetmask_def myproc_ok acquire_ok release_ok leave_enter)

text \<open>The signals \<open>sigsetmask\<close> refuses to block: bit 0, SIGKILL, SIGCONT and SIGSTOP.\<close>

definition blockable :: "u32 \<Rightarrow> bool" where
  "blockable m \<longleftrightarrow> \<not> bit m 0 \<and> \<not> bit m 9 \<and> \<not> bit m 18 \<and> \<not> bit m 19"

lemma and_1_eq_0: "(m :: u32) AND 1 = 0 \<longleftrightarrow> \<not> bit m 0"
  using and_sigbit_zero [of 0 m] by (simp add: sigbit_def)

lemma blockable_iff:
  "blockable m \<longleftrightarrow> m AND sigbit 9 = 0 \<and> m AND sigbit 19 = 0 \<and> m AND sigbit 18 = 0 \<and> m AND 1 = 0"
  by (auto simp: blockable_def and_sigbit_zero and_1_eq_0)

lemma sigsetmask_ok:
  assumes "on_cpu i s"
  shows "sigsetmask m s =
    (if blockable m then Inr (m, set_proc i (\<lambda>p. p\<lparr>p_sigblocked := m\<rparr>) (balanced s)) else Inr (0, s))"
proof (cases "blockable m")
  case True
  then show ?thesis
    using on_cpuD [OF assms] ptable_update [OF assms, of i "\<lambda>p. p\<lparr>p_sigblocked := m\<rparr>" m]
    by (simp add: sigsetmask_def myproc_ok blockable_iff)
next
  case False
  then show ?thesis by (auto simp: sigsetmask_def blockable_iff)
qed

lemma blockable_or: "blockable (m OR sigbit n) \<longleftrightarrow> blockable m \<and> n \<noteq> 0 \<and> n \<noteq> 9 \<and> n \<noteq> 18 \<and> n \<noteq> 19"
  by (auto simp: blockable_def bit_or_iff bit_sigbit)

lemma blockable_and_not: "blockable m \<Longrightarrow> blockable (m AND NOT (sigbit n))"
  by (auto simp: blockable_def bit_and_iff)

lemma sigblock_ok:
  assumes "on_cpu i s" and "blockable (p_sigblocked (procs s ! i))"
    and "0 < sig" and "sig \<le> int CURRNUM" and "sig \<notin> {9, 18, 19}"
  defines "m \<equiv> p_sigblocked (procs s ! i) OR sigbit (nat sig)"
  shows "sigblock sig s = Inr (m, set_proc i (\<lambda>p. p\<lparr>p_sigblocked := m\<rparr>) (balanced s))"
proof -
  have "blockable m" using assms(2,3,5) by (auto simp: m_def blockable_or)
  then show ?thesis
    using assms on_cpuD(1) [OF assms(1)]
    by (simp add: sigblock_def siggetmask_ok sigsetmask_ok [of i])
qed

lemma sigunblock_ok:
  assumes "on_cpu i s" and "blockable (p_sigblocked (procs s ! i))"
    and "0 < sig" and "sig \<le> int CURRNUM" and "sig \<notin> {9, 19}"
  defines "m \<equiv> p_sigblocked (procs s ! i) AND NOT (sigbit (nat sig))"
  shows "sigunblock sig s = Inr (m, set_proc i (\<lambda>p. p\<lparr>p_sigblocked := m\<rparr>) (balanced s))"
proof -
  have "blockable m" unfolding m_def using assms(2) by (rule blockable_and_not)
  then show ?thesis
    using assms on_cpuD(1) [OF assms(1)]
    by (simp add: sigunblock_def siggetmask_ok sigsetmask_ok [of i])
qed

text \<open>A process that changes its mask by a sequence of calls.\<close>

datatype mask_call = Set_mask u32 | Block int | Unblock int

fun do_mask_call :: "mask_call \<Rightarrow> 'a proc_state_scheme \<Rightarrow> (u32 \<times> 'a proc_state_scheme) outcome" where
  "do_mask_call (Set_mask m) s = sigsetmask m s"
| "do_mask_call (Block sig) s = sigblock sig s"
| "do_mask_call (Unblock sig) s = sigunblock sig s"

definition mask_calls :: "mask_call list \<Rightarrow> 'a proc_state_scheme \<Rightarrow> ('a proc_state_scheme) outcome" where
  "mask_calls cs s = for_each (\<lambda>c s. and_then (do_mask_call c s) (\<lambda>(_, s). Inr s)) cs s"

lemma do_mask_call_inv:
  assumes "on_cpu i s" and "blockable (p_sigblocked (procs s ! i))"
  shows "\<exists>r t. do_mask_call c s = Inr (r, t) \<and> on_cpu i t \<and> blockable (p_sigblocked (procs t ! i)) \<and>
    p_sigpending (procs t ! i) = p_sigpending (procs s ! i)"
proof (cases c)
  case (Set_mask m)
  then show ?thesis using assms on_cpuD(4) [OF assms(1)] by (simp add: sigsetmask_ok)
next
  case (Block sig)
  show ?thesis
  proof (cases "0 < sig \<and> sig \<le> int CURRNUM \<and> sig \<notin> {9, 18, 19}")
    case True
    then have "blockable (p_sigblocked (procs s ! i) OR sigbit (nat sig))"
      using assms(2) by (auto simp: blockable_or)
    with True show ?thesis using assms on_cpuD(4) [OF assms(1)] Block by (simp add: sigblock_ok)
  next
    case False
    then show ?thesis using assms Block by (auto simp: sigblock_def)
  qed
next
  case (Unblock sig)
  show ?thesis
  proof (cases "0 < sig \<and> sig \<le> int CURRNUM \<and> sig \<notin> {9, 19}")
    case True
    then show ?thesis
      using assms on_cpuD(4) [OF assms(1)] Unblock by (simp add: sigunblock_ok blockable_and_not)
  next
    case False
    then show ?thesis using assms Unblock by (auto simp: sigunblock_def)
  qed
qed

lemma mask_calls_inv:
  assumes "on_cpu i s" and "blockable (p_sigblocked (procs s ! i))"
  shows "\<exists>t. mask_calls cs s = Inr t \<and> on_cpu i t \<and> blockable (p_sigblocked (procs t ! i))"
  unfolding mask_calls_def
proof (rule for_each_inv [where I = "\<lambda>s. on_cpu i s \<and> blockable (p_sigblocked (procs s ! i))"])
  show "\<exists>t. and_then (do_mask_call c s) (\<lambda>(_, s). Inr s) = Inr t \<and>
      on_cpu i t \<and> blockable (p_sigblocked (procs t ! i))"
    if "on_cpu i s \<and> blockable (p_sigblocked (procs s ! i))" for c s
    using do_mask_call_inv [of i s c] that by auto
qed (use assms in simp)

section \<open>Dispositions\<close>

text \<open>
  The signal part of a process is well formed when \<open>userdefed\<close> records exactly the signals
  with a user handler, and only catchable signals have a disposition other than the
  default.
\<close>

definition catchable :: "nat \<Rightarrow> bool" where
  "catchable n \<longleftrightarrow> 0 < n \<and> n \<le> CURRNUM \<and> n \<noteq> SIGKILL \<and> n \<noteq> SIGSTOP"

definition sig_wf :: "proc \<Rightarrow> bool" where
  "sig_wf p \<longleftrightarrow> length (p_allinfo p) = NUMSIG \<and>
     (\<forall>n < NUMSIG. bit (p_userdefed p) n \<longleftrightarrow> h_disposition (p_allinfo p ! n) = USERDEF) \<and>
     (\<forall>n < NUMSIG. h_disposition (p_allinfo p ! n) \<noteq> DFL \<longrightarrow> catchable n)"

definition disposition_of :: "u32 \<Rightarrow> disposition" where
  "disposition_of handler = (if handler = SIG_IGN then IGN else if handler = SIG_DFL then DFL else USERDEF)"

text \<open>What \<open>signal\<close> does to the calling process.\<close>

definition signal_proc :: "u32 \<Rightarrow> nat \<Rightarrow> u32 \<Rightarrow> proc \<Rightarrow> proc" where
  "signal_proc returnfn sig handler p =
     (let d = disposition_of handler in
      (if d = USERDEF
       then p\<lparr>p_userdefed := p_userdefed p OR sigbit sig, p_addr_sigreturn := returnfn,
              p_allinfo := (p_allinfo p)[sig := \<lparr>h_disposition = USERDEF, h_handler = handler\<rparr>]\<rparr>
       else (forget_handler sig p)\<lparr>p_addr_sigreturn := 0,
              p_allinfo := (p_allinfo p)[sig := (p_allinfo p ! sig)\<lparr>h_disposition := d\<rparr>]\<rparr>))"

lemma signal_ok:
  assumes "on_cpu i s" and "catchable (nat signum)" and "length (p_allinfo (procs s ! i)) = NUMSIG"
  shows "signal returnfn signum handler s =
    Inr (prev_handler (p_allinfo (procs s ! i) ! nat signum),
         set_proc i (signal_proc returnfn (nat signum) handler) (balanced s))"
proof -
  have sig: "0 < signum" "signum \<le> int CURRNUM" "signum \<noteq> 9" "signum \<noteq> 19" "nat signum < NUMSIG"
    using assms(2) by (auto simp: catchable_def)
  have eq: "set_proc i f t = set_proc i g t"
    if "f (procs t ! i) = g (procs t ! i)" for f g and t :: "'a proc_state_scheme"
    using that by (simp add: set_proc_def)
  have eq_h: "h\<lparr>h_disposition := USERDEF, h_handler := handler\<rparr> =
      \<lparr>h_disposition = USERDEF, h_handler = handler\<rparr>" for h :: handlerinfo
    by (cases h) simp
  have one: "(if handler = SIG_IGN then
             set_proc i (set_info (nat signum) (\<lambda>h. h\<lparr>h_disposition := IGN\<rparr>))
               (set_proc i (forget_handler (nat signum)) t)
           else if handler = SIG_DFL then
             set_proc i (set_info (nat signum) (\<lambda>h. h\<lparr>h_disposition := DFL\<rparr>))
               (set_proc i (forget_handler (nat signum)) t)
           else
             let s = set_proc i (set_info (nat signum) (\<lambda>h. h\<lparr>h_disposition := USERDEF\<rparr>)) t;
                 s = set_proc i (\<lambda>p. p\<lparr>p_userdefed := p_userdefed p OR sigbit (nat signum)\<rparr>) s;
                 s = set_proc i (set_info (nat signum) (\<lambda>h. h\<lparr>h_handler := handler\<rparr>)) s
             in set_proc i (\<lambda>p. p\<lparr>p_addr_sigreturn := returnfn\<rparr>) s) =
        set_proc i (signal_proc returnfn (nat signum) handler) u"
    if "t = set_proc i (\<lambda>p. p\<lparr>p_addr_sigreturn := 0\<rparr>) u" "procs u ! i = procs s ! i"
    for t u :: "'a proc_state_scheme"
    unfolding that(1) Let_def using assms(3) sig(5) that(2)
    by (auto simp: signal_proc_def disposition_of_def forget_handler_def set_info_def eq_h
        intro!: eq)
  show ?thesis
    using on_cpuD [OF assms(1)] sig
      ptable_update [OF assms(1), of i "signal_proc returnfn (nat signum) handler"
        "prev_handler (p_allinfo (procs s ! i) ! nat signum)"]
    unfolding signal_def
    by (simp add: myproc_ok one [OF refl] acquire_ok) (simp add: Let_def)
qed

lemma signal_refused:
  assumes "\<not> catchable (nat signum)"
  shows "signal returnfn signum handler s = Inr (SIG_ERR, s)"
proof -
  have "signum \<le> 0 \<or> signum > int CURRNUM \<or> signum = 9 \<or> signum = 19"
    using assms unfolding catchable_def by linarith
  then show ?thesis by (auto simp: signal_def)
qed

lemma signal_proc_wf:
  assumes "sig_wf p" and "catchable sig"
  shows "sig_wf (signal_proc returnfn sig handler p)"
proof -
  have sig: "sig < NUMSIG" using assms(2) by (simp add: catchable_def)
  have wf: "length (p_allinfo p) = NUMSIG"
    "\<And>n. n < NUMSIG \<Longrightarrow> bit (p_userdefed p) n \<longleftrightarrow> h_disposition (p_allinfo p ! n) = USERDEF"
    "\<And>n. n < NUMSIG \<Longrightarrow> h_disposition (p_allinfo p ! n) \<noteq> DFL \<Longrightarrow> catchable n"
    using assms(1) unfolding sig_wf_def by blast+
  show ?thesis
    unfolding sig_wf_def signal_proc_def Let_def forget_handler_def
    using sig wf assms(2)
    by (auto simp: nth_list_update bit_or_sigbit bit_and_not_sigbit)
qed

lemma signal_proc_frame:
  "p_sigpending (signal_proc r sig h p) = p_sigpending p"
  "p_sigblocked (signal_proc r sig h p) = p_sigblocked p"
  "p_pid (signal_proc r sig h p) = p_pid p" "p_state (signal_proc r sig h p) = p_state p"
  "n \<noteq> sig \<Longrightarrow> p_allinfo (signal_proc r sig h p) ! n = p_allinfo p ! n"
  by (simp_all add: signal_proc_def Let_def forget_handler_def)

lemma prev_handler_signal_proc:
  assumes "length (p_allinfo p) = NUMSIG" and "sig < NUMSIG"
  shows "prev_handler (p_allinfo (signal_proc r sig h p) ! sig) = h"
  using assms
  by (auto simp: signal_proc_def disposition_of_def prev_handler_def Let_def)

section \<open>Posting\<close>

text \<open>What \<open>Kill\<close> does to the process it signals.\<close>

definition received :: "nat \<Rightarrow> proc \<Rightarrow> proc" where
  "received sig p =
     (let d = h_disposition (p_allinfo p ! sig);
          posted = (\<lambda>p. p\<lparr>p_sigpending := p_sigpending p OR sigbit sig\<rparr>) in
      if sig = SIGKILL then killed_proc p
      else if sig = SIGCHLD \<and> d = DFL then p
      else if sig = SIGCONT then
        let p = (if p_state p = SLEEPING then p\<lparr>p_state := RUNNABLE, p_justwoken := True\<rparr> else p)
        in if d = USERDEF then posted p else p
      else if d \<noteq> IGN then posted p else p)"

text \<open>The privilege test of \<open>Kill\<close>: a user process must not signal a kernel one.\<close>

definition may_signal :: "nat \<Rightarrow> nat \<Rightarrow> 'a proc_state_scheme \<Rightarrow> bool" where
  "may_signal i j s \<longleftrightarrow>
     (tf_cs (tfs s (p_tf (procs s ! i))) AND 3 = 3 \<longrightarrow> tf_cs (tfs s (p_tf (procs s ! j))) AND 3 = 3)"

lemma set_proc_id: "f (procs s ! i) = procs s ! i \<Longrightarrow> set_proc i f s = s"
  by (simp add: set_proc_def)

lemma set_proc_eqI: "f (procs s ! i) = g (procs s ! i) \<Longrightarrow> set_proc i f s = set_proc i g s"
  by (simp add: set_proc_def)

lemma acquire_at_ease: "at_ease s \<Longrightarrow> acquire L_ptable s = Inr (enter L_ptable s)"
  by (simp add: at_ease_def acquire_ok lock_free_locked)

lemma release_section:
  assumes "at_ease s"
  shows "release L_ptable (set_proc j f (enter L_ptable s)) = Inr (set_proc j f (balanced s))"
  using assms ncli_enter_pos [of s L_ptable] by (simp add: at_ease_def release_ok leave_enter)

lemma at_ease_balanced [simp]: "at_ease s \<Longrightarrow> at_ease (balanced s)"
  by (simp add: at_ease_def)

lemma Kill_slot_hit:
  assumes ease: "at_ease s" and bal: "balanced s = s" and j: "j < length (procs s)"
    and pid: "p_pid (procs s ! j) \<noteq> 1" "minusone \<or> p_pid (procs s ! j) = pid"
    and tf: "p_tf (procs s ! i) \<noteq> 0" "p_tf (procs s ! j) \<noteq> 0" and sig: "0 < sig"
    and may: "may_signal i j s"
    and first: "sig = SIGKILL \<Longrightarrow> scan (\<lambda>p. p_pid p = p_pid (procs s ! j)) (procs s) = Some j"
  shows "Kill_slot i minusone pid sig j s =
    Inr (if minusone then None else Some 0, set_proc j (received sig) s)"
proof -
  let ?next = "if minusone then None else Some (0::int)"
  have rel: "release L_ptable (set_proc j f (enter L_ptable s)) = Inr (set_proc j f s)" for f
    using release_section [OF ease] bal by simp
  have rel0: "release L_ptable (enter L_ptable s) = Inr s"
    using rel [of "\<lambda>p. p"] by (simp add: set_proc_id)
  let ?e = "enter L_ptable s"
  let ?d = "\<lambda>n. h_disposition (p_allinfo (procs s ! j) ! n)"
  have guard: "\<not> (tf_cs (tfs s (p_tf (procs s ! j))) AND 3 \<noteq> 3 \<and>
      tf_cs (tfs s (p_tf (procs s ! i))) AND 3 = 3)"
    using may unfolding may_signal_def by blast
  have slot: "Kill_slot i minusone pid sig j s =
    (if sig = SIGKILL then
       and_then (release L_ptable ?e) (\<lambda>s.
       and_then (kill (p_pid (procs s ! j)) s) (\<lambda>(_, s). Inr (?next, s)))
     else if sig = SIGCHLD \<and> ?d SIGCHLD = DFL then
       and_then (release L_ptable ?e) (\<lambda>s. Inr (?next, s))
     else if sig = SIGCONT then
       let s = (if p_state (procs ?e ! j) = SLEEPING
                then set_proc j (\<lambda>p. p\<lparr>p_state := RUNNABLE, p_justwoken := True\<rparr>) ?e else ?e);
           d = h_disposition (p_allinfo (procs s ! j) ! SIGCONT);
           s = (if d \<noteq> DFL \<and> d \<noteq> IGN then post_signal sig j s else s)
       in and_then (release L_ptable s) (\<lambda>s. Inr (?next, s))
     else
       let s = (if ?d sig \<noteq> IGN \<and> sig \<noteq> 0 then post_signal sig j ?e else ?e)
       in and_then (release L_ptable s) (\<lambda>s. Inr (?next, s)))"
    unfolding Kill_slot_def Let_def [where s = "if minusone then _ else _"]
    using pid tf guard
    by (cases "tf_cs (tfs s (p_tf (procs s ! j))) AND 3 = 3")
      (simp_all add: tf_cs_of_def acquire_at_ease [OF ease])
  consider "sig = SIGKILL" | "sig = SIGCHLD" "?d SIGCHLD = DFL" | "sig = SIGCONT"
    | "sig \<noteq> SIGKILL" "\<not> (sig = SIGCHLD \<and> ?d SIGCHLD = DFL)" "sig \<noteq> SIGCONT"
    by blast
  then show ?thesis
  proof cases
    case 1
    then show ?thesis
      unfolding slot using kill_ok [OF ease, of "p_pid (procs s ! j)"] first bal rel0
      by simp (rule set_proc_eqI, simp add: received_def)
  next
    case 2
    then show ?thesis unfolding slot using rel0 by (simp add: received_def set_proc_id)
  next
    case 3
    then show ?thesis
      unfolding slot using rel0 j
      by (cases "?d SIGCONT"; cases "p_state (procs s ! j) = SLEEPING")
        (auto simp: rel post_signal_def received_def Let_def intro!: set_proc_eqI set_proc_id [symmetric])
  next
    case 4
    then show ?thesis
      unfolding slot using rel0 sig j
      by (cases "?d sig")
        (auto simp: rel post_signal_def received_def Let_def intro!: set_proc_eqI set_proc_id [symmetric])
  qed
qed

lemma for_until_skip:
  assumes "\<And>x. x \<in> set xs \<Longrightarrow> f x s = Inr (None, s)"
  shows "for_until f (xs @ ys) s = for_until f ys s"
  using assms by (induction xs) auto

lemma for_until_none:
  assumes "\<And>x. x \<in> set xs \<Longrightarrow> f x s = Inr (None, s)"
  shows "for_until f xs s = Inr (None, s)"
  using for_until_skip [of xs f s "[]"] assms by simp

lemma Kill_slot_miss:
  "p_pid (procs s ! j) \<noteq> pid \<Longrightarrow> Kill_slot i False pid sig j s = Inr (None, s)"
  by (simp add: Kill_slot_def Let_def)

lemma upt_split: "j < n \<Longrightarrow> [0..<n] = [0..<j] @ j # [Suc j..<n]"
  by (metis less_imp_le_nat upt_add_eq_append upt_conv_Cons le_add_diff_inverse zero_le)

lemma Kill_start:
  assumes "on_cpu i s" and "0 < sig" and "sig \<le> int CURRNUM" and "1 < pid \<or> pid = -1"
  shows "Kill pid sig s =
     and_then (for_until (Kill_slot i (pid = -1) pid (nat sig)) [0..<length (procs s)] (balanced s))
       (\<lambda>(r, s). case r of Some v \<Rightarrow> Inr (v, s) | None \<Rightarrow> Inr (0, s))"
  using on_cpuD [OF assms(1)] assms(2-4) by (auto simp: Kill_def myproc_ok)

lemma Kill_ok:
  assumes cpu: "on_cpu i s" and pids: "pids_ok (procs s) (nextpid s)"
    and sig: "0 < sig" "sig \<le> int CURRNUM" and j: "j < length (procs s)" and pid: "1 < p_pid (procs s ! j)"
    and tf: "p_tf (procs s ! i) \<noteq> 0" "p_tf (procs s ! j) \<noteq> 0" and may: "may_signal i j s"
  shows "Kill (p_pid (procs s ! j)) sig s = Inr (0, set_proc j (received (nat sig)) (balanced s))"
proof -
  note D = on_cpuD [OF cpu]
  let ?pid = "p_pid (procs s ! j)"
  have skip: "Kill_slot i False ?pid (nat sig) k (balanced s) = Inr (None, balanced s)" if "k < j" for k
    using that j pid pids_okD(5) [OF pids, of k j] by (intro Kill_slot_miss) auto
  have hit: "Kill_slot i False ?pid (nat sig) j (balanced s) =
      Inr (Some 0, set_proc j (received (nat sig)) (balanced s))"
    using Kill_slot_hit [of "balanced s" j False ?pid i "nat sig"] D j pid tf sig may
      scan_pid [OF pids j] by (simp add: may_signal_def)
  have "for_until (Kill_slot i False ?pid (nat sig)) [0..<length (procs s)] (balanced s) =
      Inr (Some 0, set_proc j (received (nat sig)) (balanced s))"
    unfolding upt_split [OF j] using skip hit by (subst for_until_skip) auto
  then show ?thesis using Kill_start [OF cpu sig, of ?pid] pid by simp
qed

lemma Kill_unknown:
  assumes "on_cpu i s" and "0 < sig" and "sig \<le> int CURRNUM" and "1 < pid"
    and "\<forall>p \<in> set (procs s). p_pid p \<noteq> pid"
  shows "Kill pid sig s = Inr (0, balanced s)"
proof -
  have "for_until (Kill_slot i False pid (nat sig)) [0..<length (procs s)] (balanced s) =
      Inr (None, balanced s)"
    using assms(5) by (intro for_until_none Kill_slot_miss) simp
  then show ?thesis using Kill_start [OF assms(1-3), of pid] assms(4) by simp
qed

lemma Kill_denied:
  assumes cpu: "on_cpu i s" and pids: "pids_ok (procs s) (nextpid s)"
    and sig: "0 < sig" "sig \<le> int CURRNUM" and j: "j < length (procs s)" and pid: "1 < p_pid (procs s ! j)"
    and tf: "p_tf (procs s ! i) \<noteq> 0" "p_tf (procs s ! j) \<noteq> 0" and may: "\<not> may_signal i j s"
  shows "Kill (p_pid (procs s ! j)) sig s = Inr (0, balanced s)"
proof -
  let ?pid = "p_pid (procs s ! j)"
  have skip: "Kill_slot i False ?pid (nat sig) k (balanced s) = Inr (None, balanced s)" if "k < j" for k
    using that j pid pids_okD(5) [OF pids, of k j] by (intro Kill_slot_miss) auto
  have "Kill_slot i False ?pid (nat sig) j (balanced s) = Inr (Some 0, balanced s)"
    using may pid tf by (simp add: Kill_slot_def tf_cs_of_def may_signal_def)
  then have "for_until (Kill_slot i False ?pid (nat sig)) [0..<length (procs s)] (balanced s) =
      Inr (Some 0, balanced s)"
    unfolding upt_split [OF j] using skip by (subst for_until_skip) auto
  then show ?thesis using Kill_start [OF cpu sig, of ?pid] pid by simp
qed

text \<open>
  \<open>Kill(-1, sig)\<close> visits every slot, free ones included. For SIGKILL it calls \<open>kill(0)\<close> on
  behalf of each slot without an id, which hits the first of them.
\<close>

definition broadcast_proc :: "nat \<Rightarrow> proc list \<Rightarrow> nat \<Rightarrow> proc" where
  "broadcast_proc sig ps l =
     (let p = ps ! l in
      if p_pid p = 1 then p
      else if sig = SIGKILL \<and> p_pid p = 0 \<and> scan (\<lambda>p. p_pid p = 0) ps \<noteq> Some l then p
      else received sig p)"

lemma received_frame [simp]:
  "p_pid (received sig p) = p_pid p" "p_tf (received sig p) = p_tf p"
  "p_allinfo (received sig p) = p_allinfo p" "p_sigblocked (received sig p) = p_sigblocked p"
  "p_userdefed (received sig p) = p_userdefed p"
  by (simp_all add: received_def killed_proc_def Let_def)

lemma broadcast_frame [simp]:
  "p_pid (broadcast_proc sig ps l) = p_pid (ps ! l)" "p_tf (broadcast_proc sig ps l) = p_tf (ps ! l)"
  by (simp_all add: broadcast_proc_def Let_def)

definition visited :: "nat \<Rightarrow> proc list \<Rightarrow> nat \<Rightarrow> proc list" where
  "visited sig ps j = map (\<lambda>l. if l < j then broadcast_proc sig ps l else ps ! l) [0..<length ps]"

lemma visited_simps [simp]:
  "length (visited sig ps j) = length ps" "visited sig ps 0 = ps"
  "l < length ps \<Longrightarrow> visited sig ps j ! l = (if l < j then broadcast_proc sig ps l else ps ! l)"
  by (simp_all add: visited_def map_nth)

lemma visited_Suc: "j < length ps \<Longrightarrow> visited sig ps (Suc j) = (visited sig ps j)[j := broadcast_proc sig ps j]"
  by (rule nth_equalityI) (auto simp: nth_list_update less_Suc_eq)

lemma scan_cong:
  assumes "length xs = length ys" and "\<And>k. k < length xs \<Longrightarrow> P (xs ! k) = P (ys ! k)"
  shows "scan P xs = scan P ys"
proof (cases "scan P ys")
  case None
  then have "scan P xs = None" using assms unfolding scan_None by (metis in_set_conv_nth)
  with None show ?thesis by simp
next
  case (Some k)
  then have "scan P xs = Some k" using assms unfolding scan_Some by auto
  with Some show ?thesis by simp
qed

lemma scan_visited: "scan (\<lambda>p. p_pid p = x) (visited sig ps j) = scan (\<lambda>p. p_pid p = x) ps"
  by (rule scan_cong) auto

lemma killed_proc_idem [simp]: "killed_proc (killed_proc p) = killed_proc p"
  by (simp add: killed_proc_def)

lemma Kill_slot_broadcast:
  assumes ease: "at_ease s" and bal: "balanced s = s" and ps: "procs s = visited sig ps j"
    and j: "j < length ps" and i: "i < length ps"
    and pids: "pids_ok ps n" and sig: "0 < sig"
    and tf: "\<forall>p \<in> set ps. p_tf p \<noteq> 0" and may: "\<forall>l < length ps. may_signal i l (s\<lparr>procs := ps\<rparr>)"
  shows "Kill_slot i True pid sig j s = Inr (None, s\<lparr>procs := visited sig ps (Suc j)\<rparr>)"
proof -
  let ?p = "ps ! j"
  have tf': "p_tf (procs s ! i) \<noteq> 0" "p_tf (procs s ! j) \<noteq> 0" and pj: "procs s ! j = ?p"
    using tf i j by (auto simp: ps)
  have may': "may_signal i j s" using may i j by (simp add: may_signal_def ps)
  have upd: "set_proc j f s = s\<lparr>procs := visited sig ps (Suc j)\<rparr>" if "f ?p = broadcast_proc sig ps j" for f
    using that j by (simp add: set_proc_def pj) (simp add: visited_Suc ps)
  show ?thesis
  proof (cases "p_pid ?p = 1")
    case True
    then have "s\<lparr>procs := visited sig ps (Suc j)\<rparr> = s"
      using upd [of "\<lambda>p. p"] by (simp add: broadcast_proc_def set_proc_id)
    then show ?thesis using True pj by (simp add: Kill_slot_def)
  next
    case one: False
    show ?thesis
    proof (cases "sig = SIGKILL \<and> p_pid ?p = 0 \<and> scan (\<lambda>p. p_pid p = 0) ps \<noteq> Some j")
      case True
      then obtain k where k: "scan (\<lambda>p. p_pid p = 0) ps = Some k" "k < j"
        using j scan_None [of "\<lambda>p. p_pid p = 0" ps] scan_SomeD(3) [of "\<lambda>p. p_pid p = 0" ps]
        by (metis linorder_neqE_nat not_None_eq nth_mem)
      have again: "set_proc k killed_proc s = s"
        using k scan_SomeD [OF k(1)] j
        by (intro set_proc_id) (simp add: ps broadcast_proc_def received_def True Let_def)
      have "Kill_slot i True pid sig j s = and_then (kill 0 s) (\<lambda>(_, s). Inr (None, s))"
        using True pj tf' may' one release_section [OF ease, of j "\<lambda>p. p"] bal
        by (auto simp: Kill_slot_def tf_cs_of_def may_signal_def acquire_at_ease [OF ease] set_proc_id)
      also have "\<dots> = Inr (None, s)"
        using kill_ok [OF ease, of 0] bal k(1) scan_visited [of 0 sig ps j] again by (simp add: ps)
      finally show ?thesis
        using upd [of "\<lambda>p. p"] True by (simp add: broadcast_proc_def set_proc_id)
    next
      case False
      have "scan (\<lambda>p. p_pid p = p_pid ?p) ps = Some j" if "sig = SIGKILL"
        using False that scan_pid [OF pids j] by (cases "p_pid ?p = 0") auto
      then have "Kill_slot i True pid sig j s = Inr (None, set_proc j (received sig) s)"
        using Kill_slot_hit [OF ease bal, of j True pid i sig] j one tf' sig may' pj
        by (cases "sig = SIGKILL") (simp_all add: ps scan_visited)
      then show ?thesis
        using upd [of "received sig"] one False by (auto simp: broadcast_proc_def Let_def)
    qed
  qed
qed

lemma Kill_broadcast_loop:
  assumes "at_ease s" and "balanced s = s" and "i < length ps" and "pids_ok ps n" and "0 < sig"
    and "\<forall>p \<in> set ps. p_tf p \<noteq> 0" and "\<forall>l < length ps. may_signal i l (s\<lparr>procs := ps\<rparr>)"
    and "j \<le> length ps"
  shows "for_until (Kill_slot i True pid sig) [length ps - j..<length ps]
      (s\<lparr>procs := visited sig ps (length ps - j)\<rparr>) =
    Inr (None, s\<lparr>procs := visited sig ps (length ps)\<rparr>)"
  using assms(8)
proof (induction j)
  case (Suc j)
  let ?k = "length ps - Suc j" and ?s = "s\<lparr>procs := visited sig ps (length ps - Suc j)\<rparr>"
  have k: "?k < length ps" "Suc ?k = length ps - j" using Suc.prems by simp_all
  have "Kill_slot i True pid sig ?k ?s = Inr (None, ?s\<lparr>procs := visited sig ps (Suc ?k)\<rparr>)"
    by (rule Kill_slot_broadcast [where ps = ps and n = n])
      (use assms k in \<open>simp_all add: at_ease_def may_signal_def\<close>)
  then show ?case
    using Suc k by (simp add: upt_conv_Cons [OF k(1)])
qed simp

lemma procs_same: "procs t = ps \<Longrightarrow> t\<lparr>procs := ps\<rparr> = t"
  by auto

lemma Kill_all:
  assumes "on_cpu i s" and "pids_ok (procs s) (nextpid s)" and "0 < sig" and "sig \<le> int CURRNUM"
    and "\<forall>p \<in> set (procs s). p_tf p \<noteq> 0" and "\<forall>l < length (procs s). may_signal i l s"
  shows "Kill (-1) sig s =
    Inr (0, (balanced s)\<lparr>procs := map (broadcast_proc (nat sig) (procs s)) [0..<length (procs s)]\<rparr>)"
proof -
  note D = on_cpuD [OF assms(1)]
  have "for_until (Kill_slot i True (-1) (nat sig)) [0..<length (procs s)] (balanced s) =
      Inr (None, (balanced s)\<lparr>procs := visited (nat sig) (procs s) (length (procs s))\<rparr>)"
    using Kill_broadcast_loop [of "balanced s" i "procs s" "nextpid s" "nat sig" "length (procs s)"] assms D
    by (simp add: may_signal_def procs_same)
  moreover have "visited (nat sig) (procs s) (length (procs s)) =
      map (broadcast_proc (nat sig) (procs s)) [0..<length (procs s)]"
    by (rule nth_equalityI) simp_all
  ultimately show ?thesis using Kill_start [OF assms(1,3,4), of "-1"] by simp
qed

section \<open>Properties\<close>

text \<open>
  C5: Posting a signal. \<open>Kill(pid, sig)\<close> for a process other than init, by a process that
  may signal it, returns 0 and changes that process and no other, as \<open>received\<close> says:
  SIGKILL marks it killed and wakes it, an ignored SIGCHLD is dropped, SIGCONT wakes it and
  is pended only for a user handler, any other signal is pended unless it is ignored.
\<close>

theorem Kill_delivers:
  assumes "on_cpu i s" and "pids_ok (procs s) (nextpid s)" and "0 < sig" and "sig \<le> int CURRNUM"
    and "j < length (procs s)" and "1 < p_pid (procs s ! j)"
    and "p_tf (procs s ! i) \<noteq> 0" and "p_tf (procs s ! j) \<noteq> 0" and "may_signal i j s"
  shows "\<exists>t. Kill (p_pid (procs s ! j)) sig s = Inr (0, t) \<and> on_cpu i t \<and>
    procs t = (procs s)[j := received (nat sig) (procs s ! j)] \<and> tfs t = tfs s \<and> mem t = mem s \<and>
    pids_ok (procs t) (nextpid t)"
proof -
  have "used (received (nat sig) (procs s ! j)) = used (procs s ! j)"
    by (simp add: used_def received_def killed_proc_def Let_def)
  then show ?thesis
    using Kill_ok [OF assms] assms(1,2,5) by (simp add: pids_ok_same)
qed

theorem Kill_delivers_witness:
  "\<exists>t. Kill 3 15 sample = Inr (0, t) \<and> bit (p_sigpending (procs t ! 2)) 15"
  using Kill_delivers [of 1 sample 15 2] sample_pids
  by (auto simp: may_signal_def received_def bit_or_sigbit bit_sigbit nth_list_update)

text \<open>
  C6: \<open>Kill\<close> refuses. An invalid signal number gives -1 and changes nothing; signalling
  init, pid 0 or a process group prints a message and gives 0; an unknown pid gives 0 (not
  an error) and a process in kernel mode is left alone.
\<close>

theorem Kill_refuses:
  assumes "on_cpu i s" and "pids_ok (procs s) (nextpid s)"
  shows "(sig \<le> 0 \<or> sig > int CURRNUM \<longrightarrow> Kill pid sig s = Inr (-1, s)) \<and>
    (0 < sig \<and> sig \<le> int CURRNUM \<longrightarrow>
      (pid = 0 \<or> pid = 1 \<or> pid < -1 \<longrightarrow> (\<exists>m. Kill pid sig s = Inr (0, s\<lparr>printed := m\<rparr>))) \<and>
      (1 < pid \<and> (\<forall>p \<in> set (procs s). p_pid p \<noteq> pid) \<longrightarrow> Kill pid sig s = Inr (0, balanced s)) \<and>
      (\<forall>j < length (procs s). 1 < pid \<and> p_pid (procs s ! j) = pid \<and> p_tf (procs s ! i) \<noteq> 0 \<and>
         p_tf (procs s ! j) \<noteq> 0 \<and> \<not> may_signal i j s \<longrightarrow> Kill pid sig s = Inr (0, balanced s)))"
  using assms Kill_unknown [of i s sig pid] Kill_denied [of i s sig]
  by (auto simp: Kill_def cprintf_def)

theorem Kill_refuses_witness:
  "Kill 3 23 sample = Inr (-1, sample) \<and> (\<exists>m. Kill 1 9 sample = Inr (0, sample\<lparr>printed := m\<rparr>)) \<and>
   Kill 77 9 sample = Inr (0, balanced sample)"
  using Kill_refuses [of 1 sample 23 3] Kill_refuses [of 1 sample 9 1] Kill_refuses [of 1 sample 9 77]
    sample_pids
  by (auto simp: sample_procs_def sample_proc_def)

lemma received_kill: "received SIGKILL p = killed_proc p" "p_killed (killed_proc p)"
  by (simp_all add: received_def killed_proc_def)



text \<open>
  C8: SIGKILL, SIGSTOP, SIGCONT and the non-signal 0 can never be blocked: no sequence of
  \<open>sigsetmask\<close>, \<open>sigblock\<close> and \<open>sigunblock\<close> calls, with whatever arguments, leaves one of
  their bits in the mask of blocked signals.
\<close>

theorem mask_never_blocks_kill_stop:
  assumes "on_cpu i s" and "blockable (p_sigblocked (procs s ! i))"
  shows "\<exists>t. mask_calls cs s = Inr t \<and> on_cpu i t \<and>
    (\<forall>n \<in> {0, SIGKILL, SIGCONT, SIGSTOP}. \<not> bit (p_sigblocked (procs t ! i)) n)"
  using mask_calls_inv [OF assms, of cs] by (auto simp: blockable_def)

theorem mask_never_blocks_kill_stop_witness:
  "\<exists>t. mask_calls [Set_mask 0xFFFFFFFF, Block 9, Block 2, Unblock 2] sample = Inr t \<and>
     \<not> bit (p_sigblocked (procs t ! 1)) SIGKILL"
  using mask_never_blocks_kill_stop [of 1 sample "[Set_mask 0xFFFFFFFF, Block 9, Block 2, Unblock 2]"]
  by (auto simp: blockable_def)

text \<open>
  C9: \<open>sigblock\<close> and \<open>sigunblock\<close> are inverse on the mask: blocking a signal that was not
  blocked and unblocking it again restores the mask, and both return the mask they leave.
\<close>

theorem sigblock_sigunblock:
  assumes "on_cpu i s" and "blockable (p_sigblocked (procs s ! i))"
    and "0 < sig" and "sig \<le> int CURRNUM" and "sig \<notin> {9, 18, 19}"
    and "\<not> bit (p_sigblocked (procs s ! i)) (nat sig)"
  shows "\<exists>t u m. sigblock sig s = Inr (m, t) \<and> m = p_sigblocked (procs t ! i) \<and> bit m (nat sig) \<and>
    sigunblock sig t = Inr (p_sigblocked (procs s ! i), u) \<and> procs u = procs s"
proof -
  let ?b = "p_sigblocked (procs s ! i)" and ?n = "nat sig"
  let ?m = "?b OR sigbit ?n"
  note D = on_cpuD [OF assms(1)]
  let ?t = "set_proc i (\<lambda>p. p\<lparr>p_sigblocked := ?m\<rparr>) (balanced s)"
  have t: "sigblock sig s = Inr (?m, ?t)" by (rule sigblock_ok [OF assms(1-5)])
  have ok: "on_cpu i ?t" "blockable (p_sigblocked (procs ?t ! i))"
    using assms D(4) by (auto simp: blockable_or)
  have undo: "?m AND NOT (sigbit ?n) = ?b"
    using assms(6) by (intro bit_eqI) (auto simp: bit_or_sigbit bit_and_not_sigbit)
  have u: "sigunblock sig ?t = Inr (?b, set_proc i (\<lambda>p. p\<lparr>p_sigblocked := ?b\<rparr>) (balanced ?t))"
    using sigunblock_ok [OF ok assms(3,4)] assms(5) undo D(4) by simp
  have "bit ?m ?n" using assms(3,4) by (simp add: bit_or_sigbit nat_less_iff)
  moreover have "procs (set_proc i (\<lambda>p. p\<lparr>p_sigblocked := ?b\<rparr>) (balanced ?t)) = procs s"
    using D(4) by (simp add: list_update_same_conv)
  moreover have "?m = p_sigblocked (procs ?t ! i)" using D(4) by simp
  ultimately show ?thesis using t u by blast
qed

theorem sigblock_sigunblock_witness:
  "\<exists>t u m. sigblock 2 sample = Inr (m, t) \<and> bit m 2 \<and> sigunblock 2 t = Inr (0, u) \<and> procs u = procs sample"
  using sigblock_sigunblock [of 1 sample 2]
  by (auto simp: blockable_def)

text \<open>
  C10: \<open>signal\<close> keeps the signal part of a process well formed: afterwards \<open>userdefed\<close> still
  holds exactly the signals with a user handler, SIGKILL and SIGSTOP keep the default
  disposition, pending and blocked signals and all other processes are unchanged.
\<close>

theorem signal_keeps_wf:
  assumes "on_cpu i s" and "sig_wf (procs s ! i)"
  shows "\<exists>r t. signal returnfn signum handler s = Inr (r, t) \<and> on_cpu i t \<and> sig_wf (procs t ! i) \<and>
    p_sigpending (procs t ! i) = p_sigpending (procs s ! i) \<and>
    p_sigblocked (procs t ! i) = p_sigblocked (procs s ! i) \<and>
    (\<forall>j. j \<noteq> i \<longrightarrow> procs t ! j = procs s ! j)"
proof (cases "catchable (nat signum)")
  case True
  have "length (p_allinfo (procs s ! i)) = NUMSIG" using assms(2) by (simp add: sig_wf_def)
  from signal_ok [OF assms(1) True this] show ?thesis
    using assms on_cpuD(4) [OF assms(1)] signal_proc_wf [OF assms(2) True]
    by (simp add: signal_proc_frame)
next
  case False
  then show ?thesis using assms by (simp add: signal_refused)
qed

theorem signal_keeps_wf_witness:
  "\<exists>r t. signal 0x80 10 0x40 sample = Inr (r, t) \<and> sig_wf (procs t ! 1)"
proof -
  have "sig_wf (procs sample ! 1)" by (simp add: sig_wf_def)
  from signal_keeps_wf [OF sample_on_cpu(1) this, of "0x80" 10 "0x40"] show ?thesis by blast
qed

text \<open>
  C11: \<open>signal\<close> reports what the previous call installed: the handler set by one call is the
  value returned by the next call for the same signal, and the first call returns the
  previous disposition; for SIGKILL, SIGSTOP and numbers out of range it returns SIG_ERR and
  changes nothing.
\<close>

theorem signal_returns_previous:
  assumes "on_cpu i s" and "length (p_allinfo (procs s ! i)) = NUMSIG"
  shows "if catchable (nat signum)
    then \<exists>t u. signal r1 signum h1 s = Inr (prev_handler (p_allinfo (procs s ! i) ! nat signum), t) \<and>
           signal r2 signum h2 t = Inr (h1, u)
    else signal r1 signum h1 s = Inr (SIG_ERR, s)"
proof (cases "catchable (nat signum)")
  case c: True
  note i = on_cpuD(4) [OF assms(1)]
  let ?t = "set_proc i (signal_proc r1 (nat signum) h1) (balanced s)"
  have q: "procs ?t ! i = signal_proc r1 (nat signum) h1 (procs s ! i)" using i by simp
  have n: "nat signum < NUMSIG" using c by (simp add: catchable_def)
  have "length (p_allinfo (procs ?t ! i)) = NUMSIG"
    unfolding q using assms(2) by (simp add: signal_proc_def forget_handler_def Let_def)
  then have "signal r2 signum h2 ?t = Inr (prev_handler (p_allinfo (procs ?t ! i) ! nat signum),
      set_proc i (signal_proc r2 (nat signum) h2) (balanced ?t))"
    using signal_ok [of i ?t signum r2 h2] c assms(1) by simp
  then show ?thesis
    using signal_ok [OF assms(1) c assms(2)] prev_handler_signal_proc [OF assms(2) n] c
    unfolding q by auto
next
  case False
  then show ?thesis by (simp add: signal_refused)
qed

theorem signal_returns_previous_witness:
  "(\<exists>t u. signal 0x80 10 0x40 sample = Inr (SIG_DFL, t) \<and> signal 0x80 10 SIG_IGN t = Inr (0x40, u)) \<and>
   signal 0x80 9 0x40 sample = Inr (SIG_ERR, sample)"
  using signal_returns_previous [of 1 sample 10 "0x80" "0x40" "0x80" SIG_IGN]
    signal_returns_previous [of 1 sample 9 "0x80" "0x40" "0x80" SIG_IGN]
  by (auto simp: sample_procs_def sample_proc_def sample_info_def prev_handler_def catchable_def
     )

end
