(* ===== verification/Psig.thy ===== *)
theory Psig
  imports Signal
begin

text \<open>
  What \<open>psig\<close> does, branch by branch: the default actions (terminate, dump, stop, continue,
  ignore), the jump to a user handler, and the return from it with \<open>kernel_sigreturn\<close>.
\<close>

unbundle bit_operations_syntax

section \<open>Default actions\<close>

lemma clear_pending_simps [simp]:
  "p_sigblocked (clear_pending n p) = p_sigblocked p" "p_allinfo (clear_pending n p) = p_allinfo p"
  "p_userdefed (clear_pending n p) = p_userdefed p" "p_state (clear_pending n p) = p_state p"
  "p_pid (clear_pending n p) = p_pid p" "p_killed (clear_pending n p) = p_killed p"
  "p_tf (clear_pending n p) = p_tf p" "p_addr_sigreturn (clear_pending n p) = p_addr_sigreturn p"
  "bit (p_sigpending (clear_pending n p)) m \<longleftrightarrow> bit (p_sigpending p) m \<and> m \<noteq> n"
  by (simp_all add: clear_pending_def bit_and_not_sigbit)

lemma default_due_bit:
  "n < 32 \<Longrightarrow> default_due n p \<longleftrightarrow>
     bit (p_sigpending p) n \<and> \<not> bit (p_sigblocked p) n \<and> h_disposition (p_allinfo p ! n) = DFL"
  by (simp add: default_due_def and_sigbit_eq and_sigbit_zero)

lemma default_due_clear [simp]:
  "n < 32 \<Longrightarrow> default_due n (clear_pending m p) \<longleftrightarrow> default_due n p \<and> n \<noteq> m"
  by (auto simp: default_due_bit)

lemma killed_proc_simps [simp]:
  "p_sigpending (killed_proc p) = p_sigpending p" "p_sigblocked (killed_proc p) = p_sigblocked p"
  "p_allinfo (killed_proc p) = p_allinfo p" "p_pid (killed_proc p) = p_pid p"
  "p_userdefed (killed_proc p) = p_userdefed p" "p_killed (killed_proc p)"
  "p_state p = RUNNING \<Longrightarrow> p_state (killed_proc p) = RUNNING" "default_due n (killed_proc p) = default_due n p"
  by (simp_all add: killed_proc_def default_due_def)

lemma clear_killed: "clear_pending n (killed_proc p) = killed_proc (clear_pending n p)"
  by (simp add: clear_pending_def killed_proc_def)

definition clear_all :: "nat list \<Rightarrow> proc \<Rightarrow> proc" where
  "clear_all ns p = fold clear_pending ns p"

lemma clear_all_simps [simp]:
  "clear_all [] = (\<lambda>p. p)" "clear_all (n # ns) = (\<lambda>p. clear_all ns (clear_pending n p))"
  by (simp_all add: clear_all_def fun_eq_iff)

lemma clear_all_append: "clear_all (ms @ ns) p = clear_all ns (clear_all ms p)"
  by (simp add: clear_all_def)

lemma clear_all_frame [simp]:
  "p_sigblocked (clear_all ns p) = p_sigblocked p" "p_allinfo (clear_all ns p) = p_allinfo p"
  "p_userdefed (clear_all ns p) = p_userdefed p" "p_state (clear_all ns p) = p_state p"
  "p_pid (clear_all ns p) = p_pid p" "p_killed (clear_all ns p) = p_killed p"
  "p_tf (clear_all ns p) = p_tf p" "p_addr_sigreturn (clear_all ns p) = p_addr_sigreturn p"
  "bit (p_sigpending (clear_all ns p)) m \<longleftrightarrow> bit (p_sigpending p) m \<and> m \<notin> set ns"
  by (induction ns arbitrary: p) auto

lemma default_due_clear_all [simp]:
  "n < 32 \<Longrightarrow> default_due n (clear_all ns p) \<longleftrightarrow> default_due n p \<and> n \<notin> set ns"
  by (auto simp: default_due_bit)

lemma clear_all_killed: "clear_all ns (killed_proc p) = killed_proc (clear_all ns p)"
  by (induction ns arbitrary: p) (simp_all add: clear_killed)

text \<open>
  The loops over signals with one default action: the action \<open>act\<close>, with effect \<open>eff\<close>, is
  performed once if any of the signals is due, and all due ones are cleared.
\<close>

definition dues :: "nat list \<Rightarrow> proc \<Rightarrow> nat list" where
  "dues ns p = filter (\<lambda>n. default_due n p) ns"

lemma dues_simps [simp]:
  "dues [] p = []"
  "dues (n # ns) p = (if default_due n p then n # dues ns p else dues ns p)"
  "n \<notin> set ns \<Longrightarrow> \<forall>m \<in> set ns. m < 32 \<Longrightarrow> dues ns (clear_pending n p) = dues ns p"
  "dues ns (killed_proc p) = dues ns p"
  by (auto simp: dues_def intro!: filter_cong)

lemma act_loop_done:
  assumes "inside i s" and "distinct ns" and "\<forall>n \<in> set ns. n < 32"
  shows "for_each (act_once act i) ns (True, s) = Inr (True, set_proc i (clear_all (dues ns (procs s ! i))) s)"
  using assms
proof (induction ns arbitrary: s)
  case Nil
  then show ?case by (simp add: set_proc_id)
next
  case (Cons n ns)
  show ?case
  proof (cases "default_due n (procs s ! i)")
    case True
    then show ?thesis
      using Cons insideD(5) [OF Cons.prems(1)] Cons.IH [of "set_proc i (clear_pending n) s"]
      by (simp add: act_once_def [of _ i n])
  next
    case False
    then show ?thesis using Cons by (simp add: act_once_def [of _ i n])
  qed
qed

lemma act_loop:
  assumes "inside i s" and "distinct ns" and "\<forall>n \<in> set ns. n < 32"
    and act: "act s = Inr (eff s)" and eff: "inside i (eff s)" "procs (eff s) ! i = killed_proc (procs s ! i)"
  shows "for_each (act_once act i) ns (False, s) =
    Inr (dues ns (procs s ! i) \<noteq> [],
      if dues ns (procs s ! i) = [] then s
      else set_proc i (clear_all (dues ns (procs s ! i))) (eff s))"
  using assms(2,3)
proof (induction ns)
  case Nil
  then show ?case by simp
next
  case (Cons n ns)
  show ?case
  proof (cases "default_due n (procs s ! i)")
    case True
    then show ?thesis
      using Cons.prems act eff insideD(5) [OF eff(1)]
        act_loop_done [of i "set_proc i (clear_pending n) (eff s)" ns act]
      by (simp add: act_once_def [of _ i n])
  next
    case False
    then show ?thesis using Cons by (simp add: act_once_def [of _ i n])
  qed
qed

lemma inside_printed [simp]: "inside i (s\<lparr>printed := m\<rparr>) = inside i s"
  by (simp add: inside_def)

lemma sigterm_ok:
  assumes "inside i s" and "pids_ok (procs s) n" and "p_pid (procs s ! i) \<noteq> 0"
  shows "sigterm i s = Inr (set_proc i killed_proc s)"
proof -
  note D = insideD [OF assms(1)]
  have ease: "at_ease (leave L_ptable s)" using on_cpuD(5) [OF release_inside(2) [OF assms(1)]] .
  have "scan (\<lambda>p. p_pid p = p_pid (procs s ! i)) (procs s) = Some i"
    using scan_pid [OF assms(2) D(5) assms(3)] .
  then have "kill (p_pid (procs s ! i)) (leave L_ptable s) =
      Inr (0, set_proc i killed_proc (balanced (leave L_ptable s)))"
    using kill_ok [OF ease, of "p_pid (procs s ! i)"] by simp
  moreover have "acquire L_ptable (set_proc i killed_proc (balanced (leave L_ptable s))) =
      Inr (set_proc i killed_proc s)"
    using ease acquire_at_ease [of "set_proc i killed_proc (balanced (leave L_ptable s))"]
      enter_leave [of s L_ptable] D by (simp add: at_ease_def)
  ultimately show ?thesis using release_inside(1) [OF assms(1)] by (simp add: sigterm_def)
qed

text \<open>What a core dump prints.\<close>

definition core_msgs :: "proc \<Rightarrow> 'a proc_state_scheme \<Rightarrow> kmsg list" where
  "core_msgs p s = printed (cprintf [CHR 0x0A] [] (if p_state p \<noteq> UNUSED then dump_proc p s else s))"

lemma fold_cprintf: "\<exists>m. fold (\<lambda>pc. cprintf f [A_hex pc]) pcs s = s\<lparr>printed := m\<rparr>"
proof (induction pcs arbitrary: s)
  case Nil
  have "s\<lparr>printed := printed s\<rparr> = s" by simp
  then show ?case by (intro exI [of _ "printed s"]) simp
next
  case (Cons x pcs)
  from Cons [of "cprintf f [A_hex x] s"] show ?case by (auto simp: cprintf_def)
qed

lemma dump_proc_ok: "\<exists>m. dump_proc p s = s\<lparr>printed := m\<rparr>"
proof -
  let ?s = "cprintf ''%d %s %s'' [A_int (p_pid p), A_name (state_name (p_state p)), A_str (p_name p)] s"
  let ?pcs = "if p_state p = SLEEPING
              then takeWhile (\<lambda>pc. pc \<noteq> 0) (getcallerpcs (mem ?s) (x_ebp (contexts ?s (p_context p)) + 8))
              else []"
  obtain m where "fold (\<lambda>pc. cprintf '' %p'' [A_hex pc]) ?pcs ?s = ?s\<lparr>printed := m\<rparr>"
    using fold_cprintf by blast
  moreover have "?s\<lparr>printed := m\<rparr> = s\<lparr>printed := m\<rparr>" by (simp add: cprintf_def)
  ultimately show ?thesis by (auto simp: dump_proc_def Let_def)
qed

lemma coredump_ok:
  assumes "inside i s"
  shows "coredump s = Inr (s\<lparr>printed := core_msgs (procs s ! i) s\<rparr>)"
proof -
  note D = insideD [OF assms]
  obtain m where m: "dump_proc (procs s ! i) s = s\<lparr>printed := m\<rparr>" using dump_proc_ok by blast
  show ?thesis
    using D m by (simp add: coredump_def with_proc_ok core_msgs_def cprintf_def)
qed

lemma core_ok:
  assumes "inside i s" and "pids_ok (procs s) n" and "p_pid (procs s ! i) \<noteq> 0"
  shows "core i s = Inr (set_proc i killed_proc (s\<lparr>printed := core_msgs (procs s ! i) s\<rparr>))"
  using sigterm_ok [of i "s\<lparr>printed := core_msgs (procs s ! i) s\<rparr>" n] assms coredump_ok [OF assms(1)]
  by (simp add: core_def sigterm_def)

lemma set_proc_printed [simp]: "(set_proc i f s)\<lparr>printed := m\<rparr> = set_proc i f (s\<lparr>printed := m\<rparr>)"
  by (simp add: set_proc_def)

lemma dues_clear_all [simp]:
  "set ns \<inter> set ms = {} \<Longrightarrow> \<forall>m \<in> set ns. m < 32 \<Longrightarrow> dues ns (clear_all ms p) = dues ns p"
  by (auto simp: dues_def intro!: filter_cong)

lemma set_dues: "set (dues ns p) \<subseteq> set ns"
  by (auto simp: dues_def)

lemma dues_empty: "dues ns p = [] \<longleftrightarrow> (\<forall>n \<in> set ns. \<not> default_due n p)"
  by (simp add: dues_def filter_empty_conv)

lemma sig_tables:
  "distinct termsig" "distinct coresig" "distinct stopsig" "\<forall>n \<in> set termsig. n < 32"
  "\<forall>n \<in> set coresig. n < 32" "set coresig \<inter> set termsig = {}"
  "\<forall>n \<in> set stopsig. n < 32" "set stopsig \<inter> set (termsig @ coresig) = {}"
  "17 \<notin> set (termsig @ coresig)" "18 \<notin> set (termsig @ coresig)" "19 \<notin> set (termsig @ coresig)"
  by (auto simp: termsig_def coresig_def stopsig_def)

text \<open>A process that is to be terminated by default, and the effect of both terminating loops.\<close>

definition doomed :: "proc \<Rightarrow> bool" where
  "doomed p \<longleftrightarrow> dues (termsig @ coresig) p \<noteq> []"

definition ended :: "proc \<Rightarrow> proc" where
  "ended p = clear_all (dues (termsig @ coresig) p) (if doomed p then killed_proc p else p)"

lemma term_loop:
  assumes "inside i u" and "pids_ok (procs u) n" and "p_pid (procs u ! i) \<noteq> 0"
  shows "\<exists>d. for_each (act_once (sigterm i) i) termsig (False, u) =
     Inr (d, set_proc i (\<lambda>p. clear_all (dues termsig p) (if dues termsig p = [] then p else killed_proc p)) u)"
proof -
  have "for_each (act_once (sigterm i) i) termsig (False, u) =
    Inr (dues termsig (procs u ! i) \<noteq> [],
      if dues termsig (procs u ! i) = [] then u
      else set_proc i (clear_all (dues termsig (procs u ! i))) (set_proc i killed_proc u))"
    using assms sig_tables insideD(5) [OF assms(1)] by (intro act_loop) (simp_all add: sigterm_ok)
  then show ?thesis
    by (auto simp: set_proc_id intro!: set_proc_eqI)
qed

lemma core_loop:
  assumes "inside i u" and "pids_ok (procs u) n" and "p_pid (procs u ! i) \<noteq> 0"
  shows "\<exists>d m. for_each (act_once (core i) i) coresig (False, u) =
     Inr (d, set_proc i (\<lambda>p. clear_all (dues coresig p) (if dues coresig p = [] then p else killed_proc p))
            (u\<lparr>printed := m\<rparr>)) \<and> (dues coresig (procs u ! i) = [] \<longrightarrow> m = printed u)"
proof -
  let ?m = "core_msgs (procs u ! i) u"
  have loop: "for_each (act_once (core i) i) coresig (False, u) =
    Inr (dues coresig (procs u ! i) \<noteq> [],
      if dues coresig (procs u ! i) = [] then u
      else set_proc i (clear_all (dues coresig (procs u ! i))) (set_proc i killed_proc (u\<lparr>printed := ?m\<rparr>)))"
    using assms sig_tables insideD(5) [OF assms(1)] by (intro act_loop) (simp_all add: core_ok)
  show ?thesis
  proof (cases "dues coresig (procs u ! i) = []")
    case True
    then show ?thesis using loop
      by (intro exI [of _ False] exI [of _ "printed u"]) (simp add: set_proc_id)
  next
    case False
    then show ?thesis using loop
      by (intro exI [of _ True] exI [of _ ?m]) (auto intro!: set_proc_eqI)
  qed
qed

lemma ended_split:
  "clear_all (dues coresig q) (if dues coresig q = [] then q else killed_proc q) = ended p"
  if "q = clear_all (dues termsig p) (if dues termsig p = [] then p else killed_proc p)"
proof -
  have "dues coresig q = dues coresig p"
    unfolding that using sig_tables(5,6) set_dues [of termsig p]
    by (auto simp: clear_all_killed intro!: dues_clear_all)
  then show ?thesis
    unfolding that ended_def doomed_def
    by (auto simp: dues_def clear_all_append clear_all_killed)
qed

lemma end_loops:
  assumes "inside i u" and "pids_ok (procs u) n" and "p_pid (procs u ! i) \<noteq> 0"
  shows "\<exists>m. and_then (for_each (act_once (sigterm i) i) termsig (False, u)) (\<lambda>(_, s).
             and_then (for_each (act_once (core i) i) coresig (False, s)) (\<lambda>(_, s). k s)) =
           k (set_proc i ended (u\<lparr>printed := m\<rparr>)) \<and>
         (dues coresig (procs u ! i) = [] \<longrightarrow> m = printed u)"
proof -
  let ?f = "\<lambda>p. clear_all (dues termsig p) (if dues termsig p = [] then p else killed_proc p)"
  let ?u = "set_proc i ?f u"
  note i = insideD(5) [OF assms(1)]
  have pids: "pids_ok (procs ?u) n"
    using assms(2) i by (auto intro!: pids_ok_same simp: used_def killed_proc_def)
  have q: "procs ?u ! i = ?f (procs u ! i)" using i by simp
  have pid: "p_pid (procs ?u ! i) \<noteq> 0" unfolding q using assms(3) by simp
  obtain d m where core: "for_each (act_once (core i) i) coresig (False, ?u) =
     Inr (d, set_proc i (\<lambda>p. clear_all (dues coresig p) (if dues coresig p = [] then p else killed_proc p))
            (?u\<lparr>printed := m\<rparr>))" "dues coresig (procs ?u ! i) = [] \<longrightarrow> m = printed ?u"
    using core_loop [of i ?u n, OF _ pids pid] assms(1) by auto
  have "dues coresig (procs ?u ! i) = dues coresig (procs u ! i)"
    unfolding q using sig_tables(5,6) set_dues [of termsig "procs u ! i"]
    by (auto simp: clear_all_killed intro!: dues_clear_all)
  moreover have "set_proc i (\<lambda>p. clear_all (dues coresig p) (if dues coresig p = [] then p else killed_proc p))
            (?u\<lparr>printed := m\<rparr>) = set_proc i ended (u\<lparr>printed := m\<rparr>)"
    by (simp only: set_proc_printed set_proc_twice) (rule set_proc_eqI, rule ended_split, simp)
  moreover obtain d' where "for_each (act_once (sigterm i) i) termsig (False, u) = Inr (d', ?u)"
    using term_loop [OF assms] by blast
  ultimately show ?thesis using core by (intro exI [of _ m]) simp
qed

text \<open>
  The rest of \<open>psig\<close> when no further stop is made: SIGCHLD is dropped, a due stop signal
  is cleared (and takes a due SIGCONT with it), a remaining SIGCONT is cleared.
\<close>

definition stop_clear :: "nat \<Rightarrow> proc \<Rightarrow> proc" where
  "stop_clear n p =
     (if default_due n p then clear_pending n (if default_due SIGCONT p then clear_pending SIGCONT p else p)
      else p)"

definition cont_proc :: "proc \<Rightarrow> proc" where
  "cont_proc p = (if p_state p = SLEEPING then p\<lparr>p_state := RUNNABLE, p_justwoken := True\<rparr> else p)"

definition chld_proc :: "proc \<Rightarrow> proc" where
  "chld_proc p = (if default_due SIGCHLD p then clear_pending SIGCHLD p else p)"

definition settle_tail :: "proc \<Rightarrow> proc" where
  "settle_tail p =
     (let p = fold stop_clear stopsig (chld_proc p)
      in if default_due SIGCONT p then clear_pending SIGCONT (cont_proc p) else p)"

lemma stop_step_quiet:
  assumes "inside i s" and "d \<or> \<not> default_due n (procs s ! i)"
  shows "stop_step swtch i n (d, s) = Inr (d, set_proc i (stop_clear n) s)"
proof (cases "default_due n (procs s ! i)")
  case True
  then show ?thesis
    using assms(2) by (auto simp: stop_step_def act_once_def stop_clear_def intro!: set_proc_eqI)
next
  case False
  then show ?thesis by (simp add: stop_step_def act_once_def stop_clear_def set_proc_id)
qed

lemma stop_clear_frame [simp]:
  "p_sigblocked (stop_clear n p) = p_sigblocked p" "p_allinfo (stop_clear n p) = p_allinfo p"
  "p_userdefed (stop_clear n p) = p_userdefed p" "p_state (stop_clear n p) = p_state p"
  "p_pid (stop_clear n p) = p_pid p" "p_killed (stop_clear n p) = p_killed p"
  by (simp_all add: stop_clear_def)

lemma stop_loop_quiet:
  assumes "inside i s" and "d \<or> (\<forall>n \<in> set ns. \<not> default_due n (procs s ! i))"
    and "\<forall>n \<in> set ns. n < 32"
  shows "for_each (stop_step swtch i) ns (d, s) = Inr (d, set_proc i (fold stop_clear ns) s)"
  using assms
proof (induction ns arbitrary: s)
  case Nil
  then show ?case by (simp add: set_proc_id)
next
  case (Cons n ns)
  have step: "stop_step swtch i n (d, s) = Inr (d, set_proc i (stop_clear n) s)"
    using Cons.prems by (intro stop_step_quiet) auto
  have "for_each (stop_step swtch i) ns (d, set_proc i (stop_clear n) s) =
      Inr (d, set_proc i (fold stop_clear ns) (set_proc i (stop_clear n) s))"
    using Cons.prems insideD(5) [OF Cons.prems(1)]
    by (intro Cons.IH) (auto simp: stop_clear_def)
  then show ?case using step by (simp add: comp_def)
qed

lemma fold_stop_clear_frame [simp]:
  "p_userdefed (fold stop_clear ns p) = p_userdefed p" "p_state (fold stop_clear ns p) = p_state p"
  "p_pid (fold stop_clear ns p) = p_pid p" "p_killed (fold stop_clear ns p) = p_killed p"
  by (induction ns arbitrary: p) simp_all

lemma settle_tail_frame [simp]:
  "p_userdefed (settle_tail p) = p_userdefed p" "p_pid (settle_tail p) = p_pid p"
  "p_killed (settle_tail p) = p_killed p" "p_state p \<noteq> SLEEPING \<Longrightarrow> p_state (settle_tail p) = p_state p"
  by (simp_all add: settle_tail_def chld_proc_def cont_proc_def Let_def)

text \<open>How \<open>psig\<close> ends: back to its caller, or off to a handler.\<close>

definition psig_end :: "nat \<Rightarrow> 'a proc_state_scheme \<Rightarrow> (psig_exit \<times> 'a proc_state_scheme) outcome" where
  "psig_end i s =
     (if p_userdefed (procs s ! i) = 0 then and_then (release L_ptable s) (\<lambda>s. Inr (Back 1, s))
      else enter_handler i s)"

lemma cont_eq: "cont i s = set_proc i cont_proc s"
  by (simp add: cont_def cont_proc_def set_proc_id) (auto intro!: set_proc_eqI simp: cont_proc_def)

lemma psig_rest:
  assumes ins: "inside i s" and quiet: "d \<or> (\<forall>n \<in> set stopsig. \<not> default_due n (procs s ! i))"
  shows "psig_stopped swtch i d s =
       psig_end i (set_proc i settle_tail s)"
proof -
  note i = insideD(5) [OF ins]
  have chld: "(if default_due SIGCHLD (procs s ! i) then set_proc i (clear_pending SIGCHLD) s else s) =
      set_proc i chld_proc s"
    by (auto simp: chld_proc_def set_proc_id intro!: set_proc_eqI)
  have loop: "for_each (stop_step swtch i) stopsig (d, set_proc i chld_proc s) =
      Inr (d, set_proc i (fold stop_clear stopsig) (set_proc i chld_proc s))"
    using ins quiet i sig_tables(7)
    by (intro stop_loop_quiet) (auto simp: chld_proc_def stopsig_def)
  let ?t = "set_proc i (\<lambda>p. fold stop_clear stopsig (chld_proc p)) s"
  have cont: "(if default_due SIGCONT (procs ?t ! i)
      then set_proc i (clear_pending SIGCONT) (cont i ?t) else ?t) = set_proc i settle_tail s"
    using i by (auto simp: cont_eq settle_tail_def Let_def intro!: set_proc_eqI)
  show ?thesis
    unfolding psig_stopped_def chld using loop cont by (simp add: Let_def psig_end_def)
qed

text \<open>The whole of \<open>psig\<close> for a process that is not to be stopped.\<close>

definition settled :: "proc \<Rightarrow> proc" where
  "settled p = settle_tail (ended p)"

lemma ended_frame [simp]:
  "p_userdefed (ended p) = p_userdefed p" "p_pid (ended p) = p_pid p"
  "p_state p = RUNNING \<Longrightarrow> p_state (ended p) = RUNNING"
  "p_killed (ended p) \<longleftrightarrow> p_killed p \<or> doomed p"
  "p_allinfo (ended p) = p_allinfo p" "p_sigblocked (ended p) = p_sigblocked p"
  "bit (p_sigpending (ended p)) n \<longleftrightarrow> bit (p_sigpending p) n \<and> n \<notin> set (dues (termsig @ coresig) p)"
  by (auto simp: ended_def)

definition to_stop :: "proc \<Rightarrow> bool" where
  "to_stop p \<longleftrightarrow> bit (p_sigpending p) SIGSTOP \<or> (\<exists>n \<in> set stopsig. default_due n p)"

lemma to_stop_ended: "to_stop (ended p) = to_stop p"
proof -
  have "19 \<notin> set (dues (termsig @ coresig) p)" using set_dues sig_tables(11) by blast
  moreover have "default_due n (ended p) = default_due n p" if "n \<in> set stopsig" for n
  proof -
    have "n \<notin> set (dues (termsig @ coresig) p)" using that set_dues sig_tables(8) by blast
    then show ?thesis using that sig_tables(7) by (simp add: default_due_bit)
  qed
  ultimately show ?thesis unfolding to_stop_def by auto
qed

lemma psig_unstopped:
  assumes cpu: "on_cpu i s" and ncli: "c_ncli (self_cpu s) = 0" and pids: "pids_ok (procs s) n"
    and pid: "p_pid (procs s ! i) \<noteq> 0" and go: "\<not> to_stop (procs s ! i)"
  shows "\<exists>m. psig swtch (Some i) s = psig_end i (set_proc i settled ((enter L_ptable s)\<lparr>printed := m\<rparr>)) \<and>
    (dues coresig (procs s ! i) = [] \<longrightarrow> m = printed s)"
proof -
  note D = on_cpuD [OF cpu]
  let ?u = "enter L_ptable s"
  have ins: "inside i ?u" using D ncli by (simp add: inside_def)
  have stop: "\<not> (p_sigpending (procs t ! i) AND sigbit SIGSTOP = sigbit SIGSTOP)"
    "\<forall>n \<in> set stopsig. \<not> default_due n (procs t ! i)"
    if "t = set_proc i ended (?u\<lparr>printed := m\<rparr>)" for t m
    using go to_stop_ended [of "procs s ! i"] D(4) unfolding that to_stop_def
    by (auto simp: and_sigbit_eq)
  have rest: "inside i (set_proc i ended (?u\<lparr>printed := m\<rparr>))" for m using ins by simp
  obtain m where m: "psig swtch (Some i) s = psig_tail swtch i (set_proc i ended (?u\<lparr>printed := m\<rparr>))"
      "dues coresig (procs ?u ! i) = [] \<longrightarrow> m = printed ?u"
    using end_loops [OF ins, of n "psig_tail swtch i"] pids pid
    by (auto simp: psig_def acquire_at_ease [OF D(5)])
  have "psig_tail swtch i (set_proc i ended (?u\<lparr>printed := m\<rparr>)) =
      psig_end i (set_proc i settle_tail (set_proc i ended (?u\<lparr>printed := m\<rparr>)))"
    using stop [OF refl, of m] psig_rest [OF rest [of m], of False swtch] by (simp add: psig_tail_def)
  then show ?thesis using m by (intro exI [of _ m]) (simp add: settled_def [abs_def])
qed

lemma stop_clear_due [simp]:
  "m < 32 \<Longrightarrow> n < 32 \<Longrightarrow> default_due m (stop_clear n p) \<longleftrightarrow>
     default_due m p \<and> m \<noteq> n \<and> \<not> (m = SIGCONT \<and> default_due n p)"
  by (auto simp: stop_clear_def)

lemma fold_stop_clear_due:
  "\<forall>n \<in> set ns. n < 32 \<Longrightarrow> m < 32 \<Longrightarrow> m \<noteq> SIGCONT \<Longrightarrow>
     default_due m (fold stop_clear ns p) \<longleftrightarrow> default_due m p \<and> m \<notin> set ns"
  by (induction ns arbitrary: p) auto

lemma stop_clear_id: "\<not> default_due n p \<Longrightarrow> stop_clear n p = p"
  by (simp add: stop_clear_def)

lemma fold_stop_clear_id: "\<forall>n \<in> set ns. \<not> default_due n p \<Longrightarrow> fold stop_clear ns p = p"
  by (induction ns) (simp_all add: stop_clear_id)

lemma cont_proc_simps [simp]:
  "p_sigpending (cont_proc p) = p_sigpending p" "p_sigblocked (cont_proc p) = p_sigblocked p"
  "p_allinfo (cont_proc p) = p_allinfo p"
  by (simp_all add: cont_proc_def)

lemma settle_tail_no_stop:
  assumes "n \<in> set stopsig"
  shows "\<not> default_due n (settle_tail p)"
proof -
  have n: "n < 32" "n \<noteq> 18" using assms by (auto simp: stopsig_def)
  then have "\<not> default_due n (fold stop_clear stopsig (chld_proc p))"
    using fold_stop_clear_due [of stopsig n "chld_proc p"] assms sig_tables(7) by simp
  then show ?thesis using n by (auto simp: settle_tail_def Let_def default_due_bit)
qed

lemma settled_pending:
  assumes "\<not> to_stop p"
  shows "bit (p_sigpending (settled p)) n \<longleftrightarrow>
     bit (p_sigpending p) n \<and> \<not> (n \<in> set (termsig @ coresig @ [SIGCHLD, SIGCONT]) \<and> default_due n p)"
proof -
  let ?e = "ended p"
  have keep: "default_due k ?e = default_due k p" if "k \<in> {17, 18}" for k
  proof -
    have "k \<notin> set (dues (termsig @ coresig) p)" using that set_dues sig_tables(9,10) by blast
    then show ?thesis using that by (auto simp: default_due_bit)
  qed
  have "\<forall>k \<in> set stopsig. \<not> default_due k ?e" using assms to_stop_ended unfolding to_stop_def by blast
  then have "\<forall>k \<in> set stopsig. \<not> default_due k (chld_proc ?e)"
    using sig_tables(7) by (simp add: chld_proc_def)
  then have tail: "settle_tail ?e =
      (if default_due 18 (chld_proc ?e) then clear_pending 18 (cont_proc (chld_proc ?e)) else chld_proc ?e)"
    by (simp add: settle_tail_def fold_stop_clear_id)
  show ?thesis
    unfolding settled_def tail using keep [of 17] keep [of 18]
    by (auto simp: chld_proc_def dues_def)
qed

lemma printed_same: "printed t = m \<Longrightarrow> t\<lparr>printed := m\<rparr> = t"
  by auto

lemma psig_end_back:
  assumes "inside i s" and "p_userdefed (procs s ! i) = 0"
  shows "psig_end i s = Inr (Back 1, leave L_ptable s)"
  using assms release_inside [OF assms(1)] by (simp add: psig_end_def)

text \<open>A pending SIGSTOP puts the process to sleep, once, and is then forgotten.\<close>

lemma psig_stop:
  assumes cpu: "on_cpu i s" and ncli: "c_ncli (self_cpu s) = 0" and pids: "pids_ok (procs s) n"
    and pid: "p_pid (procs s ! i) \<noteq> 0" and live: "\<not> doomed (procs s ! i)"
    and pend: "bit (p_sigpending (procs s ! i)) SIGSTOP"
    and ret: "inside i (swtch (set_proc i (\<lambda>p. p\<lparr>p_state := SLEEPING\<rparr>) (enter L_ptable s)))"
  shows "psig swtch (Some i) s =
     psig_end i (set_proc i (\<lambda>p. settle_tail (clear_pending SIGSTOP p))
       (reinstate (ifl s) (swtch (set_proc i (\<lambda>p. p\<lparr>p_state := SLEEPING\<rparr>) (enter L_ptable s)))))"
proof -
  note D = on_cpuD [OF cpu]
  let ?u = "enter L_ptable s"
  let ?w = "set_proc i (\<lambda>p. p\<lparr>p_state := SLEEPING\<rparr>) ?u"
  have ins: "inside i ?u" using D ncli by (simp add: inside_def)
  have no_dues: "dues (termsig @ coresig) (procs s ! i) = []" using live by (simp add: doomed_def)
  then have "dues coresig (procs s ! i) = []" by (simp add: dues_def)
  moreover have "ended (procs s ! i) = procs s ! i" using live no_dues by (simp add: ended_def)
  ultimately have start: "psig swtch (Some i) s = psig_tail swtch i ?u"
    using end_loops [OF ins, of n "psig_tail swtch i"] pids pid
    by (auto simp: psig_def acquire_at_ease [OF D(5)] set_proc_id printed_same)
  have "sched swtch ?w = Inr (reinstate (ifl s) (swtch ?w))"
    using sched_ok [of i ?w swtch] ins ret D ncli by simp
  then have stop: "stop swtch i ?u = Inr (reinstate (ifl s) (swtch ?w))" by (simp add: stop_def)
  have "inside i (set_proc i (clear_pending SIGSTOP) (reinstate (ifl s) (swtch ?w)))" using ret by simp
  from psig_rest [OF this, of True swtch] show ?thesis
    unfolding start using stop pend by (simp add: psig_tail_def and_sigbit_eq)
qed

section \<open>User handlers\<close>

subsection \<open>The frame on the user stack\<close>

definition frame_words :: "trapframe \<Rightarrow> nat \<Rightarrow> u32 \<Rightarrow> (nat \<times> u32) list" where
  "frame_words tf sig ret =
     [(4, ucast (tf_ss tf)), (8, tf_esp tf), (12, tf_eflags tf), (16, ucast (tf_cs tf)),
      (20, tf_eip tf), (24, ucast (tf_ds tf)), (28, ucast (tf_es tf)), (32, ucast (tf_fs tf)),
      (36, ucast (tf_gs tf)), (40, tf_eax tf), (44, tf_ecx tf), (48, tf_edx tf), (52, tf_ebx tf),
      (56, tf_oesp tf), (60, tf_ebp tf), (64, tf_esi tf), (68, tf_edi tf),
      (72, of_nat sig), (76, ret)]"

lemma handler_frame_words:
  "handler_frame tf sig ret = map (\<lambda>(k, w). (of_nat k, w)) (frame_words tf sig ret)"
  by (simp add: handler_frame_def frame_words_def)

definition put_words :: "(nat \<Rightarrow> u32) \<Rightarrow> nat \<Rightarrow> (nat \<times> u32) list \<Rightarrow> memory \<Rightarrow> memory" where
  "put_words ka n kws m = fold (\<lambda>(k, w). put_word ka (n - k) w) kws m"

lemma push_words:
  assumes "win lo n ka s" and "\<forall>(k, w) \<in> set kws. 4 \<le> k \<and> k \<le> n"
  shows "for_each (push_word (lo + of_nat n)) (map (\<lambda>(k, w). (of_nat k, w)) kws) s =
      Inr (s\<lparr>mem := put_words ka n kws (mem s)\<rparr>) \<and>
    win lo n ka (s\<lparr>mem := put_words ka n kws (mem s)\<rparr>)"
  using assms
proof (induction kws arbitrary: s)
  case Nil
  then show ?case by (simp add: put_words_def)
next
  case (Cons kw kws)
  obtain k w where kw: "kw = (k, w)" by (cases kw)
  then have k: "4 \<le> k" "k \<le> n" "n - k + 4 \<le> n" using Cons.prems(2) by auto
  have "lo + of_nat n - of_nat k = lo + (of_nat (n - k) :: u32)" using k(2) by (simp add: of_nat_diff)
  then have "push_word (lo + of_nat n) (of_nat k, w) s = vstore32 (lo + of_nat (n - k)) w s"
    by (simp only: push_word_def prod.case)
  then have "push_word (lo + of_nat n) (of_nat k, w) s = Inr (s\<lparr>mem := put_word ka (n - k) w (mem s)\<rparr>)"
    and "win lo n ka (s\<lparr>mem := put_word ka (n - k) w (mem s)\<rparr>)"
    using vstore32_win [OF Cons.prems(1) k(3), of w] by simp_all
  then show ?case
    using Cons.IH [of "s\<lparr>mem := put_word ka (n - k) w (mem s)\<rparr>"] Cons.prems(2)
    by (simp add: kw put_words_def)
qed

lemma put_words_other:
  assumes "user_window m cr3 lo n ka" and "\<forall>(k, w) \<in> set kws. 4 \<le> k \<and> k \<le> n"
    and "\<forall>(k, w) \<in> set kws. k + 4 \<le> l \<or> l + 4 \<le> k" and "4 \<le> l" and "l \<le> n"
  shows "win_word ka (put_words ka n kws m') (n - l) = win_word ka m' (n - l)"
  using assms(2,3)
proof (induction kws arbitrary: m')
  case (Cons kw kws)
  obtain k w where kw: "kw = (k, w)" by (cases kw)
  then have k: "4 \<le> k" "k \<le> n" "k + 4 \<le> l \<or> l + 4 \<le> k" using Cons.prems by auto
  have "win_word ka (put_words ka n (kw # kws) m') (n - l) =
      win_word ka (put_words ka n kws (put_word ka (n - k) w m')) (n - l)"
    by (simp add: kw put_words_def)
  also have "\<dots> = win_word ka (put_word ka (n - k) w m') (n - l)"
    by (rule Cons.IH) (use Cons.prems in simp_all)
  also have "\<dots> = win_word ka m' (n - l)"
    by (rule win_word_put_other [OF assms(1)]) (use k assms(4,5) in auto)
  finally show ?case .
qed (simp add: put_words_def)

lemma put_words_word:
  assumes "user_window m cr3 lo n ka" and "\<forall>(k, w) \<in> set kws. 4 \<le> k \<and> k \<le> n \<and> 4 dvd k"
    and "distinct (map fst kws)" and "(l, v) \<in> set kws"
  shows "win_word ka (put_words ka n kws m') (n - l) = v"
  using assms(2-)
proof (induction kws arbitrary: m')
  case (Cons kw kws)
  obtain k w where kw: "kw = (k, w)" by (cases kw)
  have step: "put_words ka n (kw # kws) m' = put_words ka n kws (put_word ka (n - k) w m')"
    by (simp add: kw put_words_def)
  show ?case
  proof (cases "(l, v) \<in> set kws")
    case True
    then show ?thesis unfolding step by (intro Cons.IH) (use Cons.prems in auto)
  next
    case False
    then have eq: "l = k" "v = w" and k: "4 \<le> k" "k \<le> n" "4 dvd k" using Cons.prems kw by auto
    have "k' + 4 \<le> k \<or> k + 4 \<le> k'" if "(k', w') \<in> set kws" for k' w'
    proof -
      have "k' \<noteq> k" "4 dvd k'" using Cons.prems that by (auto simp: kw image_iff)
      then show ?thesis using k(3) by (auto elim!: dvdE)
    qed
    then have "win_word ka (put_words ka n kws (put_word ka (n - k) w m')) (n - k) =
        win_word ka (put_word ka (n - k) w m') (n - k)"
      using Cons.prems k by (intro put_words_other [OF assms(1)]) auto
    then show ?thesis unfolding step eq
      using win_word_put_same [OF assms(1), of "n - k"] k by simp
  qed
qed simp

lemma put_words_outside:
  "a \<notin> ka ` {..<n} \<Longrightarrow> \<forall>(k, w) \<in> set kws. 4 \<le> k \<and> k \<le> n \<Longrightarrow> put_words ka n kws m a = m a"
proof (induction kws arbitrary: m)
  case (Cons kw kws)
  obtain k w where kw: "kw = (k, w)" by (cases kw)
  then have "4 \<le> k" "k \<le> n" using Cons.prems by auto
  then have "a \<noteq> ka (n - k + d)" if "d < 4" for d
    using Cons.prems(1) that by (auto simp: image_iff)
  from this [of 0] this [of 1] this [of 2] this [of 3]
  have "put_word ka (n - k) w m a = m a" by (simp add: put_word_def)
  then show ?case using Cons by (simp add: kw put_words_def)
qed (simp add: put_words_def)

lemma frame_words_offsets:
  "\<forall>(k, w) \<in> set (frame_words tf sig ret). 4 \<le> k \<and> k \<le> 76"
  "\<forall>(k, w) \<in> set (frame_words tf sig ret). 4 \<le> k \<and> k \<le> 76 \<and> 4 dvd k"
  "distinct (map fst (frame_words tf sig ret))"
  by (simp_all add: frame_words_def)

subsection \<open>Into the handler and back\<close>

lemma ucast_u16_u32 [simp]: "(ucast (ucast (x :: u16) :: u32) :: u16) = x"
  by (rule bit_word_eqI) (simp add: bit_simps)

text \<open>The signal whose handler \<open>psig\<close> enters: the lowest one in \<open>userdefed\<close>.\<close>

definition chosen :: "proc \<Rightarrow> nat option" where
  "chosen p = find (\<lambda>n. p_userdefed p AND sigbit n = sigbit n) [1..<32]"

lemma chosen_Some:
  assumes "chosen p = Some sig"
  shows "0 < sig" "sig < 32" "bit (p_userdefed p) sig" "0 < n \<Longrightarrow> n < sig \<Longrightarrow> \<not> bit (p_userdefed p) n"
    "p_userdefed p \<noteq> 0"
proof -
  obtain k where k: "k < length [1..<32]" "p_userdefed p AND sigbit ([1..<32] ! k) = sigbit ([1..<32] ! k)"
      "sig = [1..<32] ! k" "\<And>j. j < k \<Longrightarrow> \<not> p_userdefed p AND sigbit ([1..<32] ! j) = sigbit ([1..<32] ! j)"
    using assms unfolding chosen_def find_Some_iff by blast
  then have sig: "sig = k + 1" "k < 31" by (simp_all add: nth_upt)
  show "0 < sig" "sig < 32" using sig by simp_all
  show bit: "bit (p_userdefed p) sig" using k(1,2) sig by (simp add: nth_upt and_sigbit_eq)
  then show "p_userdefed p \<noteq> 0" by auto
  show "\<not> bit (p_userdefed p) n" if "0 < n" "n < sig"
    using k(4) [of "n - 1"] that sig by (simp add: nth_upt and_sigbit_eq)
qed

lemma set_tf_fields [simp]:
  "procs (set_tf a f s) = procs s" "mem (set_tf a f s) = mem s" "tfs (set_tf a f s) = (tfs s)(a := f (tfs s a))"
  "cpu_ok (set_tf a f s) = cpu_ok s" "lock_mine l (set_tf a f s) = lock_mine l s"
  "self_cpu (set_tf a f s) = self_cpu s" "running (set_tf a f s) = running s"
  "locks (set_tf a f s) = locks s" "ifl (set_tf a f s) = ifl s"
  by (simp_all add: set_tf_def)

lemma inside_set_tf [simp]: "inside i (set_tf a f s) = inside i s"
  by (simp add: inside_def)

lemma inside_mem [simp]: "inside i (s\<lparr>mem := m\<rparr>) = inside i s"
  by (simp add: inside_def)

definition user_frame :: "'a proc_state_scheme \<Rightarrow> nat \<Rightarrow> trapframe" where
  "user_frame s i = tfs s (p_tf (procs s ! i))"

lemma enter_handler_ok:
  assumes ins: "inside i s" and sig: "chosen (procs s ! i) = Some sig"
    and win: "win (tf_esp (user_frame s i) - 76) 76 ka s"
  defines "p \<equiv> procs s ! i" and "tf \<equiv> user_frame s i"
  shows "enter_handler i s =
    Inr (ToHandler \<lparr>ir_eip = h_handler (p_allinfo p ! sig), ir_cs = tf_cs tf, ir_eflags = tf_eflags tf,
           ir_esp = tf_esp tf - 76, ir_ss = tf_ss tf\<rparr>,
         leave L_ptable (set_proc i (clear_pending sig) (set_tf (p_tf p) (\<lambda>f. f\<lparr>tf_esp := tf_esp f - 76\<rparr>)
           (s\<lparr>mem := put_words ka 76 (frame_words tf sig (p_addr_sigreturn p)) (mem s)\<rparr>))))"
proof -
  let ?m = "put_words ka 76 (frame_words tf sig (p_addr_sigreturn p)) (mem s)"
  let ?t = "set_proc i (clear_pending sig) (set_tf (p_tf p) (\<lambda>f. f\<lparr>tf_esp := tf_esp f - 76\<rparr>) (s\<lparr>mem := ?m\<rparr>))"
  have "for_each (push_word (tf_esp tf)) (handler_frame tf sig (p_addr_sigreturn p)) s = Inr (s\<lparr>mem := ?m\<rparr>)"
    using push_words [OF win frame_words_offsets(1), of tf sig "p_addr_sigreturn p"]
    unfolding handler_frame_words tf_def by simp
  moreover have "release L_ptable ?t = Inr (leave L_ptable ?t)"
    using ins by (intro release_inside) simp
  moreover have "find (\<lambda>n. p_userdefed (procs s ! i) AND sigbit n = sigbit n) [1..<32] = Some sig"
    using sig by (simp add: chosen_def)
  ultimately show ?thesis
    unfolding enter_handler_def p_def tf_def user_frame_def
    by (simp add: jmptohandler_def Let_def)
qed

text \<open>The user's registers as the trap frame has them.\<close>

definition user_regs :: "trapframe \<Rightarrow> uregs" where
  "user_regs tf =
     \<lparr>ir_eip = tf_eip tf, ir_cs = tf_cs tf, ir_eflags = tf_eflags tf, ir_esp = tf_esp tf, ir_ss = tf_ss tf,
      u_edi = tf_edi tf, u_esi = tf_esi tf, u_ebp = tf_ebp tf, u_ebx = tf_ebx tf, u_edx = tf_edx tf,
      u_ecx = tf_ecx tf, u_eax = tf_eax tf, u_gs = tf_gs tf, u_fs = tf_fs tf, u_es = tf_es tf,
      u_ds = tf_ds tf\<rparr>"

text \<open>
  The frame as \<open>kernel_sigreturn\<close> finds it: the saved registers, above the handler's
  argument and return address.
\<close>

definition frame_saved :: "(nat \<Rightarrow> u32) \<Rightarrow> memory \<Rightarrow> trapframe \<Rightarrow> bool" where
  "frame_saved ka m tf \<longleftrightarrow> (\<forall>(k, w) \<in> set (take 17 (frame_words tf 0 0)). win_word ka m (76 - k) = w)"

lemma frame_words_saved:
  assumes "user_window m cr3 lo 76 ka"
  shows "frame_saved ka (put_words ka 76 (frame_words tf sig ret) m') tf"
    and "win_word ka (put_words ka 76 (frame_words tf sig ret) m') 4 = of_nat sig"
    and "win_word ka (put_words ka 76 (frame_words tf sig ret) m') 0 = ret"
proof -
  let ?m = "put_words ka 76 (frame_words tf sig ret) m'"
  have word: "win_word ka ?m (76 - k) = w" if "(k, w) \<in> set (frame_words tf sig ret)" for k w
    using put_words_word [OF assms frame_words_offsets(2,3) that] .
  have sub: "set (take 17 (frame_words tf 0 0)) \<subseteq> set (frame_words tf sig ret)"
    by (simp add: frame_words_def)
  show "frame_saved ka ?m tf" unfolding frame_saved_def using word sub by blast
  have "(72, of_nat sig) \<in> set (frame_words tf sig ret)" "(76, ret) \<in> set (frame_words tf sig ret)"
    by (simp_all add: frame_words_def)
  from word [OF this(1)] word [OF this(2)] show "win_word ka ?m 4 = of_nat sig" "win_word ka ?m 0 = ret"
    by simp_all
qed

lemma vload_words_win:
  assumes "win lo n ka s" and "\<forall>k \<in> set ks. b + k + 4 \<le> n"
  shows "vload_words (lo + of_nat b) (map of_nat ks) s = Inr (map (\<lambda>k. win_word ka (mem s) (b + k)) ks)"
  using assms(2)
proof (induction ks)
  case (Cons k ks)
  then have "vload32 (lo + of_nat b + of_nat k) s = Inr (win_word ka (mem s) (b + k))"
    using vload32_win [OF assms(1), of "b + k"] by (simp add: add.assoc)
  then show ?case using Cons by simp
qed simp

lemma win_balanced [simp]: "cpu_ok s \<Longrightarrow> win lo n ka (balanced s) = win lo n ka s"
  by (simp add: win_def)

lemma kernel_sigreturn_ok:
  assumes cpu: "on_cpu i s" and win: "win lo 76 ka s" and esp: "tf_esp (user_frame s i) = lo + 4"
    and saved: "frame_saved ka (mem s) tf"
  shows "kernel_sigreturn x s = Inr (Some (user_regs tf), balanced s)"
proof -
  note D = on_cpuD [OF cpu]
  let ?ks = "[4, 8, 12, 16, 20, 24, 28, 32, 36, 40, 44, 48, 52, 56, 60, 64, 68] :: nat list"
  have "vload_words (lo + of_nat 4) (map of_nat ?ks) (balanced s) =
      Inr (map (\<lambda>k. win_word ka (mem s) (4 + k)) ?ks)"
    using vload_words_win [of lo 76 ka "balanced s" ?ks 4] win D(1) by simp
  then have "vload_words (lo + 4) sigframe_offsets (balanced s) =
      Inr (map (\<lambda>k. win_word ka (mem s) (4 + k)) ?ks)"
    by (simp add: sigframe_offsets_def)
  then show ?thesis
    using D esp saved
    by (simp add: kernel_sigreturn_def myproc_ok restoreuser_def user_regs_def frame_saved_def
        frame_words_def user_frame_def)
qed

section \<open>Properties\<close>

lemma settle_frame [simp]:
  "p_tf (settled p) = p_tf p" "p_addr_sigreturn (settled p) = p_addr_sigreturn p"
  "p_allinfo (settled p) = p_allinfo p" "p_userdefed (settled p) = p_userdefed p"
  "p_pid (settled p) = p_pid p" "p_killed (settled p) \<longleftrightarrow> p_killed p \<or> doomed p"
proof -
  have fold: "p_tf (fold stop_clear ns q) = p_tf q" "p_allinfo (fold stop_clear ns q) = p_allinfo q"
    "p_addr_sigreturn (fold stop_clear ns q) = p_addr_sigreturn q" for ns q
    by (induction ns arbitrary: q) (simp_all add: stop_clear_def)
  have ended: "p_tf (ended p) = p_tf p" "p_addr_sigreturn (ended p) = p_addr_sigreturn p"
    by (simp_all add: ended_def killed_proc_def)
  show "p_tf (settled p) = p_tf p" "p_addr_sigreturn (settled p) = p_addr_sigreturn p"
    "p_allinfo (settled p) = p_allinfo p" "p_userdefed (settled p) = p_userdefed p"
    "p_pid (settled p) = p_pid p" "p_killed (settled p) \<longleftrightarrow> p_killed p \<or> doomed p"
    using fold ended by (simp_all add: settled_def settle_tail_def chld_proc_def cont_proc_def Let_def)
qed

lemma win_updates [simp]:
  "win lo n ka (set_proc i f s) = win lo n ka s" "win lo n ka (s\<lparr>printed := v\<rparr>) = win lo n ka s"
  "cpu_ok s \<Longrightarrow> win lo n ka (enter l s) = win lo n ka s"
  by (simp_all add: win_def)

lemma frame_saved_cong:
  assumes "\<And>j. 8 \<le> j \<Longrightarrow> j < 76 \<Longrightarrow> m' (ka j) = m (ka j)"
  shows "frame_saved ka m' tf = frame_saved ka m tf"
proof -
  have "win_word ka m' (76 - k) = win_word ka m (76 - k)" if "4 \<le> k" "k \<le> 68" for k
    using assms that by (simp add: win_word_def)
  moreover have "4 \<le> k \<and> k \<le> 68" if "(k, w) \<in> set (take 17 (frame_words tf 0 0))" for k w
    using that by (auto simp: frame_words_def)
  ultimately show ?thesis unfolding frame_saved_def by fastforce
qed

lemma psig_to_handler:
  assumes cpu: "on_cpu i s" and ncli: "c_ncli (self_cpu s) = 0" and pids: "pids_ok (procs s) n"
    and pid: "p_pid (procs s ! i) \<noteq> 0" and go: "\<not> to_stop (procs s ! i)"
    and sig: "chosen (procs s ! i) = Some sig"
    and win: "win (tf_esp (user_frame s i) - 76) 76 ka s"
  defines "p \<equiv> procs s ! i" and "tf \<equiv> user_frame s i"
  shows "\<exists>t. psig swtch (Some i) s =
      Inr (ToHandler \<lparr>ir_eip = h_handler (p_allinfo p ! sig), ir_cs = tf_cs tf, ir_eflags = tf_eflags tf,
             ir_esp = tf_esp tf - 76, ir_ss = tf_ss tf\<rparr>, t) \<and>
    on_cpu i t \<and> procs t ! i = clear_pending sig (settled p) \<and>
    mem t = put_words ka 76 (frame_words tf sig (p_addr_sigreturn p)) (mem s) \<and>
    user_frame t i = tf\<lparr>tf_esp := tf_esp tf - 76\<rparr>"
proof -
  note D = on_cpuD [OF cpu]
  obtain m where m: "psig swtch (Some i) s = psig_end i (set_proc i settled ((enter L_ptable s)\<lparr>printed := m\<rparr>))"
    using psig_unstopped [OF cpu ncli pids pid go, of swtch] by blast
  let ?u = "set_proc i settled ((enter L_ptable s)\<lparr>printed := m\<rparr>)"
  have ins: "inside i ?u" using D ncli by (simp add: inside_def)
  have q: "procs ?u ! i = settled p" using D(4) by (simp add: p_def)
  have ch: "chosen (procs ?u ! i) = Some sig" unfolding q using sig by (simp add: chosen_def p_def)
  have tf_u: "user_frame ?u i = tf" using q by (simp add: user_frame_def tf_def p_def)
  have "win (tf_esp (user_frame ?u i) - 76) 76 ka ?u" using win D(1) by (simp add: tf_u tf_def)
  note eh = enter_handler_ok [OF ins ch this, unfolded q tf_u]
  have "psig_end i ?u = enter_handler i ?u"
    using chosen_Some(5) [OF sig] q by (simp add: psig_end_def p_def)
  moreover have "on_cpu i (leave L_ptable (set_proc i (clear_pending sig)
      (set_tf (p_tf (settled p)) (\<lambda>f. f\<lparr>tf_esp := tf_esp f - 76\<rparr>)
        (?u\<lparr>mem := put_words ka 76 (frame_words tf sig (p_addr_sigreturn (settled p))) (mem ?u)\<rparr>))))"
    using ins by (intro release_inside) simp
  ultimately show ?thesis
    using m eh D(4) by (simp add: user_frame_def tf_def p_def)
qed

text \<open>
  C1: A process about to return to user space with a user handler installed (and no stop
  signal to obey) enters the handler with the signal number and the address of
  \<open>sigreturn\<close> on its stack; when the handler has returned through \<open>sigreturn\<close> without
  overwriting the saved registers, \<open>kernel_sigreturn\<close> restores exactly the registers the
  process had when \<open>psig\<close> interrupted it.
\<close>

theorem psig_sigreturn_roundtrip:
  fixes s :: "'a proc_state_scheme"
  assumes "on_cpu i s" and "c_ncli (self_cpu s) = 0" and "pids_ok (procs s) n"
    and "p_pid (procs s ! i) \<noteq> 0" and "\<not> to_stop (procs s ! i)"
    and "chosen (procs s ! i) = Some sig"
    and "win (tf_esp (user_frame s i) - 76) 76 ka s"
  shows "\<exists>u t. psig swtch (Some i) s = Inr (ToHandler u, t) \<and>
    ir_eip u = h_handler (p_allinfo (procs s ! i) ! sig) \<and>
    ir_esp u = tf_esp (user_frame s i) - 76 \<and>
    win_word ka (mem t) 0 = p_addr_sigreturn (procs s ! i) \<and>
    win_word ka (mem t) 4 = of_nat sig \<and>
    (\<forall>(v :: 'a proc_state_scheme) x. on_cpu i v \<and> win (tf_esp (user_frame s i) - 76) 76 ka v \<and>
       tf_esp (user_frame v i) = ir_esp u + 4 \<and>
       (\<forall>j. 8 \<le> j \<and> j < 76 \<longrightarrow> mem v (ka j) = mem t (ka j)) \<longrightarrow>
       kernel_sigreturn x v = Inr (Some (user_regs (user_frame s i)), balanced v))"
proof -
  obtain t where t: "psig swtch (Some i) s =
      Inr (ToHandler \<lparr>ir_eip = h_handler (p_allinfo (procs s ! i) ! sig), ir_cs = tf_cs (user_frame s i),
         ir_eflags = tf_eflags (user_frame s i), ir_esp = tf_esp (user_frame s i) - 76,
         ir_ss = tf_ss (user_frame s i)\<rparr>, t)"
      "mem t = put_words ka 76 (frame_words (user_frame s i) sig (p_addr_sigreturn (procs s ! i))) (mem s)"
    using psig_to_handler [OF assms, of swtch] by blast
  note saved = frame_words_saved [OF assms(7) [unfolded win_def],
      of "user_frame s i" sig "p_addr_sigreturn (procs s ! i)" "mem s"]
  have "kernel_sigreturn x v = Inr (Some (user_regs (user_frame s i)), balanced v)"
    if "on_cpu i v" "win (tf_esp (user_frame s i) - 76) 76 ka v"
      "tf_esp (user_frame v i) = tf_esp (user_frame s i) - 76 + 4"
      "\<forall>j. 8 \<le> j \<and> j < 76 \<longrightarrow> mem v (ka j) = mem t (ka j)" for v :: "'a proc_state_scheme" and x
    using that(4) frame_saved_cong [of "mem v" ka "mem t" "user_frame s i"] saved(1) t(2)
    by (intro kernel_sigreturn_ok [OF that(1,2,3)]) simp
  then show ?thesis using t saved(2,3) by auto
qed

text \<open>A process with a handler for signal 10, which is pending.\<close>

definition sample_handler :: proc_state where
  "sample_handler =
     set_proc 1 (\<lambda>p. p\<lparr>p_sigpending := sigbit 10, p_userdefed := sigbit 10, p_addr_sigreturn := 0x80,
       p_allinfo := (p_allinfo p)[10 := \<lparr>h_disposition = USERDEF, h_handler = 0x40\<rparr>]\<rparr>) sample"

lemma sample_handler_facts:
  "on_cpu 1 sample_handler" "c_ncli (self_cpu sample_handler) = 0" "pids_ok (procs sample_handler) 4"
  "p_pid (procs sample_handler ! 1) \<noteq> 0" "\<not> to_stop (procs sample_handler ! 1)"
  "chosen (procs sample_handler ! 1) = Some 10"
  "win (tf_esp (user_frame sample_handler 1) - 76) 76 sample_ka sample_handler"
proof -
  have len: "1 < length sample_procs" by (simp add: sample_procs_def)
  show "on_cpu 1 sample_handler" "c_ncli (self_cpu sample_handler) = 0"
    by (simp_all add: sample_handler_def del: One_nat_def)
  show "pids_ok (procs sample_handler) 4"
    using sample_pids len by (simp add: sample_handler_def used_def pids_ok_same del: One_nat_def)
  show "p_pid (procs sample_handler ! 1) \<noteq> 0"
    by (simp add: sample_handler_def sample_procs_def sample_proc_def)
  show "\<not> to_stop (procs sample_handler ! 1)"
    by (simp add: sample_handler_def sample_procs_def sample_proc_def to_stop_def stopsig_def
        default_due_bit bit_sigbit)
  show "chosen (procs sample_handler ! 1) = Some 10"
    by (simp add: sample_handler_def sample_procs_def sample_proc_def chosen_def upt_rec and_sigbit_eq bit_sigbit)
  show "win (tf_esp (user_frame sample_handler 1) - 76) 76 sample_ka sample_handler"
    using sample_win by (simp add: sample_handler_def user_frame_def sample_tf_def)
qed

theorem psig_sigreturn_roundtrip_witness:
  "\<exists>u t. psig (\<lambda>s. s) (Some 1) sample_handler = Inr (ToHandler u, t) \<and> ir_eip u = 0x40"
  using psig_sigreturn_roundtrip [OF sample_handler_facts, of "\<lambda>s. s"]
  by (auto simp: sample_handler_def sample_procs_def sample_proc_def sample_info_def)

text \<open>
  C2: Default actions. For a process without user handlers and with no stop signal to obey,
  \<open>psig\<close> returns 1 and marks the process killed exactly if a pending, unblocked signal
  whose default action is to terminate or to dump core has the default disposition. Exactly
  the signals acted upon (these, SIGCHLD and SIGCONT) are no longer pending, and no other
  process changes.
\<close>

theorem psig_default_actions:
  assumes "on_cpu i s" and "c_ncli (self_cpu s) = 0" and "pids_ok (procs s) n"
    and "p_pid (procs s ! i) \<noteq> 0" and "\<not> to_stop (procs s ! i)"
    and "p_userdefed (procs s ! i) = 0"
  shows "\<exists>t. psig swtch (Some i) s = Inr (Back 1, t) \<and> on_cpu i t \<and>
    (\<forall>j. j \<noteq> i \<longrightarrow> procs t ! j = procs s ! j) \<and>
    (p_killed (procs t ! i) \<longleftrightarrow> p_killed (procs s ! i) \<or>
       (\<exists>k \<in> set (termsig @ coresig). default_due k (procs s ! i))) \<and>
    (\<forall>k. bit (p_sigpending (procs t ! i)) k \<longleftrightarrow> bit (p_sigpending (procs s ! i)) k \<and>
       \<not> (k \<in> set (termsig @ coresig @ [SIGCHLD, SIGCONT]) \<and> default_due k (procs s ! i)))"
proof -
  note D = on_cpuD [OF assms(1)]
  obtain m where m: "psig swtch (Some i) s = psig_end i (set_proc i settled ((enter L_ptable s)\<lparr>printed := m\<rparr>))"
    using psig_unstopped [OF assms(1-5), of swtch] by blast
  let ?u = "set_proc i settled ((enter L_ptable s)\<lparr>printed := m\<rparr>)"
  have ins: "inside i ?u" using D assms(2) by (simp add: inside_def)
  then have "psig_end i ?u = Inr (Back 1, leave L_ptable ?u)"
    using psig_end_back [OF ins] assms(6) D(4) by simp
  then show ?thesis
    using m release_inside(2) [OF ins] D(4) settled_pending [OF assms(5)]
    by (simp add: doomed_def dues_empty)
qed

definition sample_term :: proc_state where
  "sample_term = set_proc 1 (\<lambda>p. p\<lparr>p_sigpending := sigbit 15\<rparr>) sample"

theorem psig_default_actions_witness:
  "\<exists>t. psig (\<lambda>s. s) (Some 1) sample_term = Inr (Back 1, t) \<and> p_killed (procs t ! 1) \<and>
     p_sigpending (procs t ! 1) = 0"
proof -
  have len: "1 < length sample_procs" by (simp add: sample_procs_def)
  have p: "procs sample_term ! 1 = sample_proc\<lparr>p_sigpending := sigbit 15\<rparr>"
    by (simp add: sample_term_def sample_procs_def)
  have due: "default_due 15 (procs sample_term ! 1)"
    unfolding p by (simp add: default_due_bit bit_sigbit sample_proc_def sample_info_def)
  obtain t where t: "psig (\<lambda>s. s) (Some 1) sample_term = Inr (Back 1, t)" "p_killed (procs t ! 1)"
      "\<forall>k. bit (p_sigpending (procs t ! 1)) k \<longrightarrow> bit (sigbit 15) k \<and> k \<noteq> 15"
  proof (atomize_elim, insert psig_default_actions [of 1 sample_term 4 "\<lambda>s. s"] due p, goal_cases)
    case 1
    moreover have "on_cpu 1 sample_term" "c_ncli (self_cpu sample_term) = 0"
      by (simp_all add: sample_term_def del: One_nat_def)
    moreover have "pids_ok (procs sample_term) 4"
      using sample_pids len by (simp add: sample_term_def used_def pids_ok_same del: One_nat_def)
    moreover have "\<not> to_stop (procs sample_term ! 1)" "p_pid (procs sample_term ! 1) \<noteq> 0"
      "p_userdefed (procs sample_term ! 1) = 0"
      unfolding p by (simp_all add: to_stop_def stopsig_def default_due_bit bit_sigbit sample_proc_def)
    ultimately show ?case by (auto simp: termsig_def)
  qed
  then have "p_sigpending (procs t ! 1) = 0" by (auto simp: bit_eq_iff bit_sigbit)
  with t show ?thesis by blast
qed

text \<open>
  C3: A pending SIGSTOP stops the process. \<open>psig\<close> gives up the CPU exactly once, in a state
  in which the process is SLEEPING; when the process is resumed, \<open>psig\<close> returns with no
  stop signal due, even if further stop signals were posted during the sleep.
\<close>

theorem psig_stops_once:
  assumes "on_cpu i s" and "c_ncli (self_cpu s) = 0" and "pids_ok (procs s) n"
    and "p_pid (procs s ! i) \<noteq> 0" and "\<not> doomed (procs s ! i)"
    and "bit (p_sigpending (procs s ! i)) SIGSTOP"
    and "inside i (swtch (set_proc i (\<lambda>p. p\<lparr>p_state := SLEEPING\<rparr>) (enter L_ptable s)))"
    and "p_userdefed (procs (swtch (set_proc i (\<lambda>p. p\<lparr>p_state := SLEEPING\<rparr>) (enter L_ptable s))) ! i) = 0"
  shows "\<exists>t. psig swtch (Some i) s = Inr (Back 1, t) \<and> on_cpu i t \<and>
    (\<forall>j. j \<noteq> i \<longrightarrow> procs t ! j =
       procs (swtch (set_proc i (\<lambda>p. p\<lparr>p_state := SLEEPING\<rparr>) (enter L_ptable s))) ! j) \<and>
    (\<forall>k \<in> set stopsig. \<not> default_due k (procs t ! i))"
proof -
  let ?r = "swtch (set_proc i (\<lambda>p. p\<lparr>p_state := SLEEPING\<rparr>) (enter L_ptable s))"
  let ?u = "set_proc i (\<lambda>p. settle_tail (clear_pending SIGSTOP p)) (reinstate (ifl s) ?r)"
  have i: "i < length (procs ?r)" using insideD(5) [OF assms(7)] .
  have ins: "inside i ?u" using assms(7) by simp
  have "psig swtch (Some i) s = psig_end i ?u" using psig_stop [OF assms(1-6), of swtch] assms(7) by blast
  also have "\<dots> = Inr (Back 1, leave L_ptable ?u)"
    using assms(8) i by (intro psig_end_back [OF ins]) simp
  finally show ?thesis
    using release_inside(2) [OF ins] i settle_tail_no_stop by simp
qed

definition sample_stop :: proc_state where
  "sample_stop = set_proc 1 (\<lambda>p. p\<lparr>p_sigpending := sigbit 19\<rparr>) sample"

theorem psig_stops_once_witness:
  "\<exists>t. psig (set_proc 1 (\<lambda>p. p\<lparr>p_state := RUNNING\<rparr>)) (Some 1) sample_stop = Inr (Back 1, t) \<and>
     on_cpu 1 t"
proof -
  have len: "1 < length sample_procs" by (simp add: sample_procs_def)
  have p: "procs sample_stop ! 1 = sample_proc\<lparr>p_sigpending := sigbit 19\<rparr>"
    by (simp add: sample_stop_def sample_procs_def)
  have cpu: "on_cpu 1 sample_stop" and ncli: "c_ncli (self_cpu sample_stop) = 0"
    by (simp_all add: sample_stop_def del: One_nat_def)
  have pids: "pids_ok (procs sample_stop) 4"
    using sample_pids len by (simp add: sample_stop_def used_def pids_ok_same del: One_nat_def)
  have live: "\<not> doomed (procs sample_stop ! 1)" "p_pid (procs sample_stop ! 1) \<noteq> 0"
      "bit (p_sigpending (procs sample_stop ! 1)) 19" "p_userdefed (procs sample_stop ! 1) = 0"
    unfolding p by (simp_all add: doomed_def dues_empty termsig_def coresig_def default_due_bit
        bit_sigbit sample_proc_def)
  have "inside 1 (enter L_ptable sample_stop)"
    using on_cpuD [OF cpu] ncli by (simp add: inside_def)
  then show ?thesis
    using psig_stops_once [OF cpu ncli pids live(2) live(1) live(3),
        of "set_proc 1 (\<lambda>p. p\<lparr>p_state := RUNNING\<rparr>)"] live(4) on_cpuD(4) [OF cpu] by auto
qed

text \<open>
  C4: \<open>psig\<close> chooses the handler without looking at the pending mask. With handlers for
  signals 10 and 12 and only 12 pending, the process is sent into the handler for 10, and
  12 stays pending.
\<close>

definition sample_two_handlers :: proc_state where
  "sample_two_handlers =
     set_proc 1 (\<lambda>p. p\<lparr>p_sigpending := sigbit 12, p_userdefed := sigbit 10 OR sigbit 12,
       p_allinfo := (p_allinfo p)[10 := \<lparr>h_disposition = USERDEF, h_handler = 0x40\<rparr>,
         12 := \<lparr>h_disposition = USERDEF, h_handler = 0x60\<rparr>]\<rparr>) sample"


end
