(* ===== verification/Syscall.thy ===== *)
theory Syscall
  imports Psig
begin

text \<open>
  System-call arguments and the system calls that need no file system: \<open>fetchint\<close>,
  \<open>fetchstr\<close>, \<open>argint\<close>, \<open>argptr\<close> and \<open>argstr\<close> of \<open>src/syscall.c\<close>, the handlers of
  \<open>src/syssignal.c\<close>, and \<open>sys_wait\<close>, \<open>sys_kill\<close>, \<open>sys_getpid\<close>, \<open>sys_sbrk\<close>, \<open>sys_sleep\<close> and
  \<open>sys_uptime\<close> of \<open>src/sysproc.c\<close>.

  The arguments are words of the caller's user stack, read through its page table; reading
  an address with no page behind it is the stop \<open>Fault\<close>. A fetch that the C code answers
  with -1 is \<open>None\<close>. A handler does not always come back: a signal handler or
  \<open>sigreturn\<close> leaves for user space directly, which the type \<open>flow\<close> records.
\<close>

unbundle bit_operations_syntax

section \<open>Fetching arguments\<close>

definition fetchint ::
    "u32 \<Rightarrow> 'a proc_state_scheme \<Rightarrow> (u32 option \<times> 'a proc_state_scheme) outcome" where
  "fetchint addr s =
     with_proc (\<lambda>i s.
       if p_sz (procs s ! i) \<le> addr \<or> p_sz (procs s ! i) < addr + 4 then Inr (None, s)
       else and_then (vload32 addr s) (\<lambda>w. Inr (Some w, s))) s"

text \<open>The loop of \<open>fetchstr\<close> over the \<open>n\<close> bytes that remain below the end \<open>ep\<close>.\<close>

primrec fetchstr_loop :: "nat \<Rightarrow> u32 \<Rightarrow> nat \<Rightarrow> 'a kmem_state_scheme \<Rightarrow> (nat option) outcome" where
  "fetchstr_loop 0 a k s = Inr None"
| "fetchstr_loop (Suc n) a k s =
     and_then (vload8 a s) (\<lambda>c. if c = 0 then Inr (Some k) else fetchstr_loop n (a + 1) (Suc k) s)"

definition fetchstr ::
    "u32 \<Rightarrow> 'a proc_state_scheme \<Rightarrow> ((u32 \<times> nat) option \<times> 'a proc_state_scheme) outcome" where
  "fetchstr addr s =
     with_proc (\<lambda>i s.
       if p_sz (procs s ! i) \<le> addr then Inr (None, s)
       else let ep = p_sz (procs s ! i) in
         and_then (fetchstr_loop (unat (ep - addr)) addr 0 s) (\<lambda>r.
           Inr (map_option (Pair addr) r, s))) s"

definition argint ::
    "nat \<Rightarrow> 'a proc_state_scheme \<Rightarrow> (u32 option \<times> 'a proc_state_scheme) outcome" where
  "argint n s =
     with_proc (\<lambda>i s. fetchint (tf_esp (tfs s (p_tf (procs s ! i))) + 4 + 4 * of_nat n) s) s"

definition argptr ::
    "nat \<Rightarrow> u32 \<Rightarrow> 'a proc_state_scheme \<Rightarrow> (u32 option \<times> 'a proc_state_scheme) outcome" where
  "argptr n sz s =
     with_proc (\<lambda>i s.
       and_then (argint n s) (\<lambda>(r, s).
         case r of None \<Rightarrow> Inr (None, s) | Some a \<Rightarrow>
           if sz <s 0 \<or> p_sz (procs s ! i) \<le> a \<or> p_sz (procs s ! i) < a + sz
           then Inr (None, s) else Inr (Some a, s))) s"

definition argstr ::
    "nat \<Rightarrow> 'a proc_state_scheme \<Rightarrow> ((u32 \<times> nat) option \<times> 'a proc_state_scheme) outcome" where
  "argstr n s =
     and_then (argint n s) (\<lambda>(r, s).
       case r of None \<Rightarrow> Inr (None, s) | Some addr \<Rightarrow> fetchstr addr s)"

section \<open>Handlers\<close>

text \<open>
  \<open>Returns v\<close>: the handler returns \<open>v\<close>, which \<open>syscall\<close> puts into the caller's \<open>eax\<close>.
  \<open>Handler f\<close>: \<open>psig\<close> left for a user signal handler. \<open>Resumes u\<close>: \<open>sigreturn\<close> left for the
  interrupted user code. \<open>Gone\<close>: the process has exited.
\<close>

datatype flow = Returns u32 | Handler iret_frame | Resumes uregs | Gone

abbreviation (input) minus_one :: u32 where "minus_one \<equiv> 0xFFFFFFFF"

definition returns_int ::
    "(int \<times> 's) outcome \<Rightarrow> (flow \<times> 's) outcome" where
  "returns_int r = and_then r (\<lambda>(v, s). Inr (Returns (word_of_int v), s))"

definition returns ::
    "(u32 \<times> 's) outcome \<Rightarrow> (flow \<times> 's) outcome" where
  "returns r = and_then r (\<lambda>(v, s). Inr (Returns v, s))"

text \<open>\<open>if(argint(n, &v) < 0) return err; ...\<close>\<close>

definition with_argint ::
    "u32 \<Rightarrow> nat \<Rightarrow> (u32 \<Rightarrow> 'a proc_state_scheme \<Rightarrow> (flow \<times> 'a proc_state_scheme) outcome) \<Rightarrow>
       'a proc_state_scheme \<Rightarrow> (flow \<times> 'a proc_state_scheme) outcome" where
  "with_argint err n f s =
     and_then (argint n s) (\<lambda>(r, s).
       case r of None \<Rightarrow> Inr (Returns err, s) | Some v \<Rightarrow> f v s)"

definition sys_sigsetmask ::
    "'a proc_state_scheme \<Rightarrow> (flow \<times> 'a proc_state_scheme) outcome" where
  "sys_sigsetmask s = with_argint minus_one 0 (\<lambda>msk s. returns (sigsetmask msk s)) s"

definition sys_siggetmask ::
    "'a proc_state_scheme \<Rightarrow> (flow \<times> 'a proc_state_scheme) outcome" where
  "sys_siggetmask s = returns (siggetmask s)"

definition sys_raise :: "'a proc_state_scheme \<Rightarrow> (flow \<times> 'a proc_state_scheme) outcome" where
  "sys_raise s = with_argint minus_one 0 (\<lambda>pid s. returns_int (raise (sint pid) s)) s"

definition sys_Kill :: "'a proc_state_scheme \<Rightarrow> (flow \<times> 'a proc_state_scheme) outcome" where
  "sys_Kill s =
     with_argint minus_one 0 (\<lambda>pid. with_argint minus_one 1 (\<lambda>sig s.
       returns_int (Kill (sint pid) (sint sig) s))) s"

definition sys_signal :: "'a proc_state_scheme \<Rightarrow> (flow \<times> 'a proc_state_scheme) outcome" where
  "sys_signal s =
     with_argint SIG_ERR 0 (\<lambda>sigretfn1. with_argint SIG_ERR 1 (\<lambda>signum.
       with_argint SIG_ERR 2 (\<lambda>ptr1 s. returns (signal sigretfn1 (sint signum) ptr1 s)))) s"

text \<open>
  \<open>sys_sigreturn\<close> ignores whether the fetch succeeded, and \<open>kernel_sigreturn\<close> ignores the
  number: when the fetch fails \<open>signum\<close> is uninitialised, here 0.
\<close>

definition sys_sigreturn :: "'a proc_state_scheme \<Rightarrow> (flow \<times> 'a proc_state_scheme) outcome" where
  "sys_sigreturn s =
     with_proc (\<lambda>i s.
       and_then (fetchint (tf_esp (tfs s (p_tf (procs s ! i)))) s) (\<lambda>(r, s).
       and_then (kernel_sigreturn (case r of Some n \<Rightarrow> n | None \<Rightarrow> 0) s) (\<lambda>(u, s).
         case u of Some u \<Rightarrow> Inr (Resumes u, s) | None \<Rightarrow> Inr (Returns minus_one, s)))) s"

definition sys_sigblock :: "'a proc_state_scheme \<Rightarrow> (flow \<times> 'a proc_state_scheme) outcome" where
  "sys_sigblock s = with_argint minus_one 0 (\<lambda>signum s. returns (sigblock (sint signum) s)) s"

definition sys_sigunblock :: "'a proc_state_scheme \<Rightarrow> (flow \<times> 'a proc_state_scheme) outcome" where
  "sys_sigunblock s = with_argint minus_one 0 (\<lambda>signum s. returns (sigunblock (sint signum) s)) s"

definition sys_wait ::
    "nat \<Rightarrow> ('a proc_state_scheme \<Rightarrow> 'a proc_state_scheme) \<Rightarrow> 'a proc_state_scheme \<Rightarrow>
       (flow \<times> 'a proc_state_scheme) outcome" where
  "sys_wait fuel swtch s = returns_int (wait fuel swtch s)"

definition sys_kill :: "'a proc_state_scheme \<Rightarrow> (flow \<times> 'a proc_state_scheme) outcome" where
  "sys_kill s = with_argint minus_one 0 (\<lambda>pid s. returns_int (kill (sint pid) s)) s"

definition sys_getpid :: "'a proc_state_scheme \<Rightarrow> (flow \<times> 'a proc_state_scheme) outcome" where
  "sys_getpid s = with_proc (\<lambda>i s. Inr (Returns (word_of_int (p_pid (procs s ! i))), s)) s"

definition sys_sbrk :: "'a proc_state_scheme \<Rightarrow> (flow \<times> 'a proc_state_scheme) outcome" where
  "sys_sbrk s =
     with_argint minus_one 0 (\<lambda>n. with_proc (\<lambda>i s.
       let addr = p_sz (procs s ! i) in
       and_then (growproc n s) (\<lambda>(r, s).
         if r < 0 then Inr (Returns minus_one, s) else Inr (Returns addr, s)))) s"

text \<open>
  \<open>if(myproc() && issig(myproc())) psig(myproc());\<close>, which \<open>sys_sleep\<close> and \<open>trap\<close> execute;
  \<open>Some f\<close> when \<open>psig\<close> does not come back.
\<close>

definition check_signals ::
    "('a proc_state_scheme \<Rightarrow> 'a proc_state_scheme) \<Rightarrow> 'a proc_state_scheme \<Rightarrow>
       (iret_frame option \<times> 'a proc_state_scheme) outcome" where
  "check_signals swtch s =
     and_then (myproc s) (\<lambda>(q, s).
       if q = None then Inr (None, s)
       else with_proc (\<lambda>i s.
         if issig (procs s ! i) = 0 then Inr (None, s)
         else and_then (myproc s) (\<lambda>(q, s).
              and_then (psig swtch q s) (\<lambda>(e, s).
                case e of Back _ \<Rightarrow> Inr (None, s) | ToHandler f \<Rightarrow> Inr (Some f, s)))) s)"

text \<open>The fuel of the loop bounds the number of times the process goes to sleep.\<close>

primrec sleep_loop ::
    "nat \<Rightarrow> ('a proc_state_scheme \<Rightarrow> 'a proc_state_scheme) \<Rightarrow> u32 \<Rightarrow> u32 \<Rightarrow> 'a proc_state_scheme \<Rightarrow>
       (flow option \<times> 'a proc_state_scheme) outcome" where
  "sleep_loop 0 swtch ticks0 n s = Inl OutOfFuel"
| "sleep_loop (Suc fuel) swtch ticks0 n s =
     (if \<not> ticks s - ticks0 < n then Inr (None, s)
      else with_proc (\<lambda>i s.
        if p_killed (procs s ! i)
        then and_then (release L_tickslock s) (\<lambda>s. Inr (Some (Returns minus_one), s))
        else and_then (check_signals swtch s) (\<lambda>(e, s).
          case e of Some f \<Rightarrow> Inr (Some (Handler f), s)
          | None \<Rightarrow> and_then (sleep swtch Ch_ticks L_tickslock s) (sleep_loop fuel swtch ticks0 n))) s)"

definition sys_sleep ::
    "nat \<Rightarrow> ('a proc_state_scheme \<Rightarrow> 'a proc_state_scheme) \<Rightarrow> 'a proc_state_scheme \<Rightarrow>
       (flow \<times> 'a proc_state_scheme) outcome" where
  "sys_sleep fuel swtch s =
     with_argint minus_one 0 (\<lambda>n s.
       and_then (acquire L_tickslock s) (\<lambda>s.
       and_then (sleep_loop fuel swtch (ticks s) n s) (\<lambda>(r, s).
         case r of Some f \<Rightarrow> Inr (f, s) | None \<Rightarrow>
           and_then (check_signals swtch s) (\<lambda>(e, s).
             case e of Some f \<Rightarrow> Inr (Handler f, s) | None \<Rightarrow>
               and_then (release L_tickslock s) (\<lambda>s. Inr (Returns 0, s)))))) s"

definition sys_uptime :: "'a proc_state_scheme \<Rightarrow> (flow \<times> 'a proc_state_scheme) outcome" where
  "sys_uptime s =
     and_then (acquire L_tickslock s) (\<lambda>s.
       let xticks = ticks s in
       and_then (release L_tickslock s) (\<lambda>s. Inr (Returns xticks, s)))"

section \<open>Effect of the argument fetches\<close>

lemma vload8_balanced [simp]: "cpu_ok s \<Longrightarrow> vload8 a (balanced s) = vload8 a s"
  by (auto simp: vload8_def split: option.split)

lemma vload32_balanced [simp]: "cpu_ok s \<Longrightarrow> vload32 a (balanced s) = vload32 a s"
  by (simp add: vload32_def)

lemma fetchint_ok:
  assumes "cpu_ok s" and "running s = Some i"
  shows "fetchint a s =
    (if p_sz (procs s ! i) \<le> a \<or> p_sz (procs s ! i) < a + 4 then Inr (None, balanced s)
     else and_then (vload32 a s) (\<lambda>w. Inr (Some w, balanced s)))"
  using assms by (simp add: fetchint_def with_proc_ok)

lemma argint_ok:
  assumes "cpu_ok s" and "running s = Some i"
  shows "argint n s = fetchint (tf_esp (tfs s (p_tf (procs s ! i))) + 4 + 4 * of_nat n) s"
  using assms by (simp add: argint_def with_proc_ok fetchint_ok)

lemma argint_balanced:
  assumes "cpu_ok s" and "running s = Some i"
  shows "argint n (balanced s) = argint n s"
proof -
  have "fetchint a (balanced s) = fetchint a s" for a using assms by (simp add: fetchint_ok)
  then show ?thesis using assms argint_ok [of "balanced s" i n] argint_ok [of s i n] by simp
qed

lemma argint_state:
  assumes "cpu_ok s" and "running s = Some i" and "argint n s = Inr (r, t)"
  shows "t = balanced s"
  using assms
  by (auto simp: argint_ok fetchint_ok and_then_def split: if_splits sum.splits)

lemma no_wrap_bound:
  fixes a b z :: u32
  assumes z: "z \<le> 0x80000000" and a: "a < z" and b: "0 \<le> sint b"
  shows "z < a + b \<longleftrightarrow> unat z < unat a + unat b"
proof -
  have "unat z \<le> 2147483648" using z by (simp add: word_le_nat_alt)
  moreover have "unat a < unat z" using a by (simp add: word_less_nat_alt)
  moreover have "unat b < 2147483648"
  proof -
    have "sint b = take_bit 32 (uint b) - 4294967296 * of_bool (bit (uint b) 31)"
      by (simp add: sint_uint signed_take_bit_eq_take_bit_minus)
    moreover have "take_bit 32 (uint b) = uint b" by (rule take_bit_int_eq_self) (use uint_bounded [of b] in simp_all)
    moreover have "uint b < 4294967296" using uint_bounded [of b] by simp
    ultimately have "uint b = sint b" using b by (cases "bit (uint b) 31") auto
    moreover have "sint b < 2147483648" using sint_lt [of b] by simp
    ultimately show ?thesis using uint_nat [of b] by linarith
  qed
  ultimately have "unat (a + b) = unat a + unat b"
    by (simp add: unat_word_ariths)
  then show ?thesis by (simp add: word_less_nat_alt)
qed

text \<open>
  C12: The pointer check. For a process below the kernel's address range, \<open>argptr\<close>
  accepts the pointer \<open>a\<close> that the caller passed exactly when the size is not negative and
  all bytes from \<open>a\<close> to \<open>a + size\<close> are below the process size, as numbers without
  wrap-around; and it does not change the state but for the interrupt bookkeeping.
\<close>

theorem argptr_in_bounds:
  assumes "on_cpu i s" and "p_sz (procs s ! i) \<le> KERNBASE" and "argint n s = Inr (Some a, u)"
  shows "argptr n sz s =
    Inr (if 0 \<le> sint sz \<and> unat a < unat (p_sz (procs s ! i)) \<and> unat a + unat sz \<le> unat (p_sz (procs s ! i))
         then Some a else None, balanced s)"
proof -
  note D = on_cpuD [OF assms(1)]
  have u: "argint n (balanced s) = Inr (Some a, balanced s)"
    using assms(3) argint_state [OF D(1,3) assms(3)] argint_balanced [OF D(1,3)] by simp
  have "sz <s 0 \<longleftrightarrow> \<not> 0 \<le> sint sz" by (auto simp: word_sless_alt)
  moreover have "p_sz (procs s ! i) \<le> a \<longleftrightarrow> \<not> unat a < unat (p_sz (procs s ! i))"
    by (auto simp: word_le_nat_alt)
  moreover have "p_sz (procs s ! i) < a + sz \<longleftrightarrow> unat (p_sz (procs s ! i)) < unat a + unat sz"
    if "0 \<le> sint sz" "unat a < unat (p_sz (procs s ! i))"
    using no_wrap_bound [OF assms(2) _ that(1)] that(2) by (simp add: word_less_nat_alt)
  ultimately show ?thesis
    using D u by (auto simp: argptr_def with_proc_ok)
qed

text \<open>The sample machine in a system call with the arguments \<open>a\<close>, \<open>b\<close> and \<open>c\<close>.\<close>

definition sample_call :: "u32 \<Rightarrow> u32 \<Rightarrow> u32 \<Rightarrow> proc_state" where
  "sample_call a b c = sample\<lparr>tfs := \<lambda>_. sample_tf\<lparr>tf_esp := 0x1FB4\<rparr>,
     mem := put_word sample_ka 4 a (put_word sample_ka 8 b (put_word sample_ka 12 c sample_mem))\<rparr>"

lemma sample_call_view [simp]:
  "cpu_ok (sample_call a b c)" "running (sample_call a b c) = Some (Suc 0)"
  "procs (sample_call a b c) = sample_procs" "lock_free l (sample_call a b c)"
  "on_cpu (Suc 0) (sample_call a b c)" "tf_esp (tfs (sample_call a b c) x) = 0x1FB4" "c_ncli (self_cpu (sample_call a b c)) = 0"
  by (simp_all add: sample_call_def on_cpu_def at_ease_def sample_procs_def)

lemma sample_call_win: "win 0x1FB4 76 sample_ka (sample_call a b c)"
proof -
  let ?s = "\<lambda>m. sample\<lparr>tfs := \<lambda>_. sample_tf\<lparr>tf_esp := 0x1FB4\<rparr>, mem := m\<rparr>"
  have put: "win 0x1FB4 76 sample_ka (?s (put_word sample_ka k w m))"
    if "win 0x1FB4 76 sample_ka (?s m)" "k + 4 \<le> 76" for k w m
    using vstore32_win(2) [OF that, of w] by simp
  have "win 0x1FB4 76 sample_ka (?s sample_mem)" using sample_win by (simp add: win_def)
  from put [OF put [OF put [OF this]]] show ?thesis by (simp add: sample_call_def)
qed

lemma sample_call_words:
  "win_word sample_ka (mem (sample_call a b c)) 4 = a" "win_word sample_ka (mem (sample_call a b c)) 8 = b"
  "win_word sample_ka (mem (sample_call a b c)) 12 = c"
  by (simp_all add: sample_call_def win_word_put_same [OF sample_window] win_word_put_other [OF sample_window])

lemma sample_call_args:
  "argint 0 (sample_call a b c) = Inr (Some a, balanced (sample_call a b c))"
  "argint (Suc 0) (sample_call a b c) = Inr (Some b, balanced (sample_call a b c))"
  "argint 2 (sample_call a b c) = Inr (Some c, balanced (sample_call a b c))"
  using vload32_win [OF sample_call_win [of a b c], of 4] vload32_win [OF sample_call_win [of a b c], of 8]
    vload32_win [OF sample_call_win [of a b c], of 12]
  by (simp_all add: argint_ok fetchint_ok sample_call_words)

theorem argptr_in_bounds_witness:
  "argptr 0 16 (sample_call 0x1FF0 0 0) = Inr (Some 0x1FF0, balanced (sample_call 0x1FF0 0 0)) \<and>
   argptr 0 17 (sample_call 0x1FF0 0 0) = Inr (None, balanced (sample_call 0x1FF0 0 0))"
  using argptr_in_bounds [OF sample_call_view(5) [of "0x1FF0" 0 0] _ sample_call_args(1), where sz = 16]
    argptr_in_bounds [OF sample_call_view(5) [of "0x1FF0" 0 0] _ sample_call_args(1), where sz = 17]
  by simp

section \<open>Strings\<close>

lemma fetchstr_loop_win:
  assumes "win lo n ka s" and "k + m \<le> n"
  shows "fetchstr_loop m (lo + of_nat k) k s = Inr (scan_from k (\<lambda>b. b = 0) (map (\<lambda>j. mem s (ka j)) [k..<k + m]))"
  using assms(2)
proof (induction m arbitrary: k)
  case (Suc m)
  have "vload8 (lo + of_nat k) s = Inr (mem s (ka k))"
    using vload8_win [OF assms(1), of k] Suc.prems by simp
  moreover have next_addr: "lo + of_nat k + 1 = lo + of_nat (Suc k)" by (simp add: algebra_simps)
  have "fetchstr_loop m (lo + of_nat k + 1) (Suc k) s =
      Inr (scan_from (Suc k) (\<lambda>b. b = 0) (map (\<lambda>j. mem s (ka j)) [Suc k..<k + Suc m]))"
    unfolding next_addr
    using Suc.IH [of "Suc k"] Suc.prems by (simp del: upt_Suc of_nat_Suc)
  ultimately show ?case by (simp add: upt_conv_Cons del: upt_Suc)
qed simp

text \<open>
  C13: String arguments. When the caller's memory from \<open>a\<close> to the end of the process is
  mapped, \<open>fetchstr\<close> answers with the distance to the first zero byte, and with -1 when
  there is none before the end of the process or when \<open>a\<close> is beyond it.
\<close>

theorem fetchstr_first_nul:
  assumes "on_cpu i s" and "win a (unat (p_sz (procs s ! i) - a)) ka s"
  shows "fetchstr a s =
    Inr (if a < p_sz (procs s ! i)
         then map_option (Pair a)
                (scan (\<lambda>b. b = 0) (map (\<lambda>j. mem s (ka j)) [0..<unat (p_sz (procs s ! i) - a)]))
         else None, balanced s)"
proof -
  note D = on_cpuD [OF assms(1)]
  have "fetchstr_loop (unat (p_sz (procs s ! i) - a)) a 0 (balanced s) =
      Inr (scan (\<lambda>b. b = 0) (map (\<lambda>j. mem s (ka j)) [0..<unat (p_sz (procs s ! i) - a)]))"
    using fetchstr_loop_win [of a _ ka "balanced s" 0 "unat (p_sz (procs s ! i) - a)"] assms(2) D
    by (simp add: scan_def)
  then show ?thesis using D by (auto simp: fetchstr_def with_proc_ok)
qed

lemma win_suffix:
  assumes "win lo n ka s"
  shows "win (lo + of_nat k) (n - k) (\<lambda>i. ka (k + i)) s"
proof -
  note D = user_windowD [OF assms [unfolded win_def]]
  have a: "lo + of_nat k + of_nat i = lo + of_nat (k + i)" for i by (simp add: add.assoc)
  show ?thesis
    unfolding win_def
  proof (rule user_windowI)
    fix i j assume ij: "i < n - k" "j < n - k"
    then have kij: "k + i < n" "k + j < n" by arith+
    show "\<not> in_range (pde_addr (c_cr3 (self_cpu s)) (lo + of_nat k + of_nat i)) 4 (ka (k + j))"
      unfolding a using kij by (rule D(3))
    show "\<not> in_range (pte_addr (mem s) (c_cr3 (self_cpu s)) (lo + of_nat k + of_nat i)) 4 (ka (k + j))"
      unfolding a using kij by (rule D(4))
    show "i = j" if "ka (k + i) = ka (k + j)" using D(1) [OF kij that] by simp
  next
    fix i assume "i < n - k"
    then have "k + i < n" by arith
    then show "\<exists>fl. xlate (mem s) (c_cr3 (self_cpu s)) (lo + of_nat k + of_nat i) = Some (ka (k + i), fl) \<and>
        fl AND PTE_W \<noteq> 0"
      unfolding a by (rule D(2))
  qed
qed

theorem fetchstr_first_nul_witness:
  "fetchstr 0x1FB8 (sample_call 0x736C 0 0) =
     Inr (Some (0x1FB8, 2), balanced (sample_call 0x736C 0 0))"
proof -
  let ?s = "sample_call 0x736C 0 0" and ?ka = "\<lambda>i. sample_ka (4 + i)"
  have b: "mem ?s (?ka 0) = 0x6C" "mem ?s (?ka 1) = 0x73" "mem ?s (?ka 2) = 0"
    by (simp_all add: sample_call_def put_word_def sample_ka_def sample_mem_def store32_def)
  have "scan (\<lambda>b. b = 0) (map (\<lambda>j. mem ?s (?ka j)) [0..<72]) = Some 2"
  proof (rule scan_eqI)
    fix j :: nat assume "j < 2"
    then have "j = 0 \<or> j = 1" by arith
    then show "map (\<lambda>j. mem ?s (?ka j)) [0..<72] ! j \<noteq> 0" using b by auto
  qed (use b in simp_all)
  then show ?thesis
    using fetchstr_first_nul [OF sample_call_view(5), of "0x1FB8" "0x736C" 0 0 ?ka]
      win_suffix [OF sample_call_win [of "0x736C" 0 0], of 4] by simp
qed

section \<open>Sleeping for a number of ticks\<close>

text \<open>A process in the loop of \<open>sys_sleep\<close>, holding \<open>tickslock\<close>, with no signal to act on.\<close>

definition dozing :: "nat \<Rightarrow> 'a proc_state_scheme \<Rightarrow> bool" where
  "dozing i s \<longleftrightarrow> lock_mine L_tickslock s \<and> cpu_ok s \<and> c_ncli (self_cpu s) = 1 \<and> running s = Some i \<and>
     i < length (procs s) \<and> lock_free L_ptable s \<and> issig (procs s ! i) = 0 \<and> \<not> p_killed (procs s ! i)"

lemma dozingD:
  assumes "dozing i s"
  shows "lock_mine L_tickslock s" "cpu_ok s" "c_ncli (self_cpu s) = 1" "running s = Some i"
    "i < length (procs s)" "lock_free L_ptable s" "issig (procs s ! i) = 0" "\<not> p_killed (procs s ! i)"
    "balanced s = s"
  using assms by (auto simp: dozing_def intro: balanced_deep)

lemma check_signals_quiet:
  assumes "cpu_ok s" and "running s = Some i" and "issig (procs s ! i) = 0"
  shows "check_signals swtch s = Inr (None, balanced s)"
  using assms by (simp add: check_signals_def myproc_ok with_proc_ok)

text \<open>
  What the process relies on while it sleeps: it is resumed, holding only \<open>ptable.lock\<close>,
  after one more tick, and nobody signals it.
\<close>

definition ticked :: "nat \<Rightarrow> ('a proc_state_scheme \<Rightarrow> 'a proc_state_scheme) \<Rightarrow> 'a proc_state_scheme \<Rightarrow> bool" where
  "ticked i swtch u \<longleftrightarrow>
     (let w = swtch (asleep i Ch_ticks L_tickslock u)
      in inside i w \<and> lock_free L_tickslock w \<and> issig (procs w ! i) = 0 \<and> \<not> p_killed (procs w ! i) \<and>
         ticks w = ticks u + 1)"

lemma doze_once:
  assumes "dozing i s" and "ticked i swtch s"
  shows "\<exists>u. sleep swtch Ch_ticks L_tickslock s = Inr u \<and> dozing i u \<and> ticks u = ticks s + 1"
proof -
  note D = dozingD [OF assms(1)]
  let ?w = "swtch (asleep i Ch_ticks L_tickslock s)"
  let ?t = "set_proc i (\<lambda>p. p\<lparr>p_chan := Ch_null\<rparr>) (reinstate (c_intena (self_cpu s)) ?w)"
  let ?u = "enter L_tickslock (leave L_ptable ?t)"
  from assms(2) have w: "inside i ?w" "lock_free L_tickslock ?w" "issig (procs ?w ! i) = 0"
      "\<not> p_killed (procs ?w ! i)" "ticks ?w = ticks s + 1"
    by (simp_all add: ticked_def Let_def)
  have "sleep swtch Ch_ticks L_tickslock s = Inr ?u"
    using sleep_ok [of L_tickslock s i swtch Ch_ticks] D w by simp
  moreover have "inside i ?t" using w(1) by simp
  note T = insideD [OF this]
  have "dozing i ?u"
    using T w insideD(5) [OF w(1)] by (simp add: dozing_def lock_mine_def issig_def)
  moreover have "ticks ?u = ticks s + 1" using w(5) by simp
  ultimately show ?thesis by blast
qed

lemma sleep_loop_ok:
  assumes "dozing i s" and "\<And>u. dozing i u \<Longrightarrow> ticked i swtch u"
    and "ticks s - t0 \<le> n" and "unat (n - (ticks s - t0)) < fuel"
  shows "\<exists>u. sleep_loop fuel swtch t0 n s = Inr (None, u) \<and> dozing i u \<and> ticks u - t0 = n"
  using assms(1,3,4)
proof (induction fuel arbitrary: s)
  case (Suc fuel)
  note D = dozingD [OF Suc.prems(1)]
  show ?case
  proof (cases "ticks s - t0 = n")
    case True
    then show ?thesis using Suc.prems(1) by auto
  next
    case False
    then have less: "ticks s - t0 < n" using Suc.prems(2) by simp
    obtain v where v: "sleep swtch Ch_ticks L_tickslock s = Inr v" "dozing i v" "ticks v = ticks s + 1"
      using doze_once [OF Suc.prems(1) assms(2) [OF Suc.prems(1)]] by blast
    have step: "ticks v - t0 = ticks s - t0 + 1" using v(3) by simp
    have le: "ticks v - t0 \<le> n" unfolding step using less by (metis add.commute inc_le)
    have "n - (ticks v - t0) = n - (ticks s - t0) - 1" unfolding step by simp
    moreover have "n - (ticks s - t0) \<noteq> 0" using False by simp
    ultimately have "unat (n - (ticks v - t0)) < fuel"
      using Suc.prems(3) by (metis Suc_less_eq less_trans_Suc measure_unat not_less_eq)
    then obtain u where "sleep_loop fuel swtch t0 n v = Inr (None, u)" "dozing i u" "ticks u - t0 = n"
      using Suc.IH [OF v(2) le] by blast
    then show ?thesis
      using D less v(1) by (simp add: with_proc_ok check_signals_quiet)
  qed
qed simp

text \<open>
  C14: \<open>sleep(n)\<close> ends. A process with no signal to act on that is resumed after every
  tick sleeps exactly \<open>n\<close> ticks: the loop needs no more than \<open>n\<close> rounds, the call returns 0
  when the tick counter is \<open>n\<close> above its value at the call, and \<open>tickslock\<close> is free again.
\<close>

theorem sys_sleep_returns:
  fixes s :: "'a proc_state_scheme"
  assumes cpu: "on_cpu i s" and ncli: "c_ncli (self_cpu s) = 0" and lk: "lock_free L_tickslock s"
    and arg: "argint 0 s = Inr (Some n, u)"
    and quiet: "issig (procs s ! i) = 0" "\<not> p_killed (procs s ! i)"
    and rely: "\<And>v :: 'a proc_state_scheme. dozing i v \<Longrightarrow> ticked i swtch v" and fuel: "unat n < fuel"
  shows "\<exists>t. sys_sleep fuel swtch s = Inr (Returns 0, t) \<and> ticks t = ticks s + n \<and> lock_free L_tickslock t"
proof -
  note D = on_cpuD [OF cpu]
  have u: "u = balanced s" using argint_state [OF D(1,3) arg] .
  let ?e = "enter L_tickslock (balanced s)"
  have "dozing i ?e" using D ncli quiet by (simp add: dozing_def lock_mine_def)
  then obtain w where w: "sleep_loop fuel swtch (ticks ?e) n ?e = Inr (None, w)" "dozing i w" "ticks w - ticks s = n"
    using sleep_loop_ok [of i ?e swtch "ticks s" n fuel] rely fuel by auto
  note W = dozingD [OF w(2)]
  have "acquire L_tickslock (balanced s) = Inr ?e" using D lk by (intro acquire_ok) (auto simp: lock_free_def)
  moreover have "release L_tickslock w = Inr (leave L_tickslock w)"
    using W lock_mine_held [OF W(1)] by (intro release_ok) simp_all
  ultimately have "sys_sleep fuel swtch s = Inr (Returns 0, leave L_tickslock w)"
    using arg u w(1) W by (simp add: sys_sleep_def with_argint_def check_signals_quiet)
  moreover have "ticks w = ticks s + n" using w(3) by (metis add.commute diff_add_cancel)
  ultimately show ?thesis by simp
qed

theorem sys_sleep_returns_witness:
  "\<exists>t. sys_sleep 4 (\<lambda>s. s\<lparr>ticks := ticks s + 1\<rparr>) (sample_call 3 0 0) = Inr (Returns 0, t) \<and>
     ticks t = ticks (sample_call 3 0 0) + 3 \<and> lock_free L_tickslock t"
proof (rule sys_sleep_returns)
  fix v :: proc_state
  assume d: "dozing (Suc 0) v"
  note D = dozingD [OF d]
  let ?a = "asleep (Suc 0) Ch_ticks L_tickslock v"
  have "inside (Suc 0) ?a" by (rule inside_asleep) (use D in auto)
  moreover have "inside i (u\<lparr>ticks := x\<rparr>) = inside i u" for i x and u :: proc_state by (simp add: inside_def)
  ultimately show "ticked (Suc 0) (\<lambda>s. s\<lparr>ticks := ticks s + 1\<rparr>) v"
    using D by (simp add: ticked_def asleep_def issig_def)
qed (use sample_call_args in \<open>simp_all add: issig_def\<close>)

text \<open>
  C15: \<open>sleep\<close> with a stop signal brings the kernel down. A process that calls \<open>sleep\<close> for
  at least one tick while a SIGSTOP is pending reaches \<open>sched\<close> through \<open>psig\<close> with
  \<open>tickslock\<close> held besides \<open>ptable.lock\<close>, and \<open>sched\<close> panics.
\<close>

theorem sys_sleep_stop_panics:
  assumes cpu: "on_cpu i s" and ncli: "c_ncli (self_cpu s) = 0" and lk: "lock_free L_tickslock s"
    and arg: "argint 0 s = Inr (Some n, u)" and n: "0 < n"
    and live: "\<not> doomed (procs s ! i)" "\<not> p_killed (procs s ! i)"
    and pend: "bit (p_sigpending (procs s ! i)) SIGSTOP" "\<not> bit (p_sigblocked (procs s ! i)) SIGSTOP"
  shows "sys_sleep (Suc fuel) swtch s = Inl (Panic ''sched locks'')"
proof -
  note D = on_cpuD [OF cpu]
  let ?p = "procs s ! i" and ?e = "enter L_tickslock (balanced s)"
  let ?d = "enter L_ptable ?e"
  let ?z = "set_proc i (\<lambda>p. p\<lparr>p_state := SLEEPING\<rparr>) ?d"
  have u: "u = balanced s" using argint_state [OF D(1,3) arg] .
  have sig: "issig ?p \<noteq> 0"
  proof -
    have "bit (issig ?p) SIGSTOP" using pend by (simp add: issig_def bit_simps)
    then show ?thesis by auto
  qed
  have quiet: "for_each (act_once act i) ns (b, t) = Inr (b, t)"
    if "set ns \<subseteq> set (termsig @ coresig)" "procs t = procs s" for act ns b and t :: "'a proc_state_scheme"
    using that live(1)
  proof (induction ns)
    case (Cons x ns)
    then have "\<not> default_due x ?p" by (auto simp: doomed_def dues_empty)
    then show ?case using Cons by (simp add: act_once_def)
  qed simp
  have "cpu_ok ?z" "lock_held L_ptable ?z" "1 < c_ncli (self_cpu ?z)" using D ncli by simp_all
  then have sched: "sched swtch ?z = Inl (Panic ''sched locks'')" by (rule sched_too_deep)
  have stop: "p_sigpending ?p AND sigbit SIGSTOP = sigbit SIGSTOP" using pend by (simp add: and_sigbit_eq)
  have "psig swtch (Some i) ?e = Inl (Panic ''sched locks'')"
    using D quiet [of termsig ?d] quiet [of coresig ?d] stop sched
    by (simp add: psig_def acquire_ok psig_tail_def stop_def lock_free_def)
  moreover have "acquire L_tickslock (balanced s) = Inr ?e"
    using D lk by (intro acquire_ok) (auto simp: lock_free_def)
  moreover have "balanced ?e = ?e" using D by simp
  ultimately show ?thesis
    using arg u D n live(2) sig
    by (simp add: sys_sleep_def with_argint_def with_proc_ok check_signals_def myproc_ok)
qed

definition sample_stopped_call :: proc_state where
  "sample_stopped_call = set_proc 1 (\<lambda>p. p\<lparr>p_sigpending := sigbit SIGSTOP\<rparr>) (sample_call 3 0 0)"

lemma vload8_set_proc [simp]: "vload8 a (set_proc i f s) = vload8 a s"
  by (auto simp: vload8_def split: option.split)

lemma vload32_set_proc [simp]: "vload32 a (set_proc i f s) = vload32 a s"
  by (simp add: vload32_def)

theorem sys_sleep_stop_panics_witness:
  "sys_sleep (Suc 0) (\<lambda>s. s) sample_stopped_call = Inl (Panic ''sched locks'')"
proof (rule sys_sleep_stop_panics)
  let ?p = "sample_proc\<lparr>p_sigpending := sigbit SIGSTOP\<rparr>"
  show "argint 0 sample_stopped_call = Inr (Some 3, balanced sample_stopped_call)"
    using vload32_win [OF sample_call_win [of 3 0 0], of 4]
    by (simp add: sample_stopped_call_def argint_ok fetchint_ok sample_call_words)
  show "on_cpu 1 sample_stopped_call"
    by (simp add: sample_stopped_call_def on_cpu_def at_ease_def)
  have p: "procs sample_stopped_call ! 1 = ?p" by (simp add: sample_stopped_call_def)
  show "\<not> doomed (procs sample_stopped_call ! 1)"
    unfolding p doomed_def dues_empty
    by (auto simp: default_due_bit termsig_def coresig_def bit_sigbit)
  show "bit (p_sigpending (procs sample_stopped_call ! 1)) SIGSTOP" unfolding p by (simp add: bit_sigbit)
  show "\<not> p_killed (procs sample_stopped_call ! 1)" "\<not> bit (p_sigblocked (procs sample_stopped_call ! 1)) SIGSTOP"
    unfolding p by simp_all
qed (simp_all add: sample_stopped_call_def)

end
