(* ===== verification/Sysfile.thy ===== *)
theory Sysfile
  imports Exec Syscall
begin

text \<open>
  The system calls on files, \<open>src/sysfile.c\<close>.

  A path argument is fetched as a list of bytes once it has been checked; the code keeps
  the user pointer and reads the same bytes later. A null pointer result is \<open>None\<close>.
\<close>

unbundle bit_operations_syntax

abbreviation (input) NOFILE :: int where "NOFILE \<equiv> 16"
abbreviation (input) O_RDONLY :: u32 where "O_RDONLY \<equiv> 0"
abbreviation (input) O_WRONLY :: u32 where "O_WRONLY \<equiv> 1"
abbreviation (input) O_RDWR :: u32 where "O_RDWR \<equiv> 2"
abbreviation (input) O_CREATE :: u32 where "O_CREATE \<equiv> 0x200"

section \<open>Descriptors\<close>

definition argfd ::
    "nat \<Rightarrow> 'a proc_state_scheme \<Rightarrow> ((nat \<times> nat) option \<times> 'a proc_state_scheme) outcome" where
  "argfd n s =
     and_then (argint n s) (\<lambda>(r, s).
       case r of None \<Rightarrow> Inr (None, s)
       | Some fd \<Rightarrow>
           if sint fd < 0 \<or> sint fd \<ge> NOFILE then Inr (None, s)
           else with_proc (\<lambda>i s.
             case p_ofile (procs s ! i) ! unat fd of
               None \<Rightarrow> Inr (None, s) | Some f \<Rightarrow> Inr (Some (unat fd, f), s)) s)"

definition fdalloc :: "nat \<Rightarrow> 'a proc_state_scheme \<Rightarrow> (int \<times> 'a proc_state_scheme) outcome" where
  "fdalloc f s =
     with_proc (\<lambda>i s.
       case scan (\<lambda>o'. o' = None) (p_ofile (procs s ! i)) of
         Some fd \<Rightarrow> Inr (int fd, set_proc i (\<lambda>p. p\<lparr>p_ofile := (p_ofile p)[fd := Some f]\<rparr>) s)
       | None \<Rightarrow> Inr (-1, s)) s"

text \<open>\<open>if(argfd(n, 0, &f) < 0) return -1; ...\<close>, and the same for a path.\<close>

definition with_argfd ::
    "nat \<Rightarrow> (nat \<Rightarrow> nat \<Rightarrow> 'a proc_state_scheme \<Rightarrow> (int \<times> 'a proc_state_scheme) outcome) \<Rightarrow>
       'a proc_state_scheme \<Rightarrow> (int \<times> 'a proc_state_scheme) outcome" where
  "with_argfd n f s =
     and_then (argfd n s) (\<lambda>(r, s). case r of None \<Rightarrow> Inr (-1, s) | Some (fd, x) \<Rightarrow> f fd x s)"

definition arg_path ::
    "nat \<Rightarrow> 'a proc_state_scheme \<Rightarrow> (u8 list option \<times> 'a proc_state_scheme) outcome" where
  "arg_path n s =
     and_then (argstr n s) (\<lambda>(r, s).
       case r of None \<Rightarrow> Inr (None, s)
       | Some (a, len) \<Rightarrow> and_then (vload_bytes len a s) (\<lambda>xs. Inr (Some xs, s)))"

definition sys_dup :: "'a file_state_scheme \<Rightarrow> (int \<times> 'a file_state_scheme) outcome" where
  "sys_dup s =
     with_argfd 0 (\<lambda>_ f s.
       and_then (fdalloc f s) (\<lambda>(fd, s).
         if fd < 0 then Inr (-1, s)
         else and_then (filedup f s) (\<lambda>(_, s). Inr (fd, s)))) s"

text \<open>The arguments of \<open>read\<close> and \<open>write\<close>: the file, the buffer and its size.\<close>

definition with_buffer ::
    "(nat \<Rightarrow> u32 \<Rightarrow> int \<Rightarrow> 'a proc_state_scheme \<Rightarrow> (int \<times> 'a proc_state_scheme) outcome) \<Rightarrow>
       'a proc_state_scheme \<Rightarrow> (int \<times> 'a proc_state_scheme) outcome" where
  "with_buffer g s =
     with_argfd 0 (\<lambda>_ f s.
       and_then (argint 2 s) (\<lambda>(r, s).
         case r of None \<Rightarrow> Inr (-1, s)
         | Some n \<Rightarrow>
             and_then (argptr 1 n s) (\<lambda>(r, s).
               case r of None \<Rightarrow> Inr (-1, s) | Some p \<Rightarrow> g f p (sint n) s))) s"

definition sys_read ::
    "'a file_state_scheme env \<Rightarrow> 'a file_state_scheme \<Rightarrow> (int \<times> 'a file_state_scheme) outcome" where
  "sys_read k s = with_buffer (fileread k) s"

definition sys_write ::
    "'a file_state_scheme env \<Rightarrow> 'a file_state_scheme \<Rightarrow> (int \<times> 'a file_state_scheme) outcome" where
  "sys_write k s = with_buffer (filewrite k) s"

definition sys_close ::
    "'a file_state_scheme env \<Rightarrow> 'a file_state_scheme \<Rightarrow> (int \<times> 'a file_state_scheme) outcome" where
  "sys_close k s =
     with_argfd 0 (\<lambda>fd f. with_proc (\<lambda>i s.
       let s = set_proc i (\<lambda>p. p\<lparr>p_ofile := (p_ofile p)[fd := None]\<rparr>) s in
       and_then (fileclose k f s) (\<lambda>s. Inr (0, s)))) s"

definition sys_fstat ::
    "'a file_state_scheme env \<Rightarrow> 'a file_state_scheme \<Rightarrow> (int \<times> 'a file_state_scheme) outcome" where
  "sys_fstat k s =
     with_argfd 0 (\<lambda>_ f s.
       and_then (argptr 1 20 s) (\<lambda>(r, s).
         case r of None \<Rightarrow> Inr (-1, s) | Some st \<Rightarrow> filestat k f st s)) s"

section \<open>Links and directories\<close>

definition end_with ::
    "'a log_state_scheme env \<Rightarrow> 'r \<Rightarrow> 'a log_state_scheme \<Rightarrow> ('r \<times> 'a log_state_scheme) outcome" where
  "end_with k r s = and_then (end_op k s) (\<lambda>s. Inr (r, s))"

definition link_bad ::
    "'a fs_state_scheme env \<Rightarrow> nat \<Rightarrow> 'a fs_state_scheme \<Rightarrow> (int \<times> 'a fs_state_scheme) outcome" where
  "link_bad k ip s =
     and_then (ilock k ip s) (\<lambda>s.
       let s = set_inode ip (\<lambda>x. x\<lparr>i_nlink := i_nlink x - 1\<rparr>) s in
       and_then (iupdate k ip s) (\<lambda>s.
       and_then (iunlockput k ip s) (end_with k (-1))))"

definition sys_link ::
    "'a fs_state_scheme env \<Rightarrow> 'a fs_state_scheme \<Rightarrow> (int \<times> 'a fs_state_scheme) outcome" where
  "sys_link k s =
     and_then (arg_path 0 s) (\<lambda>(old, s).
       case old of None \<Rightarrow> Inr (-1, s) | Some old \<Rightarrow>
     and_then (arg_path 1 s) (\<lambda>(new, s).
       case new of None \<Rightarrow> Inr (-1, s) | Some new \<Rightarrow>
     and_then (begin_op k s) (\<lambda>s.
     and_then (namei k old s) (\<lambda>(r, s).
       case r of None \<Rightarrow> end_with k (-1) s
       | Some ip \<Rightarrow>
           and_then (ilock k ip s) (\<lambda>s.
             if i_type (inodes s ! ip) = T_DIR
             then and_then (iunlockput k ip s) (end_with k (-1))
             else
               let s = set_inode ip (\<lambda>x. x\<lparr>i_nlink := i_nlink x + 1\<rparr>) s in
               and_then (iupdate k ip s) (\<lambda>s.
               and_then (iunlock ip s) (\<lambda>s.
               and_then (nameiparent k new s) (\<lambda>(r, s).
                 case r of None \<Rightarrow> link_bad k ip s
                 | Some (dp, name) \<Rightarrow>
                     and_then (ilock k dp s) (\<lambda>s.
                     and_then
                       (if i_dev (inodes s ! dp) \<noteq> i_dev (inodes s ! ip) then Inr (-1, s)
                        else dirlink k dp name (i_inum (inodes s ! ip)) s) (\<lambda>(r, s).
                     and_then (iunlockput k dp s) (\<lambda>s.
                       if r < 0 then link_bad k ip s
                       else and_then (iput k ip s) (end_with k 0))))))))))))"

definition isdirempty_at ::
    "'a fs_state_scheme env \<Rightarrow> nat \<Rightarrow> nat \<Rightarrow> 'a fs_state_scheme \<Rightarrow> (bool option \<times> 'a fs_state_scheme) outcome" where
  "isdirempty_at k dp off s =
     and_then (read_dirent ''isdirempty: readi'' k dp off s) (\<lambda>(de, s).
       Inr (if de_inum de \<noteq> 0 then Some False else None, s))"

definition isdirempty ::
    "'a fs_state_scheme env \<Rightarrow> nat \<Rightarrow> 'a fs_state_scheme \<Rightarrow> (bool \<times> 'a fs_state_scheme) outcome" where
  "isdirempty k dp s =
     and_then (for_until (isdirempty_at k dp) (drop 2 (dir_offsets (unat (i_size (inodes s ! dp))))) s) (\<lambda>(r, s).
       case r of Some b \<Rightarrow> Inr (b, s) | None \<Rightarrow> Inr (True, s))"

definition unlink_bad ::
    "'a fs_state_scheme env \<Rightarrow> nat \<Rightarrow> 'a fs_state_scheme \<Rightarrow> (int \<times> 'a fs_state_scheme) outcome" where
  "unlink_bad k dp s = and_then (iunlockput k dp s) (end_with k (-1))"

definition sys_unlink ::
    "'a fs_state_scheme env \<Rightarrow> 'a fs_state_scheme \<Rightarrow> (int \<times> 'a fs_state_scheme) outcome" where
  "sys_unlink k s =
     and_then (arg_path 0 s) (\<lambda>(path, s).
       case path of None \<Rightarrow> Inr (-1, s) | Some path \<Rightarrow>
     and_then (begin_op k s) (\<lambda>s.
     and_then (nameiparent k path s) (\<lambda>(r, s).
       case r of None \<Rightarrow> end_with k (-1) s
       | Some (dp, name) \<Rightarrow>
           and_then (ilock k dp s) (\<lambda>s.
             if namecmp name [dot, 0] = 0 \<or> namecmp name [dot, dot, 0] = 0 then unlink_bad k dp s
             else and_then (dirlookup k dp name s) (\<lambda>(r, s).
               case r of None \<Rightarrow> unlink_bad k dp s
               | Some (ip, off) \<Rightarrow>
                   and_then (ilock k ip s) (\<lambda>s.
                     if sint (i_nlink (inodes s ! ip)) < 1 then Inl (Panic ''unlink: nlink < 1'')
                     else and_then
                       (if i_type (inodes s ! ip) = T_DIR then isdirempty k ip s else Inr (True, s)) (\<lambda>(e, s).
                       if \<not> e then and_then (iunlockput k ip s) (unlink_bad k dp)
                       else and_then (writei k dp (S_bytes (replicate 16 0)) (of_nat off) 16 s) (\<lambda>(r, s).
                         if r \<noteq> 16 then Inl (Panic ''unlink: writei'')
                         else and_then
                           (if i_type (inodes s ! ip) = T_DIR
                            then let s = set_inode dp (\<lambda>x. x\<lparr>i_nlink := i_nlink x - 1\<rparr>) s in iupdate k dp s
                            else Inr s) (\<lambda>s.
                         and_then (iunlockput k dp s) (\<lambda>s.
                           let s = set_inode ip (\<lambda>x. x\<lparr>i_nlink := i_nlink x - 1\<rparr>) s in
                           and_then (iupdate k ip s) (\<lambda>s.
                           and_then (iunlockput k ip s) (end_with k 0))))))))))))"

text \<open>\<open>create\<close>; \<open>create_dots\<close> is the part for a new directory.\<close>

definition create_dots ::
    "'a fs_state_scheme env \<Rightarrow> nat \<Rightarrow> nat \<Rightarrow> 'a fs_state_scheme \<Rightarrow> ('a fs_state_scheme) outcome" where
  "create_dots k dp ip s =
     (let s = set_inode dp (\<lambda>x. x\<lparr>i_nlink := i_nlink x + 1\<rparr>) s in
      and_then (iupdate k dp s) (\<lambda>s.
      and_then (dirlink k ip [dot, 0] (i_inum (inodes s ! ip)) s) (\<lambda>(r, s).
        if r < 0 then Inl (Panic ''create dots'')
        else and_then (dirlink k ip [dot, dot, 0] (i_inum (inodes s ! dp)) s) (\<lambda>(r, s).
          if r < 0 then Inl (Panic ''create dots'') else Inr s))))"

definition create ::
    "'a fs_state_scheme env \<Rightarrow> u8 list \<Rightarrow> u16 \<Rightarrow> u16 \<Rightarrow> u16 \<Rightarrow> 'a fs_state_scheme \<Rightarrow>
       (nat option \<times> 'a fs_state_scheme) outcome" where
  "create k path type major minor s =
     and_then (nameiparent k path s) (\<lambda>(r, s).
       case r of None \<Rightarrow> Inr (None, s)
       | Some (dp, name) \<Rightarrow>
           and_then (ilock k dp s) (\<lambda>s.
           and_then (dirlookup k dp name s) (\<lambda>(r, s).
             case r of
               Some (ip, _) \<Rightarrow>
                 and_then (iunlockput k dp s) (\<lambda>s.
                 and_then (ilock k ip s) (\<lambda>s.
                   if type = T_FILE \<and> i_type (inodes s ! ip) = T_FILE then Inr (Some ip, s)
                   else and_then (iunlockput k ip s) (\<lambda>s. Inr (None, s))))
             | None \<Rightarrow>
                 and_then (ialloc k (i_dev (inodes s ! dp)) type s) (\<lambda>(ip, s).
                 and_then (ilock k ip s) (\<lambda>s.
                   let s = set_inode ip (\<lambda>x. x\<lparr>i_major := major, i_minor := minor, i_nlink := 1\<rparr>) s in
                   and_then (iupdate k ip s) (\<lambda>s.
                   and_then (if type = T_DIR then create_dots k dp ip s else Inr s) (\<lambda>s.
                   and_then (dirlink k dp name (i_inum (inodes s ! ip)) s) (\<lambda>(r, s).
                     if r < 0 then Inl (Panic ''create: dirlink'')
                     else and_then (iunlockput k dp s) (\<lambda>s. Inr (Some ip, s))))))))))"

section \<open>Opening\<close>

text \<open>The first half of \<open>sys_open\<close>: the locked inode, or \<open>None\<close> when the call fails.\<close>

definition open_inode ::
    "'a fs_state_scheme env \<Rightarrow> u8 list \<Rightarrow> u32 \<Rightarrow> 'a fs_state_scheme \<Rightarrow>
       (nat option \<times> 'a fs_state_scheme) outcome" where
  "open_inode k path omode s =
     (if omode AND O_CREATE \<noteq> 0
      then and_then (create k path T_FILE 0 0 s) (\<lambda>(r, s).
             case r of None \<Rightarrow> end_with k None s | Some ip \<Rightarrow> Inr (Some ip, s))
      else and_then (namei k path s) (\<lambda>(r, s).
             case r of None \<Rightarrow> end_with k None s
             | Some ip \<Rightarrow>
                 and_then (ilock k ip s) (\<lambda>s.
                   if i_type (inodes s ! ip) = T_DIR \<and> omode \<noteq> O_RDONLY
                   then and_then (iunlockput k ip s) (end_with k None)
                   else Inr (Some ip, s))))"

definition sys_open ::
    "'a file_state_scheme env \<Rightarrow> 'a file_state_scheme \<Rightarrow> (int \<times> 'a file_state_scheme) outcome" where
  "sys_open k s =
     and_then (arg_path 0 s) (\<lambda>(path, s).
       case path of None \<Rightarrow> Inr (-1, s) | Some path \<Rightarrow>
     and_then (argint 1 s) (\<lambda>(omode, s).
       case omode of None \<Rightarrow> Inr (-1, s) | Some omode \<Rightarrow>
     and_then (begin_op k s) (\<lambda>s.
     and_then (open_inode k path omode s) (\<lambda>(r, s).
       case r of None \<Rightarrow> Inr (-1, s)
       | Some ip \<Rightarrow>
           and_then (filealloc s) (\<lambda>(r, s).
             case r of
               None \<Rightarrow> and_then (iunlockput k ip s) (end_with k (-1))
             | Some f \<Rightarrow>
                 and_then (fdalloc f s) (\<lambda>(fd, s).
                   if fd < 0
                   then and_then (fileclose k f s) (\<lambda>s. and_then (iunlockput k ip s) (end_with k (-1)))
                   else and_then (iunlock ip s) (\<lambda>s.
                     and_then (end_op k s) (\<lambda>s.
                       Inr (fd, set_file f (\<lambda>x. x\<lparr>f_type := FD_INODE, f_ip := ip, f_off := 0,
                              f_readable := (omode AND O_WRONLY = 0),
                              f_writable := (omode AND O_WRONLY \<noteq> 0 \<or> omode AND O_RDWR \<noteq> 0)\<rparr>) s)))))))))"

definition sys_mkdir ::
    "'a fs_state_scheme env \<Rightarrow> 'a fs_state_scheme \<Rightarrow> (int \<times> 'a fs_state_scheme) outcome" where
  "sys_mkdir k s =
     and_then (begin_op k s) (\<lambda>s.
     and_then (arg_path 0 s) (\<lambda>(path, s).
       case path of None \<Rightarrow> end_with k (-1) s | Some path \<Rightarrow>
     and_then (create k path T_DIR 0 0 s) (\<lambda>(r, s).
       case r of None \<Rightarrow> end_with k (-1) s
       | Some ip \<Rightarrow> and_then (iunlockput k ip s) (end_with k 0))))"

definition sys_mknod ::
    "'a fs_state_scheme env \<Rightarrow> 'a fs_state_scheme \<Rightarrow> (int \<times> 'a fs_state_scheme) outcome" where
  "sys_mknod k s =
     and_then (begin_op k s) (\<lambda>s.
     and_then (arg_path 0 s) (\<lambda>(path, s).
       case path of None \<Rightarrow> end_with k (-1) s | Some path \<Rightarrow>
     and_then (argint 1 s) (\<lambda>(major, s).
       case major of None \<Rightarrow> end_with k (-1) s | Some major \<Rightarrow>
     and_then (argint 2 s) (\<lambda>(minor, s).
       case minor of None \<Rightarrow> end_with k (-1) s | Some minor \<Rightarrow>
     and_then (create k path T_DEV (ucast major) (ucast minor) s) (\<lambda>(r, s).
       case r of None \<Rightarrow> end_with k (-1) s
       | Some ip \<Rightarrow> and_then (iunlockput k ip s) (end_with k 0))))))"

definition sys_chdir ::
    "'a fs_state_scheme env \<Rightarrow> 'a fs_state_scheme \<Rightarrow> (int \<times> 'a fs_state_scheme) outcome" where
  "sys_chdir k s =
     with_proc (\<lambda>i s.
       and_then (begin_op k s) (\<lambda>s.
       and_then (arg_path 0 s) (\<lambda>(path, s).
         case path of None \<Rightarrow> end_with k (-1) s | Some path \<Rightarrow>
       and_then (namei k path s) (\<lambda>(r, s).
         case r of None \<Rightarrow> end_with k (-1) s
         | Some ip \<Rightarrow>
             and_then (ilock k ip s) (\<lambda>s.
               if i_type (inodes s ! ip) \<noteq> T_DIR
               then and_then (iunlockput k ip s) (end_with k (-1))
               else and_then (iunlock ip s) (\<lambda>s.
                 case p_cwd (procs s ! i) of
                   None \<Rightarrow> Inl (Fault 0)
                 | Some cwd \<Rightarrow>
                     and_then (iput k cwd s) (\<lambda>s.
                     and_then (end_op k s) (\<lambda>s.
                       Inr (0, set_proc i (\<lambda>p. p\<lparr>p_cwd := Some ip\<rparr>) s))))))))) s"

section \<open>Programs and pipes\<close>

text \<open>The loop of \<open>sys_exec\<close> with \<open>n\<close> free entries of \<open>argv\<close>.\<close>

primrec exec_argv ::
    "nat \<Rightarrow> u32 \<Rightarrow> u8 list list \<Rightarrow> 'a proc_state_scheme \<Rightarrow> (u8 list list option \<times> 'a proc_state_scheme) outcome" where
  "exec_argv 0 uargv as s = Inr (None, s)"
| "exec_argv (Suc n) uargv as s =
     and_then (fetchint uargv s) (\<lambda>(r, s).
       case r of None \<Rightarrow> Inr (None, s)
       | Some uarg \<Rightarrow>
           if uarg = 0 then Inr (Some as, s)
           else and_then (fetchstr uarg s) (\<lambda>(r, s).
             case r of None \<Rightarrow> Inr (None, s)
             | Some (a, len) \<Rightarrow>
                 and_then (vload_bytes len a s) (\<lambda>xs. exec_argv n (uargv + 4) (as @ [xs]) s)))"

definition sys_exec ::
    "'a fs_state_scheme env \<Rightarrow> 'a fs_state_scheme \<Rightarrow> (int \<times> 'a fs_state_scheme) outcome" where
  "sys_exec k s =
     and_then (arg_path 0 s) (\<lambda>(path, s).
       case path of None \<Rightarrow> Inr (-1, s) | Some path \<Rightarrow>
     and_then (argint 1 s) (\<lambda>(uargv, s).
       case uargv of None \<Rightarrow> Inr (-1, s) | Some uargv \<Rightarrow>
     and_then (exec_argv MAXARG uargv [] s) (\<lambda>(argv, s).
       case argv of None \<Rightarrow> Inr (-1, s) | Some argv \<Rightarrow> exec k path argv s)))"

definition sys_pipe ::
    "'a file_state_scheme env \<Rightarrow> 'a file_state_scheme \<Rightarrow> (int \<times> 'a file_state_scheme) outcome" where
  "sys_pipe k s =
     and_then (argptr 0 8 s) (\<lambda>(r, s).
       case r of None \<Rightarrow> Inr (-1, s) | Some fd \<Rightarrow>
     and_then (pipealloc k s) (\<lambda>(r, s).
       case r of None \<Rightarrow> Inr (-1, s) | Some (rfile, wfile) \<Rightarrow>
     and_then (fdalloc rfile s) (\<lambda>(fd0, s).
     and_then (if fd0 < 0 then Inr (-1, s) else fdalloc wfile s) (\<lambda>(fd1, s).
       if fd0 < 0 \<or> fd1 < 0
       then and_then
              (if fd0 \<ge> 0
               then with_proc (\<lambda>i s. Inr (set_proc i (\<lambda>p. p\<lparr>p_ofile := (p_ofile p)[nat fd0 := None]\<rparr>) s)) s
               else Inr s) (\<lambda>s.
            and_then (fileclose k rfile s) (\<lambda>s.
            and_then (fileclose k wfile s) (\<lambda>s. Inr (-1, s))))
       else and_then (vstore32 fd (word_of_int fd0) s) (\<lambda>s.
            and_then (vstore32 (fd + 4) (word_of_int fd1) s) (\<lambda>s. Inr (0, s)))))))"

end
