(* ===== verification/Lifecycle.thy ===== *)
theory Lifecycle
  imports Console Sysfile
begin

text \<open>
  The life of a process: \<open>fork\<close>, \<open>exit\<close>, \<open>userinit\<close> and \<open>forkret\<close> of \<open>src/proc.c\<close>, and
  \<open>sys_fork\<close> and \<open>sys_exit\<close> of \<open>src/sysproc.c\<close>.

  \<open>exit\<close> does not return: its result is the state in which the process enters the
  scheduler for the last time. The program \<open>initcode\<close> that \<open>userinit\<close> loads is linked into
  the kernel image; its address and size are arguments.
\<close>

unbundle bit_operations_syntax

record kern_state = console_state +
  forkret_first :: bool

definition proc_chan :: "nat option \<Rightarrow> chan" where
  "proc_chan q = (case q of None \<Rightarrow> Ch_null | Some j \<Rightarrow> Ch_proc j)"

definition zero_trapframe :: trapframe where
  "zero_trapframe =
     \<lparr>tf_edi = 0, tf_esi = 0, tf_ebp = 0, tf_oesp = 0, tf_ebx = 0, tf_edx = 0, tf_ecx = 0, tf_eax = 0,
      tf_gs = 0, tf_fs = 0, tf_es = 0, tf_ds = 0, tf_trapno = 0, tf_err = 0, tf_eip = 0, tf_cs = 0,
      tf_eflags = 0, tf_esp = 0, tf_ss = 0\<rparr>"

definition userinit ::
    "'a fs_state_scheme env \<Rightarrow> u32 \<Rightarrow> u32 \<Rightarrow> 'a fs_state_scheme \<Rightarrow> ('a fs_state_scheme) outcome" where
  "userinit k init isz s =
     and_then (allocproc s) (\<lambda>(r, s).
       case r of None \<Rightarrow> Inl (Fault 0)
       | Some p \<Rightarrow>
           let s = set_proc p (\<lambda>x. x\<lparr>p_sigblocked := 0\<rparr>) s;
               s = set_proc p (\<lambda>x. x\<lparr>p_userdefed := 0\<rparr>) s;
               s = set_proc p (\<lambda>x. x\<lparr>p_allinfo := map (\<lambda>h. h\<lparr>h_disposition := DFL\<rparr>) (p_allinfo x)\<rparr>) s;
               s = s\<lparr>initproc := Some p\<rparr>
           in and_then (setupkvm s) (\<lambda>(pgdir, s).
                let s = set_proc p (\<lambda>x. x\<lparr>p_pgdir := pgdir\<rparr>) s in
                if pgdir = 0 then Inl (Panic ''userinit: out of memory?'')
                else and_then (inituvm pgdir init isz s) (\<lambda>s.
                  let s = set_proc p (\<lambda>x. x\<lparr>p_sz := PGSIZE\<rparr>) s;
                      tf = p_tf (procs s ! p);
                      s = set_tf tf (\<lambda>_. zero_trapframe) s;
                      s = set_tf tf (\<lambda>f. f\<lparr>tf_cs := 0x1B\<rparr>) s;
                      s = set_tf tf (\<lambda>f. f\<lparr>tf_ds := 0x23\<rparr>) s;
                      s = set_tf tf (\<lambda>f. f\<lparr>tf_es := tf_ds f\<rparr>) s;
                      s = set_tf tf (\<lambda>f. f\<lparr>tf_ss := tf_ds f\<rparr>) s;
                      s = set_tf tf (\<lambda>f. f\<lparr>tf_eflags := 0x200\<rparr>) s;
                      s = set_tf tf (\<lambda>f. f\<lparr>tf_esp := PGSIZE\<rparr>) s;
                      s = set_tf tf (\<lambda>f. f\<lparr>tf_eip := 0\<rparr>) s;
                      s = set_proc p (\<lambda>x. x\<lparr>p_name := safestrcpy_array (p_name x) (map of_char ''initcode'')\<rparr>) s
                  in and_then (namei k [slash] s) (\<lambda>(cwd, s).
                       let s = set_proc p (\<lambda>x. x\<lparr>p_cwd := cwd\<rparr>) s in
                       and_then (acquire L_ptable s) (\<lambda>s.
                         let s = set_proc p (\<lambda>x. x\<lparr>p_state := RUNNABLE\<rparr>) s in release L_ptable s)))))"

text \<open>The copying of one file descriptor in \<open>fork\<close>, from process \<open>i\<close> to process \<open>np\<close>.\<close>

definition fork_file ::
    "nat \<Rightarrow> nat \<Rightarrow> nat \<Rightarrow> 'a file_state_scheme \<Rightarrow> ('a file_state_scheme) outcome" where
  "fork_file i np fd s =
     (case p_ofile (procs s ! i) ! fd of
        None \<Rightarrow> Inr s
      | Some f \<Rightarrow>
          and_then (filedup f s) (\<lambda>(f, s).
            Inr (set_proc np (\<lambda>x. x\<lparr>p_ofile := (p_ofile x)[fd := Some f]\<rparr>) s)))"

definition fork :: "'a file_state_scheme \<Rightarrow> (int \<times> 'a file_state_scheme) outcome" where
  "fork s =
     with_proc (\<lambda>i s.
       and_then (allocproc s) (\<lambda>(r, s).
         case r of None \<Rightarrow> Inr (-1, s)
         | Some np \<Rightarrow>
             and_then (copyuvm (p_pgdir (procs s ! i)) (p_sz (procs s ! i)) s) (\<lambda>(pgdir, s).
               let s = set_proc np (\<lambda>x. x\<lparr>p_pgdir := pgdir\<rparr>) s in
               if pgdir = 0
               then and_then (kfree (p_kstack (procs s ! np)) s) (\<lambda>s.
                      let s = set_proc np (\<lambda>x. x\<lparr>p_kstack := 0\<rparr>) s;
                          s = set_proc np (\<lambda>x. x\<lparr>p_state := UNUSED\<rparr>) s
                      in Inr (-1, s))
               else
                 let c = procs s ! i;
                     s = set_proc np (\<lambda>x. x\<lparr>p_sz := p_sz c\<rparr>) s;
                     s = set_proc np (\<lambda>x. x\<lparr>p_parent := Some i\<rparr>) s;
                     s = set_tf (p_tf (procs s ! np)) (\<lambda>_. tfs s (p_tf c)) s;
                     s = set_proc np (\<lambda>x. x\<lparr>p_sigblocked := p_sigblocked c\<rparr>) s;
                     s = set_proc np (\<lambda>x. x\<lparr>p_userdefed := p_userdefed c\<rparr>) s;
                     s = set_proc np (\<lambda>x. x\<lparr>p_allinfo := p_allinfo c\<rparr>) s;
                     s = set_tf (p_tf (procs s ! np)) (\<lambda>f. f\<lparr>tf_eax := 0\<rparr>) s
                 in and_then (for_each (fork_file i np) [0..<length (p_ofile c)] s) (\<lambda>s.
                      case p_cwd (procs s ! i) of
                        None \<Rightarrow> Inl (Fault 0)
                      | Some d \<Rightarrow>
                          and_then (idup d s) (\<lambda>(d, s).
                            let s = set_proc np (\<lambda>x. x\<lparr>p_cwd := Some d\<rparr>) s;
                                s = set_proc np (\<lambda>x. x\<lparr>p_name := safestrcpy_array (p_name x)
                                      (takeWhile (\<lambda>c. c \<noteq> 0) (p_name (procs s ! i)))\<rparr>) s;
                                pid = p_pid (procs s ! np)
                            in and_then (acquire L_ptable s) (\<lambda>s.
                                 let s = set_proc np (\<lambda>x. x\<lparr>p_state := RUNNABLE\<rparr>) s
                                 in and_then (release L_ptable s) (\<lambda>s. Inr (pid, s)))))))) s"

definition close_fd ::
    "'a file_state_scheme env \<Rightarrow> nat \<Rightarrow> nat \<Rightarrow> 'a file_state_scheme \<Rightarrow> ('a file_state_scheme) outcome" where
  "close_fd k i fd s =
     (case p_ofile (procs s ! i) ! fd of
        None \<Rightarrow> Inr s
      | Some f \<Rightarrow>
          and_then (fileclose k f s) (\<lambda>s.
            Inr (set_proc i (\<lambda>x. x\<lparr>p_ofile := (p_ofile x)[fd := None]\<rparr>) s)))"

text \<open>One round of the loop that passes the children of process \<open>i\<close> to init.\<close>

definition reparent :: "nat \<Rightarrow> nat \<Rightarrow> 'a proc_state_scheme \<Rightarrow> 'a proc_state_scheme" where
  "reparent i j s =
     (if p_parent (procs s ! j) = Some i
      then let s = set_proc j (\<lambda>x. x\<lparr>p_parent := initproc s\<rparr>) s
           in if p_state (procs s ! j) = ZOMBIE then wakeup1 (proc_chan (initproc s)) s else s
      else s)"

definition exit :: "'a file_state_scheme env \<Rightarrow> 'a file_state_scheme \<Rightarrow> ('a file_state_scheme) outcome" where
  "exit k s =
     with_proc (\<lambda>i s.
       if initproc s = Some i then Inl (Panic ''init exiting'')
       else and_then (for_each (close_fd k i) [0..<length (p_ofile (procs s ! i))] s) (\<lambda>s.
            and_then (begin_op k s) (\<lambda>s.
            and_then (case p_cwd (procs s ! i) of None \<Rightarrow> Inl (Fault 0) | Some d \<Rightarrow> iput k d s) (\<lambda>s.
            and_then (end_op k s) (\<lambda>s.
              let s = set_proc i (\<lambda>x. x\<lparr>p_cwd := None\<rparr>) s in
              and_then (acquire L_ptable s) (\<lambda>s.
                let s = wakeup1 (proc_chan (p_parent (procs s ! i))) s;
                    s = fold (reparent i) [0..<length (procs s)] s;
                    s = set_proc i (\<lambda>x. x\<lparr>p_state := ZOMBIE\<rparr>) s
                in sched (\<lambda>s. s) s)))))) s"

definition forkret :: "'a kern_state_scheme env \<Rightarrow> 'a kern_state_scheme \<Rightarrow> ('a kern_state_scheme) outcome" where
  "forkret k s =
     and_then (release L_ptable s) (\<lambda>s.
       if forkret_first s
       then let s = s\<lparr>forkret_first := False\<rparr> in
            and_then (iinit k ROOTDEV s) (initlog k ROOTDEV)
       else Inr s)"

definition sys_fork :: "'a file_state_scheme \<Rightarrow> (flow \<times> 'a file_state_scheme) outcome" where
  "sys_fork s = returns_int (fork s)"

definition sys_exit ::
    "'a file_state_scheme env \<Rightarrow> 'a file_state_scheme \<Rightarrow> (flow \<times> 'a file_state_scheme) outcome" where
  "sys_exit k s = and_then (exit k s) (\<lambda>s. Inr (Gone, s))"

end
