(* ===== verification/Trap.thy ===== *)
theory Trap
  imports Lifecycle
begin

text \<open>
  Traps: \<open>src/trap.c\<close> and the dispatcher \<open>syscall\<close> of \<open>src/syscall.c\<close>, with the gate
  descriptors of \<open>src/mmu.h\<close>.

  The interrupt controller is not modelled, so \<open>lapiceoi\<close> has no effect; with the disk in
  memory the disk interrupt does nothing. The fault address register is the argument
  \<open>cr2\<close>. \<open>trap_exit\<close> says how a trap ends: by returning through \<open>trapret\<close>, by leaving for a
  signal handler or for the code a handler interrupted, or not at all.
\<close>

unbundle bit_operations_syntax

record gatedesc =
  g_off_15_0 :: u32
  g_cs :: u32
  g_args :: u32
  g_rsv1 :: u32
  g_type :: u32
  g_s :: u32
  g_dpl :: u32
  g_p :: u32
  g_off_31_16 :: u32

record trap_state = kern_state +
  idt :: "nat \<Rightarrow> gatedesc"
  idtr :: bool

abbreviation (input) T_SYSCALL :: nat where "T_SYSCALL \<equiv> 64"

definition SETGATE :: "bool \<Rightarrow> u32 \<Rightarrow> u32 \<Rightarrow> u32 \<Rightarrow> gatedesc" where
  "SETGATE istrap sel off d =
     \<lparr>g_off_15_0 = off AND 0xffff, g_cs = sel, g_args = 0, g_rsv1 = 0, g_type = (if istrap then 0xF else 0xE),
      g_s = 0, g_dpl = d, g_p = 1, g_off_31_16 = drop_bit 16 off\<rparr>"

definition tvinit :: "(nat \<Rightarrow> u32) \<Rightarrow> 'a trap_state_scheme \<Rightarrow> 'a trap_state_scheme" where
  "tvinit vectors s =
     (let s = fold (\<lambda>i s. s\<lparr>idt := (idt s)(i := SETGATE False 8 (vectors i) 0)\<rparr>) [0..<256] s;
          s = s\<lparr>idt := (idt s)(T_SYSCALL := SETGATE True 8 (vectors T_SYSCALL) 3)\<rparr>
      in initlock L_tickslock ''time'' s)"

definition idtinit :: "'a trap_state_scheme \<Rightarrow> 'a trap_state_scheme" where
  "idtinit s = s\<lparr>idtr := True\<rparr>"

section \<open>System calls\<close>

text \<open>The table \<open>syscalls\<close>: the handler for a system call number.\<close>

definition syscalls ::
    "'a file_state_scheme env \<Rightarrow> int \<Rightarrow>
       ('a file_state_scheme \<Rightarrow> (flow \<times> 'a file_state_scheme) outcome) option" where
  "syscalls k num =
     map_of
       [(1, sys_fork), (2, sys_exit k), (3, sys_wait (e_fuel k) (e_swtch k)), (4, \<lambda>s. returns_int (sys_pipe k s)),
        (5, \<lambda>s. returns_int (sys_read k s)), (6, sys_kill), (7, \<lambda>s. returns_int (sys_exec k s)),
        (8, \<lambda>s. returns_int (sys_fstat k s)), (9, \<lambda>s. returns_int (sys_chdir k s)),
        (10, \<lambda>s. returns_int (sys_dup s)), (11, sys_getpid), (12, sys_sbrk),
        (13, sys_sleep (e_fuel k) (e_swtch k)), (14, sys_uptime), (15, \<lambda>s. returns_int (sys_open k s)),
        (16, \<lambda>s. returns_int (sys_write k s)), (17, \<lambda>s. returns_int (sys_mknod k s)),
        (18, \<lambda>s. returns_int (sys_unlink k s)), (19, \<lambda>s. returns_int (sys_link k s)),
        (20, \<lambda>s. returns_int (sys_mkdir k s)), (21, \<lambda>s. returns_int (sys_close k s)), (22, sys_Kill),
        (23, sys_signal), (24, sys_sigsetmask), (25, sys_raise), (26, sys_siggetmask), (27, sys_sigreturn),
        (28, sys_sigblock), (29, sys_sigunblock)] num"

definition syscall ::
    "'a file_state_scheme env \<Rightarrow> 'a file_state_scheme \<Rightarrow> (flow \<times> 'a file_state_scheme) outcome" where
  "syscall k s =
     with_proc (\<lambda>i s.
       let num = sint (tf_eax (tfs s (p_tf (procs s ! i)))) in
       case syscalls k num of
         Some f \<Rightarrow>
           and_then (f s) (\<lambda>(r, s).
             case r of
               Returns v \<Rightarrow> Inr (r, set_tf (p_tf (procs s ! i)) (\<lambda>x. x\<lparr>tf_eax := v\<rparr>) s)
             | _ \<Rightarrow> Inr (r, s))
       | None \<Rightarrow>
           let s = cprintf (''%d %s: unknown sys call %d'' @ [CHR 0x0A])
                     [A_int (p_pid (procs s ! i)), A_str (p_name (procs s ! i)), A_int num] s
           in Inr (Returns minus_one, set_tf (p_tf (procs s ! i)) (\<lambda>x. x\<lparr>tf_eax := minus_one\<rparr>) s)) s"

section \<open>Traps\<close>

datatype trap_exit = Trapret | To_handler iret_frame | To_user uregs | Exited

text \<open>\<open>if(myproc()->killed) exit();\<close>: whether the process is gone.\<close>

definition exit_if_killed ::
    "'a file_state_scheme env \<Rightarrow> 'a file_state_scheme \<Rightarrow> (bool \<times> 'a file_state_scheme) outcome" where
  "exit_if_killed k s =
     with_proc (\<lambda>i s.
       if p_killed (procs s ! i) then and_then (exit k s) (\<lambda>s. Inr (True, s)) else Inr (False, s)) s"

text \<open>The part of \<open>trap\<close> for a system call.\<close>

definition trap_syscall ::
    "'a file_state_scheme env \<Rightarrow> u32 \<Rightarrow> 'a file_state_scheme \<Rightarrow> (trap_exit \<times> 'a file_state_scheme) outcome" where
  "trap_syscall k tf s =
     and_then (exit_if_killed k s) (\<lambda>(gone, s).
       if gone then Inr (Exited, s)
       else with_proc (\<lambda>i s.
         let s = set_proc i (\<lambda>p. p\<lparr>p_tf := tf\<rparr>) s in
         and_then (syscall k s) (\<lambda>(r, s).
           case r of
             Gone \<Rightarrow> Inr (Exited, s)
           | Handler f \<Rightarrow> Inr (To_handler f, s)
           | Resumes u \<Rightarrow> Inr (To_user u, s)
           | Returns _ \<Rightarrow>
               and_then (check_signals (e_swtch k) s) (\<lambda>(e, s).
                 case e of Some f \<Rightarrow> Inr (To_handler f, s)
                 | None \<Rightarrow>
                     and_then (exit_if_killed k s) (\<lambda>(gone, s).
                       Inr (if gone then Exited else Trapret, s))))) s)"

text \<open>The switch over the interrupts and exceptions.\<close>

definition timer_intr :: "'a proc_state_scheme \<Rightarrow> ('a proc_state_scheme) outcome" where
  "timer_intr s =
     and_then (cpuid s) (\<lambda>c.
       if c = 0
       then and_then (acquire L_tickslock s) (\<lambda>s.
              let s = s\<lparr>ticks := ticks s + 1\<rparr> in
              and_then (wakeup Ch_ticks s) (release L_tickslock))
       else Inr s)"

definition unexpected_trap ::
    "u32 \<Rightarrow> trapframe \<Rightarrow> 'a proc_state_scheme \<Rightarrow> ('a proc_state_scheme) outcome" where
  "unexpected_trap cr2 tf s =
     and_then (myproc s) (\<lambda>(q, s).
       if q = None \<or> tf_cs tf AND 3 = 0 then Inl (Panic ''trap'')
       else with_proc (\<lambda>i s.
         and_then (cpuid s) (\<lambda>c.
           let s = cprintf (''pid %d %s: trap %d err %d on cpu %d eip 0x%x addr 0x%x--kill proc'' @ [CHR 0x0A])
                     [A_int (p_pid (procs s ! i)), A_str (p_name (procs s ! i)), A_hex (tf_trapno tf),
                      A_hex (tf_err tf), A_int (int c), A_hex (tf_eip tf), A_hex cr2] s
           in Inr (set_proc i (\<lambda>p. p\<lparr>p_killed := True\<rparr>) s))) s)"

definition trap_switch ::
    "u32 \<Rightarrow> trapframe \<Rightarrow> 'a console_state_scheme \<Rightarrow> ('a console_state_scheme) outcome" where
  "trap_switch cr2 tf s =
     (let n = tf_trapno tf in
      if n = 32 then timer_intr s
      else if n = 32 + 14 then Inr s
      else if n = 32 + 15 then Inr s
      else if n = 32 + 1 then kbdintr s
      else if n = 32 + 4 then uartintr s
      else if n = 32 + 7 \<or> n = 32 + 31
      then and_then (cpuid s) (\<lambda>c.
             Inr (cprintf (''cpu%d: spurious interrupt at %x:%x'' @ [CHR 0x0A])
                    [A_int (int c), A_hex (ucast (tf_cs tf)), A_hex (tf_eip tf)] s))
      else unexpected_trap cr2 tf s)"

text \<open>\<open>if(myproc() && myproc()->killed && (tf->cs&3) == DPL_USER) exit();\<close>\<close>

definition exit_if_killed_user ::
    "'a file_state_scheme env \<Rightarrow> trapframe \<Rightarrow> 'a file_state_scheme \<Rightarrow> (bool \<times> 'a file_state_scheme) outcome" where
  "exit_if_killed_user k tf s =
     and_then (myproc s) (\<lambda>(q, s).
       if q = None then Inr (False, s)
       else with_proc (\<lambda>i s.
         if p_killed (procs s ! i) \<and> tf_cs tf AND 3 = 3
         then and_then (exit k s) (\<lambda>s. Inr (True, s)) else Inr (False, s)) s)"

definition yield_on_tick ::
    "('a proc_state_scheme \<Rightarrow> 'a proc_state_scheme) \<Rightarrow> trapframe \<Rightarrow> 'a proc_state_scheme \<Rightarrow>
       ('a proc_state_scheme) outcome" where
  "yield_on_tick swtch tf s =
     and_then (myproc s) (\<lambda>(q, s).
       if q = None then Inr s
       else with_proc (\<lambda>i s.
         if p_state (procs s ! i) = RUNNING \<and> tf_trapno tf = 32 then yield swtch s else Inr s) s)"

definition trap ::
    "'a console_state_scheme env \<Rightarrow> u32 \<Rightarrow> u32 \<Rightarrow> 'a console_state_scheme \<Rightarrow>
       (trap_exit \<times> 'a console_state_scheme) outcome" where
  "trap k cr2 tf s =
     (if tf_trapno (tfs s tf) = of_nat T_SYSCALL then trap_syscall k tf s
      else
        let f = tfs s tf in
        and_then (trap_switch cr2 f s) (\<lambda>s.
        and_then (exit_if_killed_user k f s) (\<lambda>(gone, s).
          if gone then Inr (Exited, s)
          else and_then (yield_on_tick (e_swtch k) f s) (\<lambda>s.
               and_then (exit_if_killed_user k f s) (\<lambda>(gone, s).
                 if gone then Inr (Exited, s)
                 else and_then (check_signals (e_swtch k) s) (\<lambda>(e, s).
                   Inr (case e of Some h \<Rightarrow> To_handler h | None \<Rightarrow> Trapret, s)))))))"

end
