(* ===== verification/Bcache.thy ===== *)
theory Bcache
  imports Bio
begin

text \<open>
  Correctness of the buffer cache in the uncontended case: the doubly linked list stays a
  ring of all buffers, at most one buffer holds a block, and \<open>bread\<close> returns the current
  contents of a block, whether they are in the cache or on the disk.
\<close>

unbundle bit_operations_syntax

section \<open>The linked list\<close>

text \<open>
  \<open>seg nx pv p xs q\<close>: following the successor function from \<open>p\<close> one meets the nodes \<open>xs\<close>
  and then \<open>q\<close>, and the predecessor function leads back the same way.
\<close>

fun seg :: "(nat \<Rightarrow> nat) \<Rightarrow> (nat \<Rightarrow> nat) \<Rightarrow> nat \<Rightarrow> nat list \<Rightarrow> nat \<Rightarrow> bool" where
  "seg nx pv p [] q \<longleftrightarrow> nx p = q \<and> pv q = p"
| "seg nx pv p (x # xs) q \<longleftrightarrow> nx p = x \<and> pv x = p \<and> seg nx pv x xs q"

lemma seg_append: "seg nx pv p (xs @ y # ys) q \<longleftrightarrow> seg nx pv p xs y \<and> seg nx pv y ys q"
  by (induction xs arbitrary: p) auto

lemma seg_cong:
  assumes "\<And>a. a \<in> set (p # xs) \<Longrightarrow> nx' a = nx a" and "\<And>a. a \<in> set (xs @ [q]) \<Longrightarrow> pv' a = pv a"
  shows "seg nx' pv' p xs q = seg nx pv p xs q"
  using assms by (induction xs arbitrary: p) auto

lemma seg_ends: "seg nx pv p xs q \<Longrightarrow> nx p = hd (xs @ [q]) \<and> pv q = last (p # xs)"
  by (induction xs arbitrary: p) auto

lemma seg_unlink:
  assumes "seg nx pv p (xs @ y # ys) q" and "distinct (xs @ y # ys)" and "p \<notin> set (xs @ y # ys)"
    and "q \<notin> set (xs @ y # ys)"
  shows "seg (nx(pv y := nx y)) (pv(nx y := pv y)) p (xs @ ys) q"
  using assms
proof (induction xs arbitrary: p)
  case Nil
  then show ?case
  proof (cases ys)
    case (Cons z zs)
    have "seg (nx(p := z)) (pv(z := p)) z zs q = seg nx pv z zs q"
      by (rule seg_cong) (use Nil Cons in auto)
    then show ?thesis using Nil Cons by (simp add: fun_upd_def)
  qed simp
next
  case (Cons x xs)
  then have s: "seg nx pv x (xs @ y # ys) q" and px: "nx p = x" "pv x = p" by simp_all
  then have "seg nx pv x xs y" "seg nx pv y ys q" by (simp_all add: seg_append)
  then have "pv y = last (x # xs)" "nx y = hd (ys @ [q])" using seg_ends by blast+
  then have "pv y \<in> set (x # xs)" "nx y \<in> set (ys @ [q])"
    by (metis last_in_set list.distinct(1), metis hd_in_set snoc_eq_iff_butlast)
  moreover have "seg (nx(pv y := nx y)) (pv(nx y := pv y)) x (xs @ ys) q"
    using Cons by (intro Cons.IH s) auto
  moreover have "p \<noteq> pv y" "x \<noteq> nx y" using calculation(1,2) Cons.prems by auto
  ultimately show ?case using px by (simp only: append_Cons seg.simps fun_upd_other simp_thms)
qed

lemma seg_push:
  assumes "seg nx pv p xs q" and "b \<notin> set (p # xs @ [q])" and "distinct (p # xs)" and "q \<notin> set xs"
  shows "seg (nx(b := nx p, p := b)) (pv(b := p, nx p := b)) p (b # xs) q"
proof (cases xs)
  case Nil
  then show ?thesis using assms by auto
next
  case (Cons x ys)
  then have "nx p = x" and s: "seg nx pv x ys q" using assms(1) by simp_all
  have "seg (nx(b := x, p := b)) (pv(b := p, x := b)) x ys q = seg nx pv x ys q"
    by (rule seg_cong) (use assms Cons in auto)
  then show ?thesis using assms Cons s by (auto simp: fun_upd_def)
qed

text \<open>The list of the buffer cache: all buffers, most recently used first.\<close>

definition ring :: "buf list \<Rightarrow> nat list \<Rightarrow> bool" where
  "ring bs xs \<longleftrightarrow> length bs = 31 \<and> distinct xs \<and> set xs = {..<NBUF} \<and>
     seg (\<lambda>i. b_next (bs ! i)) (\<lambda>i. b_prev (bs ! i)) head xs head"

lemma ringD:
  assumes "ring bs xs"
  shows "length bs = 31" "distinct xs" "set xs = {..<NBUF}" "length xs = NBUF"
    "seg (\<lambda>i. b_next (bs ! i)) (\<lambda>i. b_prev (bs ! i)) head xs head" "head \<notin> set xs"
  using assms distinct_card [of xs] by (auto simp: ring_def)

lemma walk_forward:
  assumes "seg (\<lambda>i. b_next (bs ! i)) pv p xs head" and "head \<notin> set xs" and "length xs < n"
  shows "walk n b_next P bs (b_next (bs ! p)) = Inr (find (\<lambda>b. P (bs ! b)) xs)"
  using assms
proof (induction xs arbitrary: p n)
  case Nil
  then show ?case by (cases n) simp_all
next
  case (Cons x xs)
  then obtain m where "n = Suc m" by (cases n) simp_all
  with Cons show ?case by simp
qed

lemma walk_backward:
  assumes "seg nx (\<lambda>i. b_prev (bs ! i)) head xs q" and "head \<notin> set xs" and "length xs < n"
  shows "walk n b_prev P bs (b_prev (bs ! q)) = Inr (find (\<lambda>b. P (bs ! b)) (rev xs))"
  using assms
proof (induction xs arbitrary: q n rule: rev_induct)
  case Nil
  then show ?case by (cases n) simp_all
next
  case (snoc x xs)
  then obtain m where "n = Suc m" by (cases n) simp_all
  moreover have "b_prev (bs ! q) = x" "seg nx (\<lambda>i. b_prev (bs ! i)) head xs x"
    using snoc.prems(1) seg_append [of nx _ head xs x "[]" q] by auto
  ultimately show ?case using snoc by simp
qed

lemma walk_ring:
  assumes "ring bs xs"
  shows "walk 31 b_next P bs (b_next (bs ! head)) = Inr (find (\<lambda>b. P (bs ! b)) xs)"
    and "walk 31 b_prev P bs (b_prev (bs ! head)) = Inr (find (\<lambda>b. P (bs ! b)) (rev xs))"
  using walk_forward [of bs _ head xs 31 P] walk_backward [of _ bs xs head 31 P] ringD [OF assms] by auto

section \<open>Moving a buffer to the front\<close>

lemma set_buf_bufs [simp]: "bufs (set_buf b f s) = (bufs s)[b := f (bufs s ! b)]"
  by (simp add: set_buf_def)

text \<open>Two buffers that differ at most in their links.\<close>

definition relinked :: "buf \<Rightarrow> buf \<Rightarrow> bool" where
  "relinked x y \<longleftrightarrow> b_flags y = b_flags x \<and> b_dev y = b_dev x \<and> b_blockno y = b_blockno x \<and>
     b_refcnt y = b_refcnt x \<and> b_data y = b_data x"

lemma ring_cong:
  assumes "length bs' = length bs" and "\<And>a. a < 31 \<Longrightarrow> b_next (bs' ! a) = b_next (bs ! a)"
    and "\<And>a. a < 31 \<Longrightarrow> b_prev (bs' ! a) = b_prev (bs ! a)"
  shows "ring bs' xs = ring bs xs"
proof (cases "set xs = {..<NBUF}")
  case True
  then have "\<And>a. a \<in> set xs \<Longrightarrow> a < 31" by auto
  then have "seg (\<lambda>i. b_next (bs' ! i)) (\<lambda>i. b_prev (bs' ! i)) head xs head =
        seg (\<lambda>i. b_next (bs ! i)) (\<lambda>i. b_prev (bs ! i)) head xs head"
    by (intro seg_cong) (auto simp: assms)
  then show ?thesis using assms(1) by (simp add: ring_def)
qed (simp add: ring_def)

text \<open>The two link functions of a state, and what assignments to the link fields do to them.\<close>

definition nxt :: "'a bio_state_scheme \<Rightarrow> nat \<Rightarrow> nat" where
  "nxt s i = b_next (bufs s ! i)"

definition prv :: "'a bio_state_scheme \<Rightarrow> nat \<Rightarrow> nat" where
  "prv s i = b_prev (bufs s ! i)"

lemma ring_seg: "ring (bufs s) xs \<longleftrightarrow> length (bufs s) = 31 \<and> distinct xs \<and> set xs = {..<NBUF} \<and>
     seg (nxt s) (prv s) head xs head"
  by (simp add: ring_def nxt_def [abs_def] prv_def [abs_def])

lemma set_link:
  assumes "m < length (bufs s)"
  shows "nxt (set_buf m (\<lambda>x. x\<lparr>b_next := v\<rparr>) s) = (nxt s)(m := v)"
    and "prv (set_buf m (\<lambda>x. x\<lparr>b_prev := v\<rparr>) s) = (prv s)(m := v)"
    and "prv (set_buf m (\<lambda>x. x\<lparr>b_next := v\<rparr>) s) = prv s"
    and "nxt (set_buf m (\<lambda>x. x\<lparr>b_prev := v\<rparr>) s) = nxt s"
  using assms by (auto simp: fun_eq_iff nth_list_update nxt_def prv_def)

lemma seg_neq:
  assumes "seg nx pv p (xs @ y # ys) q" and "distinct (xs @ y # ys)" and "p \<notin> set (xs @ y # ys)"
    and "q \<notin> set (xs @ y # ys)"
  shows "nx y \<noteq> y" "pv y \<noteq> y" "nx y \<in> set (ys @ [q])" "pv y \<in> set (p # xs)"
proof -
  from assms(1) have "seg nx pv p xs y" "seg nx pv y ys q" by (simp_all add: seg_append)
  then have e: "nx y = hd (ys @ [q])" "pv y = last (p # xs)" using seg_ends by blast+
  show n: "nx y \<in> set (ys @ [q])" unfolding e(1) by (rule hd_in_set) simp
  show p: "pv y \<in> set (p # xs)" unfolding e(2) by (rule last_in_set) simp
  show "nx y \<noteq> y" "pv y \<noteq> y" using n p assms(2-4) by auto
qed

lemma unlink_ring:
  assumes r: "ring (bufs s) (xs @ b # ys)"
  shows "length (bufs (unlink_buf b s)) = 31"
    and "seg (nxt (unlink_buf b s)) (prv (unlink_buf b s)) head (xs @ ys) head"
proof -
  note D = ringD [OF r]
  have g: "seg (nxt s) (prv s) head (xs @ b # ys) head" using r by (simp add: ring_seg)
  have h: "head \<notin> set (xs @ b # ys)" using D(6) .
  note N = seg_neq [OF g D(2) h h]
  have "nxt s b = head \<or> nxt s b \<in> set (xs @ b # ys)" "prv s b = head \<or> prv s b \<in> set (xs @ b # ys)"
    using N(3,4) by auto
  then have l: "nxt s b < 31" "prv s b < 31" unfolding D(3) by auto
  let ?t = "set_buf (nxt s b) (\<lambda>x. x\<lparr>b_prev := prv s b\<rparr>) s"
  have u: "unlink_buf b s = set_buf (prv ?t b) (\<lambda>x. x\<lparr>b_next := nxt ?t b\<rparr>) ?t"
    by (simp only: unlink_buf_def Let_def nxt_def prv_def)
  have t: "prv ?t = (prv s)(nxt s b := prv s b)" "nxt ?t = nxt s"
    using l D(1) by (simp_all add: set_link)
  show "length (bufs (unlink_buf b s)) = 31" using D(1) by (simp add: unlink_buf_def Let_def)
  have pb: "prv ?t b = prv s b" using N(1) by (simp add: t)
  have "nxt (unlink_buf b s) = (nxt s)(prv s b := nxt s b)" "prv (unlink_buf b s) = (prv s)(nxt s b := prv s b)"
    unfolding u pb using l D(1) by (simp_all add: set_link t)
  then show "seg (nxt (unlink_buf b s)) (prv (unlink_buf b s)) head (xs @ ys) head"
    using seg_unlink [OF g D(2) h h] by simp
qed

lemma link_front_ring:
  assumes s: "seg (nxt s) (prv s) head xs head"
    and l: "length (bufs s) = 31" and d: "distinct (b # xs)" and x: "set (b # xs) \<subseteq> {..<NBUF}"
  shows "length (bufs (link_front b s)) = 31"
    and "seg (nxt (link_front b s)) (prv (link_front b s)) head (b # xs) head"
proof -
  have n: "nxt s head \<in> set (xs @ [head])" using seg_ends [OF s] by (metis hd_in_set snoc_eq_iff_butlast)
  then have nb: "nxt s head < 31" using x by auto
  have b: "b < 30" using x by simp
  show "length (bufs (link_front b s)) = 31" using l by (simp add: link_front_def Let_def)
  let ?t = "set_buf b (\<lambda>x. x\<lparr>b_prev := head\<rparr>) (set_buf b (\<lambda>x. x\<lparr>b_next := nxt s head\<rparr>) s)"
  have t: "nxt ?t = (nxt s)(b := nxt s head)" "prv ?t = (prv s)(b := head)" "length (bufs ?t) = 31"
    using l b by (simp_all add: set_link)
  have f: "link_front b s = set_buf head (\<lambda>x. x\<lparr>b_next := b\<rparr>) (set_buf (nxt ?t head) (\<lambda>x. x\<lparr>b_prev := b\<rparr>) ?t)"
    by (simp only: link_front_def Let_def nxt_def)
  have th: "nxt ?t head = nxt s head" using b by (simp add: t)
  have "nxt (link_front b s) = (nxt s)(b := nxt s head, head := b)"
       "prv (link_front b s) = (prv s)(b := head, nxt s head := b)"
    unfolding f th using nb t(3) by (simp_all add: set_link t del: set_buf_bufs) (simp_all add: set_link t l)
  moreover have "seg ((nxt s)(b := nxt s head, head := b)) ((prv s)(b := head, nxt s head := b)) head (b # xs) head"
    by (rule seg_push [OF s]) (use d x in auto)
  ultimately show "seg (nxt (link_front b s)) (prv (link_front b s)) head (b # xs) head" by simp
qed

lemma front_ring:
  assumes "ring (bufs s) (xs @ b # ys)"
  shows "ring (bufs (link_front b (unlink_buf b s))) (b # xs @ ys)"
proof -
  note U = unlink_ring [OF assms] and D = ringD [OF assms]
  have d: "distinct (b # xs @ ys)" using D(2) by simp
  have x: "set (b # xs @ ys) = {..<NBUF}" unfolding D(3) [symmetric] by simp
  from x have "set (b # xs @ ys) \<subseteq> {..<NBUF}" by (simp only: subset_refl)
  from link_front_ring [OF U(2,1) d this] x d show ?thesis unfolding ring_seg by (intro conjI)
qed

lemma relinked_refl [simp]: "relinked x x" "relinked x (x\<lparr>b_prev := p\<rparr>)" "relinked x (x\<lparr>b_next := p\<rparr>)"
  by (simp_all add: relinked_def)

lemma relinked_trans: "relinked x y \<Longrightarrow> relinked y z \<Longrightarrow> relinked x z"
  by (simp add: relinked_def)

lemma relinked_set_buf:
  assumes "\<And>x. relinked x (f x)"
  shows "relinked (bufs s ! a) (bufs (set_buf m f s) ! a)"
  using assms by (cases "m < length (bufs s)") (auto simp: nth_list_update list_update_beyond)

lemma relinked_then:
  "relinked x (bufs s ! a) \<Longrightarrow> (\<And>y. relinked y (f y)) \<Longrightarrow> relinked x (bufs (set_buf m f s) ! a)"
  using relinked_trans relinked_set_buf by blast

lemma relinked_front: "relinked (bufs s ! a) (bufs (link_front b (unlink_buf b s)) ! a)"
  unfolding link_front_def unlink_buf_def Let_def by (intro relinked_then relinked_refl)

lemma set_buf_enter [simp]: "set_buf b f (enter l s) = enter l (set_buf b f s)"
  by (simp add: set_buf_def)

lemma front_enter [simp]:
  "link_front b (enter l s) = enter l (link_front b s)"
  "unlink_buf b (enter l s) = enter l (unlink_buf b s)"
  by (simp_all only: link_front_def unlink_buf_def Let_def set_buf_enter bio_fields)

lemma set_buf_only: "\<exists>bs. t = s\<lparr>bufs := bs\<rparr> \<Longrightarrow> \<exists>bs. set_buf b f t = s\<lparr>bufs := bs\<rparr>"
  by (auto simp: set_buf_def)

lemma front_bufs: "\<exists>bs. link_front b (unlink_buf b s) = s\<lparr>bufs := bs\<rparr>"
  unfolding link_front_def unlink_buf_def Let_def
  by (intro set_buf_only exI [of _ "bufs s"]) simp

section \<open>Flags\<close>

abbreviation valid :: "buf \<Rightarrow> bool" where "valid x \<equiv> bit (b_flags x) 1"
abbreviation dirty :: "buf \<Rightarrow> bool" where "dirty x \<equiv> bit (b_flags x) 2"

lemma and_valid: "(f :: u32) AND 2 = 0 \<longleftrightarrow> \<not> bit f 1"
  using and_exp_eq_0_iff_not_bit [of f 1] by simp

lemma and_dirty: "(f :: u32) AND 4 = 0 \<longleftrightarrow> \<not> bit f 2"
  using and_exp_eq_0_iff_not_bit [of f 2] by simp

lemma bits_2_4: "bit (2 :: u32) n \<longleftrightarrow> n = 1" "bit (4 :: u32) n \<longleftrightarrow> n = 2"
  using bit_exp_iff [of 1 n, where 'a="32 word"] bit_exp_iff [of 2 n, where 'a="32 word"] by auto

lemma and_valid_dirty: "(f :: u32) AND (2 OR 4) = 2 \<longleftrightarrow> bit f 1 \<and> \<not> bit f 2"
  unfolding bit_eq_iff [where 'a="32 word"] bit_and_iff bit_or_iff bits_2_4
  by (auto dest: spec [of _ "Suc 0"] spec [of _ 2])

lemma and_six: "(f :: u32) AND 6 = 2 \<longleftrightarrow> bit f 1 \<and> \<not> bit f 2"
  using and_valid_dirty [of f] by simp

lemma flag_bits [simp]:
  "bit ((f :: u32) OR 2) n \<longleftrightarrow> n = 1 \<or> bit f n" "bit (f OR 4) n \<longleftrightarrow> n = 2 \<or> bit f n"
  "bit (f AND NOT 4) 1 = bit f 1" "\<not> bit (f AND NOT 4) 2"
  unfolding bit_or_iff bit_and_iff bit_not_iff bits_2_4 by auto

lemmas flag_tests = and_valid and_dirty and_six

section \<open>The contents of the cache\<close>

text \<open>
  What a user of the cache may rely on. \<open>brep i s c P h\<close>: process \<open>i\<close> is alone in the file
  system, block \<open>n\<close> currently reads as \<open>c n\<close>, the blocks of \<open>P\<close> are pinned in the cache
  because their contents are not on the disk yet, and \<open>h\<close> maps the buffers which the
  process has locked to their block numbers. All other blocks agree with the disk.
\<close>

definition cell ::
    "(u32 \<Rightarrow> u8 list) \<Rightarrow> u32 set \<Rightarrow> int \<Rightarrow> u32 option \<Rightarrow> sleeplock \<Rightarrow> buf \<Rightarrow> bool" where
  "cell c P pid hb lk x \<longleftrightarrow>
     (case hb of
        None \<Rightarrow> \<not> sl_locked lk \<and> b_refcnt x = 0
      | Some n \<Rightarrow> sl_locked lk \<and> sl_pid lk = pid \<and> b_refcnt x = 1 \<and> b_dev x = 1 \<and> b_blockno x = n) \<and>
     (b_dev x = 1 \<longrightarrow> valid x \<and> b_data x = c (b_blockno x)) \<and>
     (dirty x \<longrightarrow> b_dev x = 1 \<and> b_blockno x \<in> P)"

definition uniq :: "buf list \<Rightarrow> bool" where
  "uniq bs \<longleftrightarrow> (\<forall>a<NBUF. \<forall>b<NBUF. b_dev (bs ! a) = 1 \<and> b_dev (bs ! b) = 1 \<and>
     b_blockno (bs ! a) = b_blockno (bs ! b) \<longrightarrow> a = b)"

definition brep ::
    "nat \<Rightarrow> 'a bio_state_scheme \<Rightarrow> (u32 \<Rightarrow> u8 list) \<Rightarrow> u32 set \<Rightarrow> (nat \<rightharpoonup> u32) \<Rightarrow> bool" where
  "brep i s c P h \<longleftrightarrow>
     calm i s \<and> (\<exists>xs. ring (bufs s) xs) \<and> uniq (bufs s) \<and>
     (\<forall>b<NBUF. cell c P (p_pid (procs s ! i)) (h b) (sleeplocks s (SL_buf b)) (bufs s ! b)) \<and>
     dom h \<subseteq> {..<NBUF} \<and>
     (\<forall>n\<in>P. \<exists>b<NBUF. b_dev (bufs s ! b) = 1 \<and> b_blockno (bufs s ! b) = n \<and> dirty (bufs s ! b)) \<and>
     (\<forall>n. n \<notin> P \<union> ran h \<longrightarrow> c n = memdisk s n)"

lemma brepD:
  assumes "brep i s c P h"
  shows "calm i s" "\<exists>xs. ring (bufs s) xs" "uniq (bufs s)" "length (bufs s) = 31" "dom h \<subseteq> {..<NBUF}"
    "b < NBUF \<Longrightarrow> cell c P (p_pid (procs s ! i)) (h b) (sleeplocks s (SL_buf b)) (bufs s ! b)"
    "n \<in> P \<Longrightarrow> \<exists>b<NBUF. b_dev (bufs s ! b) = 1 \<and> b_blockno (bufs s ! b) = n \<and> dirty (bufs s ! b)"
    "n \<notin> P \<Longrightarrow> n \<notin> ran h \<Longrightarrow> c n = memdisk s n"
  using assms ringD(1) by (auto simp: brep_def)

lemma brep_held:
  assumes "brep i s c P h" and "h b = Some n"
  shows "b < NBUF" "b_dev (bufs s ! b) = 1" "b_blockno (bufs s ! b) = n" "b_data (bufs s ! b) = c n"
    "valid (bufs s ! b)" "b_refcnt (bufs s ! b) = 1" "sl_locked (sleeplocks s (SL_buf b))"
    "sl_pid (sleeplocks s (SL_buf b)) = p_pid (procs s ! i)"
proof -
  show "b < NBUF" using brepD(5) [OF assms(1)] assms(2) by (auto simp: dom_def)
  from brepD(6) [OF assms(1) this] assms(2)
  show "b_dev (bufs s ! b) = 1" "b_blockno (bufs s ! b) = n" "b_data (bufs s ! b) = c n"
    "valid (bufs s ! b)" "b_refcnt (bufs s ! b) = 1" "sl_locked (sleeplocks s (SL_buf b))"
    "sl_pid (sleeplocks s (SL_buf b)) = p_pid (procs s ! i)"
    by (auto simp: cell_def)
qed

lemma uniqD:
  "uniq bs \<Longrightarrow> a < NBUF \<Longrightarrow> b < NBUF \<Longrightarrow> b_dev (bs ! a) = 1 \<Longrightarrow> b_dev (bs ! b) = 1 \<Longrightarrow>
     b_blockno (bs ! a) = b_blockno (bs ! b) \<Longrightarrow> a = b"
  by (auto simp: uniq_def)

text \<open>Each cached block has at most one buffer, so two locked buffers hold different blocks.\<close>

lemma brep_inj:
  assumes "brep i s c P h" and "h a = Some n" and "h b = Some n"
  shows "a = b"
  using brep_held [OF assms(1,2)] brep_held [OF assms(1,3)] brepD(3) [OF assms(1)] uniqD by metis

text \<open>There is a buffer to recycle unless all buffers are pinned or locked.\<close>

lemma brep_room:
  assumes r: "brep i s c P h" and room: "card (P \<union> ran h) < NBUF"
  shows "\<exists>b<NBUF. b_refcnt (bufs s ! b) = 0 \<and> \<not> dirty (bufs s ! b)"
proof (rule ccontr)
  assume "\<not> ?thesis"
  then have a: "b < NBUF \<Longrightarrow> b_dev (bufs s ! b) = 1 \<and> b_blockno (bufs s ! b) \<in> P \<union> ran h" for b
    using brepD(6) [OF r, of b] by (auto simp: cell_def ran_def split: option.splits)
  have i: "inj_on (\<lambda>b. b_blockno (bufs s ! b)) {..<NBUF}"
    using a brepD(3) [OF r] by (auto simp: inj_on_def intro: uniqD)
  have "P \<subseteq> (\<lambda>b. b_blockno (bufs s ! b)) ` {..<NBUF}" using brepD(7) [OF r] by fastforce
  moreover have "finite (ran h)" using brepD(5) [OF r] by (intro finite_ran) (auto intro: finite_subset)
  ultimately have "finite (P \<union> ran h)" by (auto intro: finite_subset)
  moreover have "(\<lambda>b. b_blockno (bufs s ! b)) ` {..<NBUF} \<subseteq> P \<union> ran h" using a by auto
  ultimately have "card ((\<lambda>b. b_blockno (bufs s ! b)) ` {..<NBUF}) \<le> card (P \<union> ran h)" by (rule card_mono)
  then show False using room card_image [OF i] by simp
qed

section \<open>The operations\<close>

lemma calm_bufs [simp]:
  assumes "calm i s"
  shows "calm i (s\<lparr>bufs := v\<rparr>)" "calm i (s\<lparr>memdisk := m\<rparr>)" "calm i (s\<lparr>written := w\<rparr>)"
  using assms by (simp_all add: calm_def unwaited_def)

lemma calm_set_buf [simp]: "calm i s \<Longrightarrow> calm i (set_buf b f s)"
  by (simp add: set_buf_def)

lemma slock_bio [simp]:
  "bufs (slock pid l s) = bufs s" "memdisk (slock pid l s) = memdisk s" "disksize (slock pid l s) = disksize s"
  "written (slock pid l s) = written s" "bufs (sunlock l s) = bufs s" "memdisk (sunlock l s) = memdisk s"
  "disksize (sunlock l s) = disksize s" "written (sunlock l s) = written s"
  by (simp_all add: slock_def sunlock_def set_sleeplock_def)

lemma set_buf_simps [simp]:
  "memdisk (set_buf b f s) = memdisk s" "disksize (set_buf b f s) = disksize s" "procs (set_buf b f s) = procs s"
  "sleeplocks (set_buf b f s) = sleeplocks s" "written (set_buf b f s) = written s"
  by (simp_all add: set_buf_def)

lemma set_buf_twice [simp]: "set_buf b g (set_buf b f s) = set_buf b (\<lambda>x. g (f x)) s"
  by (cases "b < length (bufs s)") (simp_all add: set_buf_def not_less list_update_beyond)

text \<open>\<open>bget\<close> takes the buffer that caches the block, if there is one.\<close>

lemma bget_hit:
  assumes c: "calm i s" and r: "ring (bufs s) xs" and u: "uniq (bufs s)" and b: "b < NBUF"
    and h: "b_dev (bufs s ! b) = 1" "b_blockno (bufs s ! b) = n"
    and l: "\<not> sl_locked (sleeplocks s (SL_buf b))" and k: "0 < e_fuel k"
  shows "bget k 1 n s =
     Inr (b, slock (p_pid (procs s ! i)) (SL_buf b) (set_buf b (\<lambda>x. x\<lparr>b_refcnt := b_refcnt x + 1\<rparr>) s))"
proof -
  let ?P = "\<lambda>x. b_dev x = 1 \<and> b_blockno x = n"
  have bx: "b \<in> set xs" using ringD(3) [OF r] b by simp
  have "find (\<lambda>b. ?P (bufs s ! b)) xs \<noteq> None" using bx h by (auto simp: find_None_iff)
  then obtain a where a: "find (\<lambda>b. ?P (bufs s ! b)) xs = Some a" by auto
  then have "a \<in> set xs" "?P (bufs s ! a)" by (auto simp: find_Some_iff)
  then have "a = b" using uniqD [OF u, of a b] h b ringD(3) [OF r] by auto
  then show ?thesis
    using walk_ring(1) [OF r, of ?P] a c l k
    by (simp add: bget_def acquire_calm release_calm [of i "set_buf b _ s"] acquiresleep_calm [of i "set_buf b _ s"])
qed

text \<open>Otherwise it recycles the least recently used buffer that is neither in use nor pinned.\<close>

lemma bget_miss:
  assumes c: "calm i s" and r: "ring (bufs s) xs"
    and m: "\<And>b. b < NBUF \<Longrightarrow> \<not> (b_dev (bufs s ! b) = 1 \<and> b_blockno (bufs s ! b) = n)"
    and f: "find (\<lambda>b. b_refcnt (bufs s ! b) = 0 \<and> \<not> dirty (bufs s ! b)) (rev xs) = Some b"
    and l: "\<not> sl_locked (sleeplocks s (SL_buf b))" and k: "0 < e_fuel k"
  shows "bget k 1 n s =
     Inr (b, slock (p_pid (procs s ! i)) (SL_buf b)
               (set_buf b (\<lambda>x. x\<lparr>b_dev := 1, b_blockno := n, b_flags := 0, b_refcnt := 1\<rparr>) s))"
proof -
  have "find (\<lambda>b. b_dev (bufs s ! b) = 1 \<and> b_blockno (bufs s ! b) = n) xs = None"
    using m ringD(3) [OF r] by (auto simp: find_None_iff)
  then show ?thesis
    using walk_ring(1) [OF r, of "\<lambda>x. b_dev x = 1 \<and> b_blockno x = n"]
      walk_ring(2) [OF r, of "\<lambda>x. b_refcnt x = 0 \<and> \<not> dirty x"] f c l k
    by (simp add: bget_def and_dirty acquire_calm release_calm [of i "set_buf b _ s"]
        acquiresleep_calm [of i "set_buf b _ s"])
qed

text \<open>\<open>iderw\<close> on a locked buffer that was just recycled reads the block from the disk.\<close>

lemma iderw_read:
  assumes "calm i s" and "sl_locked (sleeplocks s (SL_buf b))"
    and "sl_pid (sleeplocks s (SL_buf b)) = p_pid (procs s ! i)" and "b_flags (bufs s ! b) = 0"
    and "b_dev (bufs s ! b) = 1" and "b_blockno (bufs s ! b) = n" and "n < disksize s"
  shows "iderw b s = Inr (set_buf b (\<lambda>x. x\<lparr>b_data := memdisk s n, b_flags := b_flags x OR 2\<rparr>) s)"
  using assms by (simp add: iderw_def holdingsleep_calm Let_def)

text \<open>On a locked dirty buffer it writes the block.\<close>

lemma iderw_write:
  assumes "calm i s" and "sl_locked (sleeplocks s (SL_buf b))"
    and "sl_pid (sleeplocks s (SL_buf b)) = p_pid (procs s ! i)" and "dirty (bufs s ! b)"
    and "b_dev (bufs s ! b) = 1" and "b_blockno (bufs s ! b) = n" and "n < disksize s"
    and "b_data (bufs s ! b) = d" and "b < length (bufs s)"
  shows "iderw b s = Inr (set_buf b (\<lambda>x. x\<lparr>b_flags := (b_flags x AND NOT 4) OR 2\<rparr>)
     (s\<lparr>memdisk := (memdisk s)(n := d), written := written s @ [(n, d)]\<rparr>))"
  using assms by (simp add: iderw_def holdingsleep_calm flag_tests not_le Let_def set_buf_def)

lemma bwrite_write:
  assumes "calm i s" and "sl_locked (sleeplocks s (SL_buf b))"
    and "sl_pid (sleeplocks s (SL_buf b)) = p_pid (procs s ! i)"
    and "b_dev (bufs s ! b) = 1" and "b_blockno (bufs s ! b) = n" and "n < disksize s"
    and "b_data (bufs s ! b) = d" and "b < length (bufs s)"
  shows "bwrite b s = Inr (set_buf b (\<lambda>x. x\<lparr>b_flags := ((b_flags x OR 4) AND NOT 4) OR 2\<rparr>)
     (s\<lparr>memdisk := (memdisk s)(n := d), written := written s @ [(n, d)]\<rparr>))"
proof -
  let ?t = "set_buf b (\<lambda>x. x\<lparr>b_flags := b_flags x OR 4\<rparr>) s"
  have "iderw b ?t = Inr (set_buf b (\<lambda>x. x\<lparr>b_flags := (b_flags x AND NOT 4) OR 2\<rparr>)
     (?t\<lparr>memdisk := (memdisk ?t)(n := d), written := written ?t @ [(n, d)]\<rparr>))"
    by (rule iderw_write) (use assms in simp_all)
  with assms show ?thesis by (simp add: bwrite_def holdingsleep_calm Let_def set_buf_def)
qed

text \<open>
  A change of one buffer \<open>b\<close> that leaves the links alone, together with its lock and the
  disk, keeps the representation when the buffer itself is in order afterwards and the
  others do not depend on what changed.
\<close>

lemma brep_change:
  assumes r: "brep i s c P h" and b: "b < NBUF" and ct: "calm i t"
    and bs: "bufs t = (bufs s)[b := x]" and p: "procs t = procs s"
    and links: "b_next x = b_next (bufs s ! b)" "b_prev x = b_prev (bufs s ! b)"
    and sl: "\<And>a. a \<noteq> b \<Longrightarrow> sleeplocks t (SL_buf a) = sleeplocks s (SL_buf a)"
    and h: "\<And>a. a \<noteq> b \<Longrightarrow> h' a = h a"
    and own: "cell c' P' (p_pid (procs s ! i)) (h' b) (sleeplocks t (SL_buf b)) x"
    and uni: "\<And>a. a < NBUF \<Longrightarrow> a \<noteq> b \<Longrightarrow> b_dev (bufs s ! a) = 1 \<Longrightarrow> b_dev x = 1 \<Longrightarrow> b_blockno (bufs s ! a) \<noteq> b_blockno x"
    and oth: "\<And>a. a < NBUF \<Longrightarrow> a \<noteq> b \<Longrightarrow> b_dev (bufs s ! a) = 1 \<Longrightarrow> c' (b_blockno (bufs s ! a)) = c (b_blockno (bufs s ! a)) \<and>
       (b_blockno (bufs s ! a) \<in> P \<longrightarrow> b_blockno (bufs s ! a) \<in> P')"
    and pin: "\<And>n. n \<in> P' \<Longrightarrow> (b_dev x = 1 \<and> b_blockno x = n \<and> dirty x) \<or>
       (n \<in> P \<and> \<not> (b_dev (bufs s ! b) = 1 \<and> b_blockno (bufs s ! b) = n \<and> dirty (bufs s ! b)))"
    and dsk: "\<And>n. n \<notin> P' \<Longrightarrow> n \<notin> ran h' \<Longrightarrow> c' n = memdisk t n"
  shows "brep i t c' P' h'"
proof -
  note D = brepD [OF r]
  obtain xs where xs: "ring (bufs s) xs" using D(2) ..
  have nth: "a < NBUF \<Longrightarrow> bufs t ! a = (if a = b then x else bufs s ! a)" for a
    using D(4) by (simp add: bs nth_list_update)
  have "ring (bufs t) xs = ring (bufs s) xs"
    by (rule ring_cong) (use b links D(4) in \<open>auto simp: bs nth_list_update\<close>)
  moreover have "uniq (bufs t)"
    unfolding uniq_def using nth uni uniqD [OF D(3)] by (metis (no_types, lifting))
  moreover have "cell c' P' (p_pid (procs t ! i)) (h' a) (sleeplocks t (SL_buf a)) (bufs t ! a)" if "a < NBUF" for a
  proof (cases "a = b")
    case False
    then show ?thesis using D(6) [OF that] oth [OF that False] nth [OF that] sl h p by (auto simp: cell_def)
  qed (use own nth [OF that] p in simp)
  moreover have "dom h' \<subseteq> {..<NBUF}"
    using D(5) h b by (metis domIff lessThan_iff subset_eq)
  moreover have "\<exists>a<NBUF. b_dev (bufs t ! a) = 1 \<and> b_blockno (bufs t ! a) = n \<and> dirty (bufs t ! a)" if "n \<in> P'" for n
    using pin [OF that] D(7) [of n] nth b by (metis (no_types, lifting))
  ultimately show ?thesis using xs ct dsk unfolding brep_def by blast
qed

text \<open>
  The calls below change nothing but the cache: two states are the same outside of it when
  they agree once the buffers and their locks are erased.
\<close>

definition erase :: "'a bio_state_scheme \<Rightarrow> 'a bio_state_scheme" where
  "erase s = s\<lparr>bufs := [],
     sleeplocks := (\<lambda>l. case l of SL_buf b \<Rightarrow> \<lparr>sl_locked = False, sl_name = [], sl_pid = 0\<rparr> | _ \<Rightarrow> sleeplocks s l)\<rparr>"

lemma erase_simps [simp]:
  "erase (set_buf b f s) = erase s" "erase (slock pid (SL_buf b) s) = erase s"
  "erase (sunlock (SL_buf b) s) = erase s" "erase (s\<lparr>bufs := bs\<rparr>) = erase s"
  by (auto simp: erase_def set_buf_def slock_def sunlock_def set_sleeplock_def fun_eq_iff
      intro!: sl_state.fold_congs split: slid.split)

lemma erase_fields:
  "memdisk (erase s) = memdisk s" "disksize (erase s) = disksize s" "written (erase s) = written s"
  "procs (erase s) = procs s"
  by (simp_all add: erase_def)

lemma eraseD:
  assumes "erase t = erase s"
  shows "memdisk t = memdisk s" "disksize t = disksize s" "written t = written s" "procs t = procs s"
  using assms by (metis erase_fields(1), metis erase_fields(2), metis erase_fields(3), metis erase_fields(4))

lemma slock_other [simp]:
  "m \<noteq> l \<Longrightarrow> sleeplocks (slock pid l s) m = sleeplocks s m"
  "m \<noteq> l \<Longrightarrow> sleeplocks (sunlock l s) m = sleeplocks s m"
  by (simp_all add: slock_def sunlock_def)

text \<open>\<open>bread\<close> returns a locked buffer with the contents of the block.\<close>

lemma bread_hit:
  assumes r: "brep i s c P h" and n: "n \<notin> ran h" and k: "0 < e_fuel k" and b: "b < NBUF"
    and m: "b_dev (bufs s ! b) = 1" "b_blockno (bufs s ! b) = n"
  shows "\<exists>t. bread k 1 n s = Inr (b, t) \<and> brep i t c P (h(b \<mapsto> n)) \<and> h b = None \<and> erase t = erase s"
proof -
  note D = brepD [OF r]
  obtain xs where xs: "ring (bufs s) xs" using D(2) ..
  let ?x = "(bufs s ! b)\<lparr>b_refcnt := b_refcnt (bufs s ! b) + 1\<rparr>"
  let ?t = "slock (p_pid (procs s ! i)) (SL_buf b) (set_buf b (\<lambda>x. x\<lparr>b_refcnt := b_refcnt x + 1\<rparr>) s)"
  have free: "h b = None" using D(6) [OF b] m n by (auto simp: cell_def ran_def split: option.splits)
  then have l: "\<not> sl_locked (sleeplocks s (SL_buf b))" "b_refcnt (bufs s ! b) = 0" "valid (bufs s ! b)"
      "b_data (bufs s ! b) = c n" "dirty (bufs s ! b) \<longrightarrow> n \<in> P"
    using D(6) [OF b] m by (auto simp: cell_def)
  have "brep i ?t c P (h(b \<mapsto> n))"
  proof (rule brep_change [OF r b, where x = ?x])
    show "b_blockno (bufs s ! a) \<noteq> b_blockno ?x"
      if "a < NBUF" "a \<noteq> b" "b_dev (bufs s ! a) = 1" "b_dev ?x = 1" for a
      using that uniqD [OF D(3), of a b] b by auto
    show "c x = memdisk ?t x" if "x \<notin> P" "x \<notin> ran (h(b \<mapsto> n))" for x
      using that D(8) [of x] free by simp
    show "cell c P (p_pid (procs s ! i)) ((h(b \<mapsto> n)) b) (sleeplocks ?t (SL_buf b)) ?x"
      using l m by (simp add: cell_def)
  qed (use D(1,7) m in auto)
  moreover have "bread k 1 n s = Inr (b, ?t)"
    using bget_hit [OF D(1) xs D(3) b m l(1) k] l(3) D(4) b by (simp add: bread_def flag_tests)
  ultimately show ?thesis using free by auto
qed

lemma bread_miss:
  assumes r: "brep i s c P h" and k: "0 < e_fuel k" and z: "n < disksize s" and room: "card (P \<union> ran h) < NBUF"
    and m: "\<And>b. b < NBUF \<Longrightarrow> \<not> (b_dev (bufs s ! b) = 1 \<and> b_blockno (bufs s ! b) = n)"
  shows "\<exists>b t. bread k 1 n s = Inr (b, t) \<and> brep i t c P (h(b \<mapsto> n)) \<and> h b = None \<and> erase t = erase s"
proof -
  note D = brepD [OF r]
  obtain xs where xs: "ring (bufs s) xs" using D(2) ..
  let ?P = "\<lambda>b. b_refcnt (bufs s ! b) = 0 \<and> \<not> dirty (bufs s ! b)"
  have "find ?P (rev xs) \<noteq> None" using brep_room [OF r room] ringD(3) [OF xs] by (auto simp: find_None_iff)
  then obtain b where f: "find ?P (rev xs) = Some b" by auto
  then obtain j where j: "j < length xs" "?P b" "b = rev xs ! j" by (auto simp: find_Some_iff)
  then have "b \<in> set xs" by (metis length_rev nth_mem set_rev)
  then have b: "b < NBUF" using ringD(3) [OF xs] by simp
  have free: "h b = None" using D(6) [OF b] j(2) by (auto simp: cell_def split: option.splits)
  have l: "\<not> sl_locked (sleeplocks s (SL_buf b))" using D(6) [OF b] free by (simp add: cell_def)
  have np: "n \<notin> P" "n \<notin> ran h" using D(7) [of n] m brep_held [OF r] by (auto simp: ran_def) blast
  let ?u = "slock (p_pid (procs s ! i)) (SL_buf b)
               (set_buf b (\<lambda>x. x\<lparr>b_dev := 1, b_blockno := n, b_flags := 0, b_refcnt := 1\<rparr>) s)"
  let ?t = "set_buf b (\<lambda>x. x\<lparr>b_data := memdisk ?u n, b_flags := b_flags x OR 2\<rparr>) ?u"
  let ?x = "(bufs s ! b)\<lparr>b_dev := 1, b_blockno := n, b_refcnt := 1, b_data := memdisk s n, b_flags := 2\<rparr>"
  have bt: "bufs ?t = (bufs s)[b := ?x]" using D(4) b by simp
  have "iderw b ?u = Inr ?t"
    by (rule iderw_read [where i = i]) (use D(1,4) b z in simp_all)
  then have "bread k 1 n s = Inr (b, ?t)"
    using bget_miss [OF D(1) xs m f l k] D(4) b by (simp add: bread_def)
  moreover have "brep i ?t c P (h(b \<mapsto> n))"
  proof (rule brep_change [OF r b, where x = ?x])
    show "cell c P (p_pid (procs s ! i)) ((h(b \<mapsto> n)) b) (sleeplocks ?t (SL_buf b)) ?x"
      using D(8) [OF np] by (simp add: cell_def bits_2_4)
    show "c x = memdisk ?t x" if "x \<notin> P" "x \<notin> ran (h(b \<mapsto> n))" for x
      using that D(8) [of x] free by simp
    show "bufs ?t = (bufs s)[b := ?x]" by (rule bt)
  qed (use D(1) m j(2) in auto)
  moreover have "erase ?t = erase s" by (simp only: erase_simps)
  ultimately show ?thesis using free by blast
qed

lemma bread_ok:
  assumes "brep i s c P h" and "n \<notin> ran h" and "0 < e_fuel k" and "n < disksize s" and "card (P \<union> ran h) < NBUF"
  shows "\<exists>b t. bread k 1 n s = Inr (b, t) \<and> brep i t c P (h(b \<mapsto> n)) \<and> h b = None \<and> erase t = erase s"
proof (cases "\<exists>b<NBUF. b_dev (bufs s ! b) = 1 \<and> b_blockno (bufs s ! b) = n")
  case True
  then show ?thesis using bread_hit [OF assms(1-3)] by blast
next
  case False
  then show ?thesis using bread_miss [OF assms(1,3-5)] by blast
qed

text \<open>A pinned block is in the cache, so reading it needs no free buffer.\<close>

lemma bread_pinned:
  assumes "brep i s c P h" and "n \<notin> ran h" and "0 < e_fuel k" and "n \<in> P"
  shows "\<exists>b t. bread k 1 n s = Inr (b, t) \<and> brep i t c P (h(b \<mapsto> n)) \<and> h b = None \<and> erase t = erase s"
  using brepD(7) [OF assms(1,4)] bread_hit [OF assms(1-3)] by blast

text \<open>\<open>bwrite\<close> of a locked buffer puts its contents on the disk and unpins the block.\<close>

lemma erase_commute [simp]:
  "erase (s\<lparr>memdisk := m\<rparr>) = (erase s)\<lparr>memdisk := m\<rparr>" "erase (s\<lparr>written := w\<rparr>) = (erase s)\<lparr>written := w\<rparr>"
  by (simp_all add: erase_def cong: slid.case_cong)

lemma minus_5: "(- 5 :: u32) = NOT 4"
  by simp

lemma flag_bits_minus_5 [simp]: "bit ((f :: u32) AND - 5) (Suc 0) = bit f (Suc 0)" "\<not> bit (f AND - 5) 2"
  using flag_bits(3,4) [of f] by (simp_all only: minus_5 One_nat_def not_False_eq_True)

lemma held_other:
  assumes "brep i s c P h" and "h b = Some n" and "a < NBUF" and "a \<noteq> b" and "b_dev (bufs s ! a) = 1"
  shows "b_blockno (bufs s ! a) \<noteq> n"
  using uniqD [OF brepD(3) [OF assms(1)], of a b] brep_held [OF assms(1,2)] assms(3-5) by auto

lemma bwrite_ok:
  assumes r: "brep i s c P h" and h: "h b = Some n" and z: "n < disksize s"
  shows "\<exists>t. bwrite b s = Inr t \<and> brep i t c (P - {n}) h \<and>
     erase t = erase (s\<lparr>memdisk := (memdisk s)(n := c n), written := written s @ [(n, c n)]\<rparr>)"
proof -
  note D = brepD [OF r] and H = brep_held [OF r h]
  let ?u = "s\<lparr>memdisk := (memdisk s)(n := c n), written := written s @ [(n, c n)]\<rparr>"
  let ?f = "\<lambda>x. x\<lparr>b_flags := ((b_flags x OR 4) AND NOT 4) OR 2\<rparr>"
  have "bwrite b s = Inr (set_buf b ?f ?u)"
    by (rule bwrite_write [OF D(1) H(7,8,2,3) z H(4)]) (use D(4) H(1) in simp)
  moreover have "brep i (set_buf b ?f ?u) c (P - {n}) h"
  proof (rule brep_change [OF r H(1), where x = "?f (bufs s ! b)"])
    show "cell c (P - {n}) (p_pid (procs s ! i)) (h b) (sleeplocks (set_buf b ?f ?u) (SL_buf b)) (?f (bufs s ! b))"
      using H h by (simp add: cell_def)
    show "b_blockno (bufs s ! a) \<noteq> b_blockno (?f (bufs s ! b))"
      if "a < NBUF" "a \<noteq> b" "b_dev (bufs s ! a) = 1" "b_dev (?f (bufs s ! b)) = 1" for a
      using held_other [OF r h that(1-3)] H(3) by simp
    show "c (b_blockno (bufs s ! a)) = c (b_blockno (bufs s ! a)) \<and>
        (b_blockno (bufs s ! a) \<in> P \<longrightarrow> b_blockno (bufs s ! a) \<in> P - {n})"
      if "a < NBUF" "a \<noteq> b" "b_dev (bufs s ! a) = 1" for a
      using held_other [OF r h that] by simp
    show "c x = memdisk (set_buf b ?f ?u) x" if "x \<notin> P - {n}" "x \<notin> ran h" for x
      using that D(8) [of x] by auto
  qed (use D(1) H in auto)
  ultimately show ?thesis by auto
qed

text \<open>Changing the data of a locked buffer changes the contents of its block.\<close>

lemma brep_modify:
  assumes r: "brep i s c P h" and h: "h b = Some n"
  shows "brep i (set_buf b (\<lambda>x. x\<lparr>b_data := f x\<rparr>) s) (c(n := f (bufs s ! b))) P h"
proof (rule brep_change [OF r brep_held(1) [OF r h], where x = "(bufs s ! b)\<lparr>b_data := f (bufs s ! b)\<rparr>"])
  note D = brepD [OF r] and H = brep_held [OF r h]
  let ?x = "(bufs s ! b)\<lparr>b_data := f (bufs s ! b)\<rparr>" and ?s = "set_buf b (\<lambda>x. x\<lparr>b_data := f x\<rparr>) s"
  show "cell (c(n := f (bufs s ! b))) P (p_pid (procs s ! i)) (h b) (sleeplocks ?s (SL_buf b)) ?x"
    using H h D(6) [OF H(1)] by (simp add: cell_def)
  show "b_blockno (bufs s ! a) \<noteq> b_blockno ?x"
    if "a < NBUF" "a \<noteq> b" "b_dev (bufs s ! a) = 1" "b_dev ?x = 1" for a
    using held_other [OF r h that(1-3)] H(3) by simp
  show "(c(n := f (bufs s ! b))) (b_blockno (bufs s ! a)) = c (b_blockno (bufs s ! a)) \<and>
      (b_blockno (bufs s ! a) \<in> P \<longrightarrow> b_blockno (bufs s ! a) \<in> P)"
    if "a < NBUF" "a \<noteq> b" "b_dev (bufs s ! a) = 1" for a
    using held_other [OF r h that] by simp
  show "(c(n := f (bufs s ! b))) x = memdisk ?s x" if "x \<notin> P" "x \<notin> ran h" for x
    using that D(8) [of x] h by (auto simp: ran_def)
  show "(b_dev ?x = 1 \<and> b_blockno ?x = x \<and> dirty ?x) \<or>
      (x \<in> P \<and> \<not> (b_dev (bufs s ! b) = 1 \<and> b_blockno (bufs s ! b) = x \<and> dirty (bufs s ! b)))"
    if "x \<in> P" for x using that by auto
qed (use brepD(1) [OF r] in auto)

text \<open>Setting the dirty flag of a locked buffer pins its block.\<close>

lemma brep_pin:
  assumes r: "brep i s c P h" and h: "h b = Some n"
  shows "brep i (set_buf b (\<lambda>x. x\<lparr>b_flags := b_flags x OR 4\<rparr>) s) c (insert n P) h"
proof (rule brep_change [OF r brep_held(1) [OF r h], where x = "(bufs s ! b)\<lparr>b_flags := b_flags (bufs s ! b) OR 4\<rparr>"])
  note D = brepD [OF r] and H = brep_held [OF r h]
  let ?x = "(bufs s ! b)\<lparr>b_flags := b_flags (bufs s ! b) OR 4\<rparr>" and ?s = "set_buf b (\<lambda>x. x\<lparr>b_flags := b_flags x OR 4\<rparr>) s"
  show "cell c (insert n P) (p_pid (procs s ! i)) (h b) (sleeplocks ?s (SL_buf b)) ?x"
    using H h by (simp add: cell_def)
  show "b_blockno (bufs s ! a) \<noteq> b_blockno ?x"
    if "a < NBUF" "a \<noteq> b" "b_dev (bufs s ! a) = 1" "b_dev ?x = 1" for a
    using held_other [OF r h that(1-3)] H(3) by simp
  show "c x = memdisk ?s x" if "x \<notin> insert n P" "x \<notin> ran h" for x
    using that D(8) [of x] by simp
  show "(b_dev ?x = 1 \<and> b_blockno ?x = x \<and> dirty ?x) \<or>
      (x \<in> P \<and> \<not> (b_dev (bufs s ! b) = 1 \<and> b_blockno (bufs s ! b) = x \<and> dirty (bufs s ! b)))"
    if "x \<in> insert n P" for x using that H by auto
qed (use brepD(1) [OF r] in auto)

text \<open>The order of the buffers in the list does not matter for the contents.\<close>

lemma cell_relinked: "relinked x y \<Longrightarrow> cell c P pid hb lk y = cell c P pid hb lk x"
  by (simp add: cell_def relinked_def cong: option.case_cong)

lemma brep_relink:
  assumes u: "brep i u c P h" and r: "ring bf xs" and rl: "\<And>a. relinked (bufs u ! a) (bf ! a)"
  shows "brep i (u\<lparr>bufs := bf\<rparr>) c P h"
proof -
  note D = brepD [OF u]
  have f: "b_dev (bf ! a) = b_dev (bufs u ! a)" "b_blockno (bf ! a) = b_blockno (bufs u ! a)"
      "b_flags (bf ! a) = b_flags (bufs u ! a)" for a
    using rl [of a] by (simp_all add: relinked_def)
  have "uniq bf" using D(3) by (simp add: uniq_def f)
  then show ?thesis
    unfolding brep_def using D(1,5-8) r by (auto simp: cell_relinked [OF rl] f)
qed

text \<open>\<open>brelse\<close> unlocks the buffer and makes it the most recently used one.\<close>

lemma brelse_ok:
  assumes r: "brep i s c P h" and h: "h b = Some n" and clean: "n \<in> P \<or> c n = memdisk s n"
  shows "\<exists>t. brelse b s = Inr t \<and> brep i t c P (h(b := None)) \<and> erase t = erase s"
proof -
  note D = brepD [OF r] and H = brep_held [OF r h]
  let ?u = "set_buf b (\<lambda>x. x\<lparr>b_refcnt := b_refcnt x - 1\<rparr>) (sunlock (SL_buf b) s)"
  let ?x = "(bufs s ! b)\<lparr>b_refcnt := b_refcnt (bufs s ! b) - 1\<rparr>"
  have u: "brep i ?u c P (h(b := None))"
  proof (rule brep_change [OF r H(1), where x = ?x])
    show "cell c P (p_pid (procs s ! i)) ((h(b := None)) b) (sleeplocks ?u (SL_buf b)) ?x"
      using H h D(6) [OF H(1)] by (simp add: cell_def)
    show "b_blockno (bufs s ! a) \<noteq> b_blockno ?x"
      if "a < NBUF" "a \<noteq> b" "b_dev (bufs s ! a) = 1" "b_dev ?x = 1" for a
      using held_other [OF r h that(1-3)] H(3) by simp
    show "c x = memdisk ?u x" if x: "x \<notin> P" "x \<notin> ran (h(b := None))" for x
    proof (cases "x = n")
      case False
      have "h a \<noteq> Some x" for a
        using x(2) h False ranI [of "h(b := None)" a x] by (cases "a = b") auto
      then have "x \<notin> ran h" by (auto simp: ran_def)
      then show ?thesis using x(1) D(8) by simp
    qed (use clean x(1) in simp)
  qed (use D(1) H in auto)
  obtain xs where xs: "ring (bufs ?u) xs" using brepD(2) [OF u] ..
  have "b \<in> set xs" using ringD(3) [OF xs] H(1) by simp
  then obtain as bs where "xs = as @ b # bs" using split_list by metis
  then have front: "ring (bufs (link_front b (unlink_buf b ?u))) (b # as @ bs)" using front_ring xs by blast
  obtain bf where bf: "link_front b (unlink_buf b ?u) = ?u\<lparr>bufs := bf\<rparr>" using front_bufs by blast
  have c: "calm i (?u\<lparr>bufs := bf\<rparr>)" using brepD(1) [OF u] by simp
  have "brelse b s = Inr (?u\<lparr>bufs := bf\<rparr>)"
    using D(1,4) H release_calm [OF c, of L_bcache] bf
    by (simp add: brelse_def holdingsleep_calm releasesleep_calm acquire_calm [of i "sunlock (SL_buf b) s"] Let_def)
  moreover have "brep i (?u\<lparr>bufs := bf\<rparr>) c P (h(b := None))"
    using brep_relink [OF u, of bf] front relinked_front [of ?u _ b] by (simp add: bf)
  ultimately show ?thesis by auto
qed

section \<open>The contract of the cache\<close>

text \<open>
  What the log relies on, as an interface: \<open>rd\<close>, \<open>wr\<close> and \<open>rel\<close> are \<open>bread\<close>, \<open>bwrite\<close> and
  \<open>brelse\<close>, \<open>dat\<close> and \<open>upd\<close> read and change the data of a buffer, and \<open>frame s t ws\<close> says
  that between \<open>s\<close> and \<open>t\<close> only the cache changed and the disk saw the writes \<open>ws\<close>.
\<close>

definition apply_writes :: "(u32 \<times> u8 list) list \<Rightarrow> (u32 \<Rightarrow> u8 list) \<Rightarrow> u32 \<Rightarrow> u8 list" where
  "apply_writes ws m = fold (\<lambda>(n, d) m. m(n := d)) ws m"

lemma apply_writes_simps [simp]:
  "apply_writes [] m = m" "apply_writes ((n, d) # ws) m = apply_writes ws (m(n := d))"
  "apply_writes (ws @ vs) m = apply_writes vs (apply_writes ws m)"
  by (simp_all add: apply_writes_def)

locale block_cache =
  fixes rep :: "'s \<Rightarrow> (u32 \<Rightarrow> u8 list) \<Rightarrow> u32 set \<Rightarrow> (nat \<rightharpoonup> u32) \<Rightarrow> bool"
    and rd :: "u32 \<Rightarrow> 's \<Rightarrow> (nat \<times> 's) outcome"
    and wr :: "nat \<Rightarrow> 's \<Rightarrow> 's outcome"
    and rel :: "nat \<Rightarrow> 's \<Rightarrow> 's outcome"
    and dat :: "nat \<Rightarrow> 's \<Rightarrow> u8 list"
    and upd :: "nat \<Rightarrow> u8 list \<Rightarrow> 's \<Rightarrow> 's"
    and dsk :: "'s \<Rightarrow> u32 \<Rightarrow> u8 list"
    and dom_ok :: "'s \<Rightarrow> u32 \<Rightarrow> bool"
    and frame :: "'s \<Rightarrow> 's \<Rightarrow> (u32 \<times> u8 list) list \<Rightarrow> bool"
  assumes rd_ok: "rep s c P h \<Longrightarrow> n \<notin> ran h \<Longrightarrow> dom_ok s n \<Longrightarrow> n \<in> P \<or> card (P \<union> ran h) < 30 \<Longrightarrow>
      \<exists>b t. rd n s = Inr (b, t) \<and> rep t c P (h(b \<mapsto> n)) \<and> h b = None \<and> frame s t []"
    and wr_ok: "rep s c P h \<Longrightarrow> h b = Some n \<Longrightarrow> dom_ok s n \<Longrightarrow>
      \<exists>t. wr b s = Inr t \<and> rep t c (P - {n}) h \<and> frame s t [(n, c n)]"
    and rel_ok: "rep s c P h \<Longrightarrow> h b = Some n \<Longrightarrow> n \<in> P \<or> c n = dsk s n \<Longrightarrow>
      \<exists>t. rel b s = Inr t \<and> rep t c P (h(b := None)) \<and> frame s t []"
    and dat_ok: "rep s c P h \<Longrightarrow> h b = Some n \<Longrightarrow> dat b s = c n"
    and upd_ok: "rep s c P h \<Longrightarrow> h b = Some n \<Longrightarrow> rep (upd b d s) (c(n := d)) P h \<and> frame s (upd b d s) []"
    and clean: "rep s c P h \<Longrightarrow> n \<notin> P \<Longrightarrow> n \<notin> ran h \<Longrightarrow> c n = dsk s n"
    and frame_trans: "frame s t ws \<Longrightarrow> frame t u vs \<Longrightarrow> frame s u (ws @ vs)"
    and frame_dsk: "frame s t ws \<Longrightarrow> dsk t = apply_writes ws (dsk s)"
    and frame_dom: "frame s t ws \<Longrightarrow> dom_ok t n = dom_ok s n"
begin

text \<open>Read a block and release it: nothing happens.\<close>

lemma look:
  assumes r: "rep s c P Map.empty" and n: "dom_ok s n" and room: "n \<in> P \<or> card P < 30"
  shows "\<exists>b t u. rd n s = Inr (b, t) \<and> dat b t = c n \<and> rel b t = Inr u \<and> rep u c P Map.empty \<and> frame s u []"
proof -
  obtain b t where t: "rd n s = Inr (b, t)" "rep t c P [b \<mapsto> n]" "frame s t []"
    using rd_ok [OF r _ n] room by auto
  have "n \<in> P \<or> c n = dsk t n" using clean [OF r, of n] frame_dsk [OF t(3)] by auto
  then obtain u where u: "rel b t = Inr u" "rep u c P ([b \<mapsto> n](b := None))" "frame t u []"
    using rel_ok [OF t(2), of b n] by auto
  moreover have "dat b t = c n" by (rule dat_ok [OF t(2)]) simp
  moreover have "frame s u []" using frame_trans [OF t(3) u(3)] by simp
  ultimately show ?thesis using t(1) by auto
qed

text \<open>Replace the contents of a block and write it through.\<close>

lemma store:
  assumes r: "rep s c P Map.empty" and n: "dom_ok s n" and room: "n \<in> P \<or> card P < 30"
  shows "\<exists>b t u v. rd n s = Inr (b, t) \<and> dat b t = c n \<and> frame s t [] \<and> wr b (upd b d t) = Inr u \<and> rel b u = Inr v \<and>
     rep v (c(n := d)) (P - {n}) Map.empty \<and> frame s v [(n, d)]"
proof -
  obtain b t where t: "rd n s = Inr (b, t)" "rep t c P [b \<mapsto> n]" "frame s t []"
    using rd_ok [OF r _ n] room by auto
  have m: "rep (upd b d t) (c(n := d)) P [b \<mapsto> n]" "frame t (upd b d t) []" using upd_ok [OF t(2), of b n d] by auto
  then have f: "frame s (upd b d t) []" using frame_trans [OF t(3)] by fastforce
  then have "dom_ok (upd b d t) n" using n frame_dom by blast
  then obtain u where u: "wr b (upd b d t) = Inr u" "rep u (c(n := d)) (P - {n}) [b \<mapsto> n]"
      "frame (upd b d t) u [(n, d)]"
    using wr_ok [OF m(1), of b n] by auto
  have fu: "frame s u [(n, d)]" using frame_trans [OF f u(3)] by simp
  then have "dsk u n = d" by (simp add: frame_dsk)
  then obtain v where v: "rel b u = Inr v" "rep v (c(n := d)) (P - {n}) ([b \<mapsto> n](b := None))" "frame u v []"
    using rel_ok [OF u(2), of b n] by auto
  moreover have "dat b t = c n" by (rule dat_ok [OF t(2)]) simp
  moreover have "frame s v [(n, d)]" using frame_trans [OF fu v(3)] by simp
  ultimately show ?thesis using t(1,3) u(1) by auto
qed

end

context block_cache
begin

text \<open>With two buffers locked, copy one into the other and write it.\<close>

lemma copy_held:
  assumes r: "rep s c P h" and x: "h x = Some m" and y: "h y = Some n" and mn: "m \<noteq> n" and d: "dom_ok s m"
  shows "\<exists>u. wr x (upd x (dat y s) s) = Inr u \<and> rep u (c(m := c n)) (P - {m}) h \<and> frame s u [(m, c n)]"
proof -
  have dy: "dat y s = c n" using dat_ok [OF r y] .
  have m: "rep (upd x (c n) s) (c(m := c n)) P h" "frame s (upd x (c n) s) []" using upd_ok [OF r x, of "c n"] by auto
  then have "dom_ok (upd x (c n) s) m" using d frame_dom by blast
  from wr_ok [OF m(1) x this] obtain u where u: "wr x (upd x (c n) s) = Inr u" "rep u (c(m := c n)) (P - {m}) h"
      "frame (upd x (c n) s) u [(m, c n)]" by auto
  with frame_trans [OF m(2) u(3)] show ?thesis by (simp add: dy)
qed

lemma rel_two:
  assumes r: "rep s c P [x \<mapsto> m, y \<mapsto> n]" and xy: "x \<noteq> y" and m: "m \<in> P \<or> c m = dsk s m" and n: "n \<in> P \<or> c n = dsk s n"
  shows "\<exists>t. and_then (rel x s) (rel y) = Inr t \<and> rep t c P Map.empty \<and> frame s t []"
    and "\<exists>t. and_then (rel y s) (rel x) = Inr t \<and> rep t c P Map.empty \<and> frame s t []"
proof -
  have e: "[x \<mapsto> m, y \<mapsto> n](x := None) = [y \<mapsto> n]" "[x \<mapsto> m, y \<mapsto> n](y := None) = [x \<mapsto> m]"
    "[y \<mapsto> n](y := None) = Map.empty" "[x \<mapsto> m](x := None) = Map.empty" "[x \<mapsto> m](y := None) = [x \<mapsto> m]"
    using xy by (auto simp: fun_eq_iff)
  obtain t where t: "rel x s = Inr t" "rep t c P [y \<mapsto> n]" "frame s t []"
    using rel_ok [OF r _ m, of x] xy by (auto simp: e)
  have "n \<in> P \<or> c n = dsk t n" using n frame_dsk [OF t(3)] by simp
  then obtain u where u: "rel y t = Inr u" "rep u c P Map.empty" "frame t u []"
    using rel_ok [OF t(2), of y n] by (auto simp: e)
  show "\<exists>t. and_then (rel x s) (rel y) = Inr t \<and> rep t c P Map.empty \<and> frame s t []"
    using t(1) u(1,2) frame_trans [OF t(3) u(3)] by auto
  obtain t where t: "rel y s = Inr t" "rep t c P [x \<mapsto> m]" "frame s t []"
    using rel_ok [OF r _ n, of y] xy by (auto simp: e fun_upd_twist [of y x])
  have "m \<in> P \<or> c m = dsk t m" using m frame_dsk [OF t(3)] by simp
  then obtain u where u: "rel x t = Inr u" "rep u c P Map.empty" "frame t u []"
    using rel_ok [OF t(2), of x m] by (auto simp: e)
  show "\<exists>t. and_then (rel y s) (rel x) = Inr t \<and> rep t c P Map.empty \<and> frame s t []"
    using t(1) u(1,2) frame_trans [OF t(3) u(3)] by auto
qed

lemma rd_two:
  assumes r: "rep s c P Map.empty" and mn: "m \<noteq> n" and d: "dom_ok s m" "dom_ok s n"
    and room: "m \<in> P \<or> card P < 30" "n \<in> P \<or> card (insert m P) < 30"
  shows "\<exists>x t y u. rd m s = Inr (x, t) \<and> rd n t = Inr (y, u) \<and> x \<noteq> y \<and> rep u c P [x \<mapsto> m, y \<mapsto> n] \<and> frame s u []"
proof -
  obtain x t where t: "rd m s = Inr (x, t)" "rep t c P [x \<mapsto> m]" "frame s t []"
    using rd_ok [OF r _ d(1)] room(1) by auto
  have "dom_ok t n" using d(2) frame_dom [OF t(3)] by blast
  moreover have "n \<in> P \<or> card (P \<union> ran [x \<mapsto> m]) < 30" using room(2) by simp
  ultimately obtain y u where u: "rd n t = Inr (y, u)" "rep u c P [x \<mapsto> m, y \<mapsto> n]" "[x \<mapsto> m] y = None" "frame t u []"
    using rd_ok [OF t(2), of n] mn by auto
  have "x \<noteq> y" using u(3) by (auto split: if_splits)
  then show ?thesis using t(1) u(1,2) frame_trans [OF t(3) u(4)] by auto
qed

text \<open>Copy block \<open>n\<close> to block \<open>m\<close>, the target read first (as \<open>write_log\<close> does).\<close>

lemma copy_first:
  assumes r: "rep s c P Map.empty" and mn: "m \<noteq> n" and d: "dom_ok s m" "dom_ok s n"
    and room: "m \<in> P \<or> card P < 30" "n \<in> P \<or> card (insert m P) < 30"
  shows "\<exists>x t y u v w. rd m s = Inr (x, t) \<and> frame s t [] \<and> rd n t = Inr (y, u) \<and> wr x (upd x (dat y u) u) = Inr v \<and>
     and_then (rel y v) (rel x) = Inr w \<and> rep w (c(m := c n)) (P - {m}) Map.empty \<and> frame s w [(m, c n)]"
proof -
  obtain x t y u where u: "rd m s = Inr (x, t)" "rd n t = Inr (y, u)" "x \<noteq> y" "rep u c P [x \<mapsto> m, y \<mapsto> n]" "frame s u []"
    using rd_two [OF assms] by blast
  have ft: "frame s t []" using rd_ok [OF r _ d(1)] room(1) u(1) by auto
  have "dom_ok u m" using d(1) frame_dom [OF u(5)] by blast
  then obtain v where v: "wr x (upd x (dat y u) u) = Inr v" "rep v (c(m := c n)) (P - {m}) [x \<mapsto> m, y \<mapsto> n]" "frame u v [(m, c n)]"
    using copy_held [OF u(4) _ _ mn, of x y] u(3) by auto
  have dv: "dsk v = (dsk s)(m := c n)" using frame_dsk [OF v(3)] frame_dsk [OF u(5)] by simp
  have "n \<in> P - {m} \<or> (c(m := c n)) n = dsk v n" using clean [OF r, of n] mn by (auto simp: dv)
  then obtain w where "and_then (rel y v) (rel x) = Inr w" "rep w (c(m := c n)) (P - {m}) Map.empty" "frame v w []"
    using rel_two(2) [OF v(2) u(3)] by (auto simp: dv)
  then show ?thesis using u ft v frame_trans [OF frame_trans [OF u(5) v(3)]] by fastforce
qed

text \<open>Copy block \<open>m\<close> to block \<open>n\<close>, the source read first (as \<open>install_trans\<close> does).\<close>

lemma copy_second:
  assumes r: "rep s c P Map.empty" and mn: "m \<noteq> n" and d: "dom_ok s m" "dom_ok s n"
    and room: "m \<in> P \<or> card P < 30" "n \<in> P \<or> card (insert m P) < 30"
  shows "\<exists>x t y u v w. rd m s = Inr (x, t) \<and> frame s t [] \<and> rd n t = Inr (y, u) \<and> wr y (upd y (dat x u) u) = Inr v \<and>
     and_then (rel x v) (rel y) = Inr w \<and> rep w (c(n := c m)) (P - {n}) Map.empty \<and> frame s w [(n, c m)]"
proof -
  obtain x t y u where u: "rd m s = Inr (x, t)" "rd n t = Inr (y, u)" "x \<noteq> y" "rep u c P [x \<mapsto> m, y \<mapsto> n]" "frame s u []"
    using rd_two [OF assms] by blast
  have ft: "frame s t []" using rd_ok [OF r _ d(1)] room(1) u(1) by auto
  have "dom_ok u n" using d(2) frame_dom [OF u(5)] by blast
  then obtain v where v: "wr y (upd y (dat x u) u) = Inr v" "rep v (c(n := c m)) (P - {n}) [x \<mapsto> m, y \<mapsto> n]" "frame u v [(n, c m)]"
    using copy_held [OF u(4) _ _ mn [symmetric], of y x] u(3) by auto
  have dv: "dsk v = (dsk s)(n := c m)" using frame_dsk [OF v(3)] frame_dsk [OF u(5)] by simp
  have "m \<in> P - {n} \<or> (c(n := c m)) m = dsk v m" using clean [OF r, of m] mn by (auto simp: dv)
  then obtain w where "and_then (rel x v) (rel y) = Inr w" "rep w (c(n := c m)) (P - {n}) Map.empty" "frame v w []"
    using rel_two(1) [OF v(2) u(3)] by (auto simp: dv)
  then show ?thesis using u ft v frame_trans [OF frame_trans [OF u(5) v(3)]] by fastforce
qed

end

section \<open>The model keeps the contract\<close>

definition wrote :: "(u32 \<times> u8 list) list \<Rightarrow> 'a bio_state_scheme \<Rightarrow> 'a bio_state_scheme" where
  "wrote ws s = s\<lparr>memdisk := apply_writes ws (memdisk s), written := written s @ ws\<rparr>"

lemma erase_wrote: "erase (wrote ws s) = wrote ws (erase s)"
  by (simp add: wrote_def erase_fields)

lemma wrote_simps [simp]:
  "wrote [] s = s" "wrote vs (wrote ws s) = wrote (ws @ vs) s" "memdisk (wrote ws s) = apply_writes ws (memdisk s)"
  "disksize (wrote ws s) = disksize s" "written (wrote ws s) = written s @ ws" "procs (wrote ws s) = procs s"
  by (simp_all add: wrote_def)

interpretation bc: block_cache "\<lambda>s c P h. brep i s c P h \<and> 0 < e_fuel k" "bread k 1" bwrite brelse
    "\<lambda>b s. b_data (bufs s ! b)" "\<lambda>b d. set_buf b (\<lambda>x. x\<lparr>b_data := d\<rparr>)" memdisk "\<lambda>s n. n < disksize s"
    "\<lambda>s t ws. erase t = erase (wrote ws s)"
  for i and k :: "'a bio_state_scheme env"
proof (unfold_locales, goal_cases)
  case (1 s c P h n)
  then show ?case using bread_ok [of i s c P h n k] bread_pinned [of i s c P h n k] by (simp; blast)
next
  case (2 s c P h b n)
  then show ?case using bwrite_ok [of i s c P h b n] by (simp add: wrote_def)
next
  case (3 s c P h b n)
  then show ?case using brelse_ok [of i s c P h b n] by (simp; blast)
next
  case (4 s c P h b n)
  then show ?case using brep_held(4) by blast
next
  case (5 s c P h b n d)
  then show ?case using brep_modify [of i s c P h b n "\<lambda>_. d"] by simp
next
  case (6 s c P h n)
  then show ?case using brepD(8) by blast
next
  case (7 s t ws u vs)
  then show ?case by (simp add: erase_wrote)
next
  case (8 s t ws)
  then show ?case using eraseD(1) [of t "wrote ws s"] by simp
next
  case (9 s t ws n)
  then show ?case using eraseD(2) [of t "wrote ws s"] by simp
qed

section \<open>Initialisation\<close>

lemma procs_set_lock [simp]: "procs (set_lock l f s) = procs s"
  by (simp add: set_lock_def)

lemma calm_initlock:
  assumes "calm i s"
  shows "calm i (initlock l name s)"
proof -
  have "balanced (initlock l name s) = initlock l name (balanced s)"
    by (simp add: initlock_def balanced_def set_lock_def self_def here_def self_cpu_def)
  with assms show ?thesis by (auto simp: calm_def initlock_def unwaited_def lock_free_def)
qed

definition blank :: "buf \<Rightarrow> bool" where
  "blank x \<longleftrightarrow> b_flags x = 0 \<and> b_dev x = 0 \<and> b_refcnt x = 0"

lemma blank_link [simp]: "blank (x\<lparr>b_prev := p\<rparr>) = blank x" "blank (x\<lparr>b_next := p\<rparr>) = blank x"
  by (simp_all add: blank_def)

lemma blank_set_buf:
  assumes "\<And>x. blank (f x) = blank x"
  shows "(\<forall>a<31. blank (bufs (set_buf m f s) ! a)) = (\<forall>a<31. blank (bufs s ! a))"
  using assms by (cases "m < length (bufs s)") (auto simp: nth_list_update list_update_beyond)

lemma link_front_simps [simp]:
  "memdisk (link_front b s) = memdisk s" "procs (link_front b s) = procs s" "sleeplocks (link_front b s) = sleeplocks s"
  "length (bufs (link_front b s)) = length (bufs s)" "disksize (link_front b s) = disksize s"
  "written (link_front b s) = written s"
  "(\<forall>a<31. blank (bufs (link_front b s) ! a)) = (\<forall>a<31. blank (bufs s ! a))"
  by (simp_all add: link_front_def Let_def blank_set_buf del: set_buf_bufs) simp_all

lemma calm_link_front: "calm i s \<Longrightarrow> calm i (link_front b s)"
  by (simp add: link_front_def Let_def)

lemma initsleeplock_simps [simp]:
  "memdisk (initsleeplock l n s) = memdisk s" "procs (initsleeplock l n s) = procs s" "bufs (initsleeplock l n s) = bufs s"
  "disksize (initsleeplock l n s) = disksize s" "written (initsleeplock l n s) = written s"
  "sl_locked (sleeplocks (initsleeplock l n s) m) \<longleftrightarrow> m \<noteq> l \<and> sl_locked (sleeplocks s m)"
  by (simp_all add: initsleeplock_def initlock_def set_lock_def set_sleeplock_def Let_def)

lemma calm_initsleeplock: "calm i s \<Longrightarrow> calm i (initsleeplock l n s)"
  by (simp add: initsleeplock_def Let_def calm_initlock)

text \<open>\<open>binit\<close> makes a ring of all buffers, none of which caches a block.\<close>

lemma binit_loop:
  assumes "calm i s" and "length (bufs s) = 31" and "nxt s head = head" "prv s head = head"
    and "\<forall>a<31. blank (bufs s ! a)" and "n \<le> NBUF"
  shows "let t = fold (\<lambda>b s. link_front b (initsleeplock (SL_buf b) ''buffer'' s)) [0..<n] s in
    calm i t \<and> length (bufs t) = 31 \<and> seg (nxt t) (prv t) head (rev [0..<n]) head \<and> (\<forall>a<31. blank (bufs t ! a)) \<and>
    (\<forall>b<n. \<not> sl_locked (sleeplocks t (SL_buf b))) \<and> memdisk t = memdisk s \<and> procs t = procs s \<and>
    disksize t = disksize s \<and> written t = written s"
  using assms(6)
proof (induction n)
  case 0
  then show ?case using assms by simp
next
  case (Suc n)
  let ?t = "fold (\<lambda>b s. link_front b (initsleeplock (SL_buf b) ''buffer'' s)) [0..<n] s"
  let ?u = "initsleeplock (SL_buf n) ''buffer'' ?t"
  have t: "calm i ?t" "length (bufs ?t) = 31" "seg (nxt ?t) (prv ?t) head (rev [0..<n]) head"
      "\<forall>a<31. blank (bufs ?t ! a)" "\<forall>b<n. \<not> sl_locked (sleeplocks ?t (SL_buf b))" "memdisk ?t = memdisk s"
      "procs ?t = procs s" "disksize ?t = disksize s" "written ?t = written s"
    using Suc by (simp_all add: Let_def)
  have l: "nxt ?u = nxt ?t" "prv ?u = prv ?t" by (simp_all add: nxt_def prv_def fun_eq_iff)
  have "seg (nxt (link_front n ?u)) (prv (link_front n ?u)) head (n # rev [0..<n]) head"
    by (rule link_front_ring(2)) (use t(2,3) Suc.prems in \<open>auto simp: l\<close>)
  moreover have "\<forall>a<31. blank (bufs (link_front n ?u) ! a)" using t(4) unfolding link_front_simps by simp
  moreover have "calm i (link_front n ?u)" using t(1) by (simp add: calm_link_front calm_initsleeplock)
  ultimately show ?case
    using t by (auto simp: Let_def less_Suc_eq)
qed

lemma binit_ok:
  assumes c: "calm i s" and l: "length (bufs s) = 31" and bl: "\<forall>a<31. blank (bufs s ! a)"
  shows "brep i (binit s) (memdisk s) {} Map.empty" and "memdisk (binit s) = memdisk s"
    and "disksize (binit s) = disksize s" and "written (binit s) = written s" and "procs (binit s) = procs s"
proof -
  let ?s = "set_buf head (\<lambda>x. x\<lparr>b_next := head\<rparr>) (set_buf head (\<lambda>x. x\<lparr>b_prev := head\<rparr>) (initlock L_bcache ''bcache'' s))"
  have b: "binit s = fold (\<lambda>b s. link_front b (initsleeplock (SL_buf b) ''buffer'' s)) [0..<NBUF] ?s"
    by (simp only: binit_def Let_def)
  have s: "memdisk (initlock L_bcache ''bcache'' s) = memdisk s" "bufs (initlock L_bcache ''bcache'' s) = bufs s"
      "procs (initlock L_bcache ''bcache'' s) = procs s" "disksize (initlock L_bcache ''bcache'' s) = disksize s"
      "written (initlock L_bcache ''bcache'' s) = written s"
    by (simp_all add: initlock_def set_lock_def)
  have "nxt ?s head = head" "prv ?s head = head" using l by (simp_all add: nxt_def prv_def s)
  moreover have "\<forall>a<31. blank (bufs ?s ! a)" using bl l by (auto simp: s nth_list_update)
  moreover have "calm i ?s" using c by (simp add: calm_initlock)
  ultimately have t: "calm i (binit s)" "length (bufs (binit s)) = 31"
      "seg (nxt (binit s)) (prv (binit s)) head (rev [0..<NBUF]) head" "\<forall>a<31. blank (bufs (binit s) ! a)"
      "\<forall>b<NBUF. \<not> sl_locked (sleeplocks (binit s) (SL_buf b))" and
     u: "memdisk (binit s) = memdisk s" "procs (binit s) = procs s"
      "disksize (binit s) = disksize s" "written (binit s) = written s"
    using binit_loop [of i ?s 30] l by (simp_all add: b s Let_def)
  show "memdisk (binit s) = memdisk s" "procs (binit s) = procs s" "disksize (binit s) = disksize s"
    "written (binit s) = written s" by (fact u)+
  have "ring (bufs (binit s)) (rev [0..<NBUF])" using t(2,3) by (auto simp: ring_seg)
  moreover have "uniq (bufs (binit s))" using t(4) by (simp add: uniq_def blank_def)
  moreover have "\<forall>b<NBUF. cell (memdisk s) {} (p_pid (procs (binit s) ! i)) None (sleeplocks (binit s) (SL_buf b)) (bufs (binit s) ! b)"
    using t(4,5) by (simp add: cell_def blank_def)
  ultimately show "brep i (binit s) (memdisk s) {} Map.empty"
    using t(1) u by (auto simp: brep_def)
qed

section \<open>Reads and writes end to end\<close>

text \<open>The life of one block write, and of one block read, as the callers in the file system do it.\<close>

definition put_block ::
    "'a bio_state_scheme env \<Rightarrow> u32 \<Rightarrow> u8 list \<Rightarrow> 'a bio_state_scheme \<Rightarrow> ('a bio_state_scheme) outcome" where
  "put_block k n d s =
     and_then (bread k 1 n s) (\<lambda>(b, s).
     and_then (bwrite b (set_buf b (\<lambda>x. x\<lparr>b_data := d\<rparr>) s)) (brelse b))"

definition get_block ::
    "'a bio_state_scheme env \<Rightarrow> u32 \<Rightarrow> 'a bio_state_scheme \<Rightarrow> (u8 list \<times> 'a bio_state_scheme) outcome" where
  "get_block k n s =
     and_then (bread k 1 n s) (\<lambda>(b, s). and_then (brelse b s) (\<lambda>t. Inr (b_data (bufs s ! b), t)))"

lemma put_block_ok:
  assumes "brep i s c P Map.empty" and "0 < e_fuel k" and "n < disksize s" and "card P < NBUF"
  shows "\<exists>t. put_block k n d s = Inr t \<and> brep i t (c(n := d)) (P - {n}) Map.empty \<and> erase t = erase (wrote [(n, d)] s)"
  using bc.store [where i = i and k = k, of s c P n d] assms by (auto simp: put_block_def)

lemma get_block_ok:
  assumes "brep i s c P Map.empty" and "0 < e_fuel k" and "n < disksize s" and "card P < NBUF"
  shows "\<exists>t. get_block k n s = Inr (c n, t) \<and> brep i t c P Map.empty \<and> erase t = erase s"
  using bc.look [where i = i and k = k, of s c P n] assms by (auto simp: get_block_def)

datatype block_op = Put u32 "u8 list" | Get u32

fun block_step ::
    "'a bio_state_scheme env \<Rightarrow> block_op \<Rightarrow> 'a bio_state_scheme \<Rightarrow> ('a bio_state_scheme) outcome" where
  "block_step k (Put n d) s = put_block k n d s"
| "block_step k (Get n) s = and_then (get_block k n s) (\<lambda>(_, t). Inr t)"

primrec block_no :: "block_op \<Rightarrow> u32" where
  "block_no (Put n d) = n"
| "block_no (Get n) = n"

definition puts :: "block_op list \<Rightarrow> (u32 \<times> u8 list) list" where
  "puts ops = List.map_filter (\<lambda>x. case x of Put n d \<Rightarrow> Some (n, d) | Get n \<Rightarrow> None) ops"

lemma puts_simps [simp]: "puts [] = []" "puts (Put n d # ops) = (n, d) # puts ops" "puts (Get n # ops) = puts ops"
  by (simp_all add: puts_def List.map_filter_simps)

lemma block_ops_ok:
  assumes "brep i s c {} Map.empty" and "0 < e_fuel k" and "\<forall>x\<in>set ops. block_no x < disksize s"
  shows "\<exists>t. for_each (block_step k) ops s = Inr t \<and> brep i t (apply_writes (puts ops) c) {} Map.empty \<and>
     erase t = erase (wrote (puts ops) s)"
  using assms
proof (induction ops arbitrary: s c)
  case (Cons x ops)
  show ?case
  proof (cases x)
    case (Put n d)
    with Cons.prems put_block_ok [of i s c "{}" k n d] obtain t where
      t: "put_block k n d s = Inr t" "brep i t (c(n := d)) {} Map.empty" "erase t = erase (wrote [(n, d)] s)" by auto
    have "disksize t = disksize s" using eraseD(2) [OF t(3)] by simp
    with Cons.IH [OF t(2)] Cons.prems Put t obtain u where
      "for_each (block_step k) ops t = Inr u" "brep i u (apply_writes (puts ops) (c(n := d))) {} Map.empty"
      "erase u = erase (wrote (puts ops) t)" by (auto simp del: fun_upd_apply)
    with t Put show ?thesis by (simp add: erase_wrote)
  next
    case (Get n)
    with Cons.prems get_block_ok [of i s c "{}" k n] obtain t where
      t: "get_block k n s = Inr (c n, t)" "brep i t c {} Map.empty" "erase t = erase s" by auto
    have "disksize t = disksize s" using eraseD(2) [OF t(3)] by simp
    with Cons.IH [OF t(2)] Cons.prems Get t obtain u where
      "for_each (block_step k) ops t = Inr u" "brep i u (apply_writes (puts ops) c) {} Map.empty"
      "erase u = erase (wrote (puts ops) t)" by auto
    with t Get show ?thesis by (simp add: erase_wrote)
  qed
qed simp

text \<open>
  C17: The buffer cache is transparent. From initialisation on, any sequence of block reads
  and writes through the cache runs to its end, the disk sees exactly the writes in their
  order, and a read then returns what a disk without a cache would hold: the data last
  written to the block, or its original contents. The number of blocks may exceed the number
  of buffers, so recycling loses nothing.
\<close>

theorem cache_transparent:
  assumes "calm i s" and "length (bufs s) = 31" and "\<forall>a<31. blank (bufs s ! a)" and "0 < e_fuel k"
    and "\<forall>x\<in>set ops. block_no x < disksize s" and "n < disksize s"
  shows "\<exists>t u. for_each (block_step k) ops (binit s) = Inr t \<and>
     written t = written s @ puts ops \<and> memdisk t = apply_writes (puts ops) (memdisk s) \<and>
     get_block k n t = Inr (apply_writes (puts ops) (memdisk s) n, u)"
proof -
  note B = binit_ok [OF assms(1-3)]
  obtain t where t: "for_each (block_step k) ops (binit s) = Inr t"
      "brep i t (apply_writes (puts ops) (memdisk s)) {} Map.empty" "erase t = erase (wrote (puts ops) (binit s))"
    using block_ops_ok [OF B(1) assms(4)] assms(5) B(3) by auto
  note E = eraseD [OF t(3)]
  have "n < disksize t" using E(2) B(3) assms(6) by simp
  from get_block_ok [OF t(2) assms(4) this] show ?thesis using t(1) E(1,3) B(2,4) by auto
qed

definition sample_bio :: "(u32 \<Rightarrow> u8 list) \<Rightarrow> 'a \<Rightarrow> 'a bio_state_scheme" where
  "sample_bio img m =
     \<lparr>cpus = [sample_cpu\<lparr>c_intena := True\<rparr>], lapic_id = 0, ifl = True,
      locks = (\<lambda>_. \<lparr>lk_locked = 0, lk_name = [], lk_cpu = None\<rparr>), printed = [],
      mem = sample_mem, kend = 0x80200000, use_lock = True, freelist = 0x80403000,
      kpgdir = 0x80300000, kdata = 0x80108000,
      procs = sample_procs, nextpid = 4, initproc = Some 0, ticks = 0, tfs = (\<lambda>_. sample_tf),
      contexts = (\<lambda>_. zero_context), forkret_addr = 0x80103000, trapret_addr = 0x80105000,
      ts_addr = (\<lambda>_. 0x80110000),
      sleeplocks = (\<lambda>_. \<lparr>sl_locked = False, sl_name = [], sl_pid = 0\<rparr>),
      bufs = replicate 31 \<lparr>b_flags = 0, b_dev = 0, b_blockno = 0, b_refcnt = 0, b_prev = 0, b_next = 0,
                           b_data = replicate 512 0\<rparr>,
      memdisk = img, disksize = 1000, written = [], \<dots> = m\<rparr>"

lemma sample_bio_view [simp]:
  "length (bufs (sample_bio img m)) = 31" "a < 31 \<Longrightarrow> blank (bufs (sample_bio img m) ! a)"
  "memdisk (sample_bio img m) = img" "disksize (sample_bio img m) = 1000" "written (sample_bio img m) = []"
  by (simp_all add: sample_bio_def blank_def)

lemma sample_bio_calm [simp]: "calm 1 (sample_bio img m)" "calm (Suc 0) (sample_bio img m)"
  by (simp_all add: calm_def sample_bio_def here_def self_def self_cpu_def running_def cpu_ok_def lock_free_def
      scan_def sample_cpu_def balanced_def unwaited_def sample_procs_def sample_proc_def)

definition sample_env :: "'s env" where
  "sample_env = \<lparr>e_swtch = (\<lambda>s. s), e_fuel = 1, e_devread = (\<lambda>_. None), e_devwrite = (\<lambda>_. None)\<rparr>"

lemma sample_env_fuel [simp]: "0 < e_fuel sample_env"
  by (simp add: sample_env_def)

theorem cache_transparent_witness:
  "\<exists>t u. for_each (block_step sample_env) [Put 5 [1], Put 6 [2], Get 7, Put 5 [3]] (binit (sample_bio (\<lambda>_. [0]) ())) = Inr t \<and>
     written t = [(5, [1]), (6, [2]), (5, [3])] \<and> get_block sample_env 5 t = Inr ([3], u)"
  using cache_transparent [of 1 "sample_bio (\<lambda>_. [0]) ()" sample_env "[Put 5 [1], Put 6 [2], Get 7, Put 5 [3]]" 5]
  by auto

end
