(* ===== verification/Txn.thy ===== *)
theory Txn
  imports Log Bcache
begin

text \<open>
  Correctness of the log: what a commit writes to the disk and in which order, what recovery
  makes of a disk, and that a crash at any moment during a commit leaves either all or none
  of the transaction after recovery.
\<close>

unbundle bit_operations_syntax

section \<open>The header block\<close>

text \<open>The header as \<open>write_head\<close> stores it over the old contents \<open>d\<close> of the block.\<close>

definition head_bytes :: "u32 list \<Rightarrow> u8 list \<Rightarrow> u8 list" where
  "head_bytes B d = fold (\<lambda>i d. put32 d (4 + 4 * i) (B ! i)) [0..<length B] (put32 d 0 (of_nat (length B)))"

lemma fold_put32:
  assumes "length d = 512" and "m \<le> 30"
  shows "length (fold (\<lambda>i d. put32 d (4 + 4 * i) (f i)) [0..<m] d) = 512"
    and "get32 (fold (\<lambda>i d. put32 d (4 + 4 * i) (f i)) [0..<m] d) 0 = get32 d 0"
    and "i < m \<Longrightarrow> get32 (fold (\<lambda>i d. put32 d (4 + 4 * i) (f i)) [0..<m] d) (4 + 4 * i) = f i"
  using assms(2)
proof (induction m)
  case (Suc m)
  { case 1 then show ?case using Suc by simp }
  { case 2 then show ?case using Suc by simp }
  { case 3
    then show ?case using Suc by (cases "i = m") simp_all }
qed (use assms in simp_all)

lemma head_bytes_get:
  assumes "length d = 512" and "length B \<le> 30"
  shows "length (head_bytes B d) = 512" "get32 (head_bytes B d) 0 = of_nat (length B)"
    "i < length B \<Longrightarrow> get32 (head_bytes B d) (4 + 4 * i) = B ! i"
  using fold_put32 [where d = "put32 d 0 (of_nat (length B))" and m = "length B" and f = "\<lambda>i. B ! i"] assms
  by (simp_all add: head_bytes_def)

text \<open>Reading the header back: the count and the block numbers.\<close>

definition head_blocks :: "u8 list \<Rightarrow> u32 list" where
  "head_blocks d = map (\<lambda>i. get32 d (4 + 4 * i)) [0..<nat (sint (get32 d 0))]"

lemma sint_small: "n \<le> 30 \<Longrightarrow> sint (of_nat n :: u32) = int n"
  by (simp add: signed_of_nat signed_take_bit_int_eq_self)

lemma head_blocks_bytes:
  assumes "length d = 512" and "length B \<le> 30"
  shows "head_blocks (head_bytes B d) = B"
  using assms by (intro nth_equalityI) (simp_all add: head_blocks_def head_bytes_get sint_small)

section \<open>The steps of a commit\<close>

definition logslot :: "u32 \<Rightarrow> nat \<Rightarrow> u32" where
  "logslot st j = st + of_nat j + 1"

lemma logslot_inj: "i < 32 \<Longrightarrow> j < 32 \<Longrightarrow> logslot st i = logslot st j \<longleftrightarrow> i = j"
  by (simp add: logslot_def word_of_nat_eq_iff take_bit_nat_eq_self)

lemma logslot_start: "j < 32 \<Longrightarrow> logslot st j \<noteq> st"
proof
  assume "j < 32" and "logslot st j = st"
  then have "of_nat (j + 1) = (0 :: u32)" by (simp add: logslot_def add.assoc add.commute)
  then show False using \<open>j < 32\<close> by (simp add: word_unat_eq_iff unat_of_nat flip: of_nat_Suc del: of_nat_add of_nat_Suc)
qed

abbreviation same :: "'a bio_state_scheme \<Rightarrow> 'a bio_state_scheme \<Rightarrow> (u32 \<times> u8 list) list \<Rightarrow> bool" where
  "same s t ws \<equiv> erase t = erase (wrote ws s)"

lemma log_erase: "log (erase s) = log s" "log (wrote ws s) = log s"
  by (simp_all add: erase_def wrote_def)

lemma same_log: "same s t ws \<Longrightarrow> log t = log s"
  by (metis log_erase)

lemma same_trans: "same s t ws \<Longrightarrow> same t u vs \<Longrightarrow> same s u (ws @ vs)"
  by (rule bc.frame_trans)

lemma sameD:
  assumes "same s t ws"
  shows "memdisk t = apply_writes ws (memdisk s)" "disksize t = disksize s" "written t = written s @ ws"
  using eraseD(1-3) [OF assms] by simp_all

text \<open>A transaction with the blocks \<open>B\<close>, whose log starts at block \<open>st\<close>.\<close>

definition logged :: "u32 \<Rightarrow> u32 list \<Rightarrow> 'a log_state_scheme \<Rightarrow> bool" where
  "logged st B s \<longleftrightarrow> lg_dev (log s) = 1 \<and> lg_start (log s) = st \<and> lg_n (log s) = int (length B) \<and>
     length (lg_block (log s)) = 30 \<and> take (length B) (lg_block (log s)) = B \<and>
     st < disksize s \<and> (\<forall>b\<in>set B. b < disksize s) \<and> (\<forall>j<length B. logslot st j < disksize s)"

lemma loggedD:
  assumes "logged st B s"
  shows "lg_dev (log s) = 1" "lg_start (log s) = st" "lg_n (log s) = int (length B)" "length (lg_block (log s)) = 30"
    "length B \<le> 30" "j < length B \<Longrightarrow> lg_block (log s) ! j = B ! j" "st < disksize s"
    "j < length B \<Longrightarrow> B ! j < disksize s" "j < length B \<Longrightarrow> logslot st j < disksize s"
  using assms unfolding logged_def by (auto dest: arg_cong [of _ _ length]) (metis nth_take)

lemma logged_same: "same s t ws \<Longrightarrow> logged st B t = logged st B s"
  using same_log [of t ws s] sameD(2) [of t ws s] by (simp add: logged_def)

text \<open>The blocks of the transaction lie outside of the log.\<close>

definition offlog :: "u32 \<Rightarrow> u32 list \<Rightarrow> bool" where
  "offlog st B \<longleftrightarrow> st \<notin> set B \<and> (\<forall>j<30. logslot st j \<notin> set B)"

lemma offlogD:
  assumes "offlog st B" and "length B \<le> 30" and "j < length B"
  shows "logslot st j \<notin> set B" "i < length B \<Longrightarrow> logslot st j \<noteq> B ! i" "i < length B \<Longrightarrow> B ! i \<noteq> logslot st j" "st \<notin> set B"
  using assms by (auto simp: offlog_def) (metis nth_mem order_less_le_trans)+

lemma log_block_ok:
  assumes g: "logged st B s" and a: "offlog st B" and r: "brep i s c (set B) Map.empty" and j: "j < length B"
    and room: "card (set B) < NBUF" and k: "0 < e_fuel k"
  shows "\<exists>t. log_block k j s = Inr t \<and> brep i t (c(logslot st j := c (B ! j))) (set B) Map.empty \<and>
     same s t [(logslot st j, c (B ! j))]"
proof -
  note G = loggedD [OF g]
  let ?m = "logslot st j" and ?n = "B ! j"
  have mn: "?m \<notin> set B" "?m \<noteq> ?n" using offlogD [OF a G(5) j] j by auto
  obtain x t y u v w where
    w: "bread k 1 ?m s = Inr (x, t)" "same s t []" "bread k 1 ?n t = Inr (y, u)"
      "bwrite x (set_buf x (\<lambda>z. z\<lparr>b_data := b_data (bufs u ! y)\<rparr>) u) = Inr v"
      "and_then (brelse y v) (brelse x) = Inr w" "brep i w (c(?m := c ?n)) (set B - {?m}) Map.empty"
      "same s w [(?m, c ?n)]"
    using bc.copy_first [where i = i and k = k, of s c "set B" ?m ?n] r k mn G(8,9) j room by auto
  have "log t = log s" using same_log [OF w(2)] .
  moreover have "set B - {?m} = set B" using mn by simp
  ultimately show ?thesis
    using w G(1,2,6) j unfolding log_block_def by (auto simp: logslot_def)
qed

text \<open>\<open>write_log\<close> copies every block of the transaction to its slot in the log.\<close>

definition log_writes :: "u32 \<Rightarrow> u32 list \<Rightarrow> (u32 \<Rightarrow> u8 list) \<Rightarrow> nat \<Rightarrow> (u32 \<times> u8 list) list" where
  "log_writes st B c m = map (\<lambda>j. (logslot st j, c (B ! j))) [0..<m]"

lemma apply_writes_other: "n \<notin> fst ` set ws \<Longrightarrow> apply_writes ws c n = c n"
  by (induction ws arbitrary: c) auto

lemma log_writes_dom: "fst ` set (log_writes st B c m) = logslot st ` {..<m}"
  by (simp add: log_writes_def image_image lessThan_atLeast0)

lemma log_writes_offlog:
  assumes "offlog st B" and "m \<le> length B" and "length B \<le> 30" and "j < length B"
  shows "apply_writes (log_writes st B c m) d (B ! j) = d (B ! j)"
  using assms by (intro apply_writes_other) (auto simp: log_writes_dom, metis offlogD(3) order_less_le_trans)

lemma write_log_ok:
  assumes g: "logged st B s" and a: "offlog st B" and r: "brep i s c (set B) Map.empty"
    and room: "card (set B) < NBUF" and k: "0 < e_fuel k" and m: "m \<le> length B"
  shows "\<exists>t. for_each (log_block k) [0..<m] s = Inr t \<and>
     brep i t (apply_writes (log_writes st B c m) c) (set B) Map.empty \<and> same s t (log_writes st B c m)"
  using m
proof (induction m)
  case 0
  then show ?case using r by (simp add: log_writes_def)
next
  case (Suc m)
  then obtain t where t: "for_each (log_block k) [0..<m] s = Inr t"
      "brep i t (apply_writes (log_writes st B c m) c) (set B) Map.empty" "same s t (log_writes st B c m)" by auto
  have gt: "logged st B t" using g logged_same [OF t(3)] by blast
  have e: "apply_writes (log_writes st B c m) c (B ! m) = c (B ! m)"
    using Suc.prems loggedD(5) [OF g] by (intro log_writes_offlog a) auto
  obtain u where u: "log_block k m t = Inr u"
      "brep i u ((apply_writes (log_writes st B c m) c)(logslot st m := c (B ! m))) (set B) Map.empty"
      "same t u [(logslot st m, c (B ! m))]"
    using log_block_ok [OF gt a t(2) _ room k, of m] Suc.prems by (auto simp: e)
  have l: "log_writes st B c (Suc m) = log_writes st B c m @ [(logslot st m, c (B ! m))]"
    by (simp add: log_writes_def)
  have "for_each (log_block k) [0..<Suc m] s = Inr u" using t(1) u(1) by (simp add: for_each_append)
  then show ?case using u(2) same_trans [OF t(3) u(3)] by (auto simp: l simp del: upt_Suc fun_upd_apply)
qed

text \<open>\<open>install_trans\<close> copies the slots of the log to their blocks.\<close>

lemma install_block_ok:
  assumes g: "logged st B s" and a: "offlog st B" and r: "brep i s c P Map.empty" and j: "j < length B"
    and room: "card P < NBUF" "B ! j \<in> P \<or> card (insert (logslot st j) P) < NBUF" and k: "0 < e_fuel k"
  shows "\<exists>t. install_block k j s = Inr t \<and> brep i t (c(B ! j := c (logslot st j))) (P - {B ! j}) Map.empty \<and>
     same s t [(B ! j, c (logslot st j))]"
proof -
  note G = loggedD [OF g]
  let ?m = "logslot st j" and ?n = "B ! j"
  have mn: "?m \<noteq> ?n" using offlogD [OF a G(5) j] j by auto
  obtain x t y u v w where
    w: "bread k 1 ?m s = Inr (x, t)" "same s t []" "bread k 1 ?n t = Inr (y, u)"
      "bwrite y (set_buf y (\<lambda>z. z\<lparr>b_data := b_data (bufs u ! x)\<rparr>) u) = Inr v"
      "and_then (brelse x v) (brelse y) = Inr w" "brep i w (c(?n := c ?m)) (P - {?n}) Map.empty"
      "same s w [(?n, c ?m)]"
    using bc.copy_second [where i = i and k = k, of s c P ?m ?n] r k mn G(8,9) j room by auto
  have "log t = log s" using same_log [OF w(2)] .
  then show ?thesis
    using w G(1,2,6) j unfolding install_block_def by (auto simp: logslot_def)
qed

text \<open>Two ways to use it: for a commit the blocks are pinned, for recovery nothing is.\<close>

definition install_writes :: "u32 \<Rightarrow> u32 list \<Rightarrow> (u32 \<Rightarrow> u8 list) \<Rightarrow> nat \<Rightarrow> (u32 \<times> u8 list) list" where
  "install_writes st B c m = map (\<lambda>j. (B ! j, c (logslot st j))) [0..<m]"

lemma install_writes_slot:
  assumes "offlog st B" and "m \<le> length B" and "length B \<le> 30" and "j < 30"
  shows "apply_writes (install_writes st B c m) d (logslot st j) = d (logslot st j)"
  using assms by (intro apply_writes_other) (auto simp: install_writes_def offlog_def)

lemma install_trans_ok:
  assumes g: "logged st B s" and a: "offlog st B" and r: "brep i s c P Map.empty"
    and room: "card P < NBUF" "P = {} \<or> P = set B \<and> distinct B" and k: "0 < e_fuel k" and m: "m \<le> length B"
  shows "\<exists>t. for_each (install_block k) [0..<m] s = Inr t \<and>
     brep i t (apply_writes (install_writes st B c m) c) (P - set (take m B)) Map.empty \<and>
     same s t (install_writes st B c m)"
  using m
proof (induction m)
  case 0
  then show ?case using r by (simp add: install_writes_def)
next
  case (Suc m)
  let ?c = "apply_writes (install_writes st B c m) c" and ?P = "P - set (take m B)"
  from Suc obtain t where t: "for_each (install_block k) [0..<m] s = Inr t"
      "brep i t ?c ?P Map.empty" "same s t (install_writes st B c m)" by auto
  have gt: "logged st B t" using g logged_same [OF t(3)] by blast
  have e: "?c (logslot st m) = c (logslot st m)"
    using Suc.prems loggedD(5) [OF g] by (intro install_writes_slot a) auto
  have fin: "finite P" using room(2) by auto
  have cd: "card ?P < NBUF" using card_mono [of P ?P] fin room(1) by auto
  have bm: "distinct B \<Longrightarrow> B ! m \<notin> set (take m B)" using Suc.prems by (auto simp: in_set_conv_nth nth_eq_iff_index_eq)
  have "B ! m \<in> ?P \<or> card (insert (logslot st m) ?P) < NBUF" using room(2) Suc.prems bm by auto
  then obtain u where u: "install_block k m t = Inr u"
      "brep i u (?c(B ! m := c (logslot st m))) (?P - {B ! m}) Map.empty" "same t u [(B ! m, c (logslot st m))]"
    using install_block_ok [OF gt a t(2) _ cd _ k, of m] Suc.prems by (auto simp: e)
  have l: "install_writes st B c (Suc m) = install_writes st B c m @ [(B ! m, c (logslot st m))]"
    by (simp add: install_writes_def)
  have p: "P - set (take (Suc m) B) = ?P - {B ! m}" using Suc.prems by (auto simp: take_Suc_conv_app_nth)
  have "for_each (install_block k) [0..<Suc m] s = Inr u" using t(1) u(1) by (simp add: for_each_append)
  then show ?case using u(2) same_trans [OF t(3) u(3)] by (auto simp: l p simp del: upt_Suc fun_upd_apply)
qed

text \<open>\<open>write_head\<close> stores the list of blocks in the header.\<close>

lemma write_head_ok:
  assumes g: "logged st B s" and r: "brep i s c P Map.empty" and st: "st \<notin> P"
    and room: "card P < NBUF" and k: "0 < e_fuel k"
  shows "\<exists>t. write_head k s = Inr t \<and> brep i t (c(st := head_bytes B (c st))) P Map.empty \<and>
     same s t [(st, head_bytes B (c st))]"
proof -
  note G = loggedD [OF g]
  obtain b t u v where w: "bread k 1 st s = Inr (b, t)" "b_data (bufs t ! b) = c st" "same s t []"
      "bwrite b (set_buf b (\<lambda>x. x\<lparr>b_data := head_bytes B (c st)\<rparr>) t) = Inr u" "brelse b u = Inr v"
      "brep i v (c(st := head_bytes B (c st))) (P - {st}) Map.empty" "same s v [(st, head_bytes B (c st))]"
    using bc.store [where i = i and k = k, of s c P st "head_bytes B (c st)"] r k room G(7) by auto
  have lt: "log t = log s" using same_log [OF w(3)] .
  have f: "fold (\<lambda>i d. put32 d (4 + 4 * i) (lg_block (log s) ! i)) [0..<length B] d0 =
      fold (\<lambda>i d. put32 d (4 + 4 * i) (B ! i)) [0..<length B] d0" for d0
    by (rule fold_cong) (use G(6) in auto)
  let ?t = "set_buf b (\<lambda>x. x\<lparr>b_data := fold (\<lambda>i d. put32 d (4 + 4 * i) (lg_block (log t) ! i)) [0..<nat (lg_n (log t))]
      (put32 (b_data x) 0 (word_of_int (lg_n (log t))))\<rparr>) t"
  have "?t = set_buf b (\<lambda>x. x\<lparr>b_data := head_bytes B (c st)\<rparr>) t"
    unfolding set_buf_def by (simp add: lt G(3) f w(2) head_bytes_def)
  then show ?thesis
    using w G(1,2) st by (simp add: write_head_def Let_def)
qed

section \<open>Commit\<close>

lemma set_log_simps [simp]:
  "bufs (set_log f s) = bufs s" "memdisk (set_log f s) = memdisk s" "sleeplocks (set_log f s) = sleeplocks s"
  "procs (set_log f s) = procs s" "disksize (set_log f s) = disksize s" "written (set_log f s) = written s"
  "log (set_log f s) = f (log s)" "set_log f (set_log g s) = set_log (\<lambda>x. f (g x)) s"
  by (simp_all add: set_log_def)

lemma calm_set_log [simp]: "calm i s \<Longrightarrow> calm i (set_log f s)"
  by (simp add: set_log_def calm_def unwaited_def)

lemma brep_set_log [simp]: "brep i s c P h \<Longrightarrow> brep i (set_log f s) c P h"
  by (simp add: brep_def)

lemma enter_set_log [simp]: "enter l (set_log f s) = set_log f (enter l s)"
  by (simp add: set_log_def)

lemma set_log_erase: "erase (set_log f s) = set_log f (erase s)" "wrote ws (set_log f s) = set_log f (wrote ws s)"
  by (simp_all add: set_log_def wrote_def erase_def cong: slid.case_cong)

lemma same_set_log: "same s t ws \<Longrightarrow> same (set_log f s) (set_log f t) ws"
  by (simp add: set_log_erase)

definition commit_writes :: "u32 \<Rightarrow> u32 list \<Rightarrow> (u32 \<Rightarrow> u8 list) \<Rightarrow> (u32 \<times> u8 list) list" where
  "commit_writes st B c =
     log_writes st B c (length B) @ [(st, head_bytes B (c st))] @ map (\<lambda>b. (b, c b)) B @
     [(st, head_bytes [] (head_bytes B (c st)))]"

lemma logged_empty: "logged st B s \<Longrightarrow> logged st [] (set_log (\<lambda>g. g\<lparr>lg_n := 0\<rparr>) s)"
  by (simp add: logged_def)

lemma log_writes_at:
  assumes "length B \<le> 30" and "j < length B"
  shows "apply_writes (log_writes st B c (length B)) d (logslot st j) = c (B ! j)"
proof -
  have "\<lbrakk>m \<le> length B; j < m\<rbrakk> \<Longrightarrow> apply_writes (log_writes st B c m) d (logslot st j) = c (B ! j)" for m
  proof (induction m)
    case (Suc m)
    then show ?case using assms(1) by (cases "j = m") (auto simp: log_writes_def logslot_inj)
  qed simp
  then show ?thesis using assms(2) by simp
qed

lemma log_writes_start:
  assumes "length B \<le> 30"
  shows "apply_writes (log_writes st B c (length B)) d st = d st"
proof (rule apply_writes_other)
  show "st \<notin> fst ` set (log_writes st B c (length B))"
  proof
    assume "st \<in> fst ` set (log_writes st B c (length B))"
    then obtain j where "j < length B" "logslot st j = st" by (auto simp: log_writes_dom)
    then show False using logslot_start [of j st] assms by simp
  qed
qed

lemma commit_ok:
  assumes g: "logged st B s" and a: "offlog st B" and r: "brep i s c (set B) Map.empty" and d: "distinct B"
    and room: "length B < NBUF" "B \<noteq> []" and k: "0 < e_fuel k"
  shows "\<exists>t. commit k s = Inr t \<and> brep i t (apply_writes (commit_writes st B c) c) {} Map.empty \<and>
     same (set_log (\<lambda>g. g\<lparr>lg_n := 0\<rparr>) s) t (commit_writes st B c)"
proof -
  note G = loggedD [OF g]
  let ?n = "length B" and ?lw = "log_writes st B c (length B)" and ?hb = "head_bytes B (c st)"
  let ?iw = "map (\<lambda>b. (b, c b)) B" and ?z = "set_log (\<lambda>g. g\<lparr>lg_n := 0\<rparr>)"
  have cd: "card (set B) < NBUF" using room(1) card_length le_less_trans by blast
  have sB: "st \<notin> set B" using a by (simp add: offlog_def)
  obtain t1 where t1: "write_log k s = Inr t1" "brep i t1 (apply_writes ?lw c) (set B) Map.empty" "same s t1 ?lw"
    using write_log_ok [OF g a r cd k] G(3) by (auto simp: write_log_def)
  have g1: "logged st B t1" using g logged_same [OF t1(3)] by blast
  obtain t2 where t2: "write_head k t1 = Inr t2" "brep i t2 ((apply_writes ?lw c)(st := ?hb)) (set B) Map.empty"
      "same t1 t2 [(st, ?hb)]"
    using write_head_ok [OF g1 t1(2) sB cd k] log_writes_start [of B st c c] G(5) by auto
  have g2: "logged st B t2" using g1 logged_same [OF t2(3)] by blast
  let ?c2 = "(apply_writes ?lw c)(st := ?hb)"
  have iw: "install_writes st B ?c2 ?n = ?iw"
    using G(5) by (intro nth_equalityI) (auto simp: install_writes_def log_writes_at logslot_start)
  obtain t3 where t3: "install_trans k t2 = Inr t3" "brep i t3 (apply_writes ?iw ?c2) {} Map.empty" "same t2 t3 ?iw"
    using install_trans_ok [OF g2 a t2(2) cd _ k, of ?n] d loggedD(3) [OF g2] by (auto simp: install_trans_def iw)
  have g3: "logged st [] (?z t3)" using g2 logged_same [OF t3(3)] logged_empty by blast
  have st3: "apply_writes ?iw ?c2 st = ?hb" using sB by (subst apply_writes_other) auto
  have r3: "brep i (?z t3) (apply_writes ?iw ?c2) {} Map.empty" using t3(2) by simp
  obtain t4 where t4: "write_head k (?z t3) = Inr t4"
      "brep i t4 ((apply_writes ?iw ?c2)(st := head_bytes [] ?hb)) {} Map.empty" "same (?z t3) t4 [(st, head_bytes [] ?hb)]"
    using write_head_ok [OF g3 r3 _ _ k] by (auto simp: st3)
  have "same s t3 (?lw @ [(st, ?hb)] @ ?iw)" using same_trans [OF same_trans [OF t1(3) t2(3)] t3(3)] by simp
  then have "same (?z s) t4 (commit_writes st B c)"
    using same_trans [OF same_set_log t4(3)] by (simp add: commit_writes_def)
  moreover have "commit k s = Inr t4"
    using G(3) room(2) t1(1) t2(1) t3(1) t4(1) by (simp add: commit_def)
  moreover have "(apply_writes ?iw ?c2)(st := head_bytes [] ?hb) = apply_writes (commit_writes st B c) c"
    by (simp add: commit_writes_def)
  ultimately show ?thesis using t4(2) by (simp del: fun_upd_apply)
qed

section \<open>Recovery\<close>

text \<open>What recovery makes of a disk: the logged blocks are installed, the header is emptied.\<close>

definition recovered :: "u32 \<Rightarrow> (u32 \<Rightarrow> u8 list) \<Rightarrow> u32 \<Rightarrow> u8 list" where
  "recovered st d =
     (let B = head_blocks (d st)
      in (apply_writes (install_writes st B d (length B)) d)(st := head_bytes [] (d st)))"

definition at_boot :: "u32 \<Rightarrow> 'a log_state_scheme \<Rightarrow> bool" where
  "at_boot st s \<longleftrightarrow> lg_dev (log s) = 1 \<and> lg_start (log s) = st \<and> length (lg_block (log s)) = 30 \<and> st < disksize s"

text \<open>A disk whose header is in order: a list of at most 30 blocks outside of the log, in range.\<close>

definition head_ok :: "u32 \<Rightarrow> 'a bio_state_scheme \<Rightarrow> u8 list \<Rightarrow> bool" where
  "head_ok st s d \<longleftrightarrow> 0 \<le> sint (get32 d 0) \<and> sint (get32 d 0) \<le> 30 \<and> offlog st (head_blocks d) \<and>
     (\<forall>b\<in>set (head_blocks d). b < disksize s) \<and> (\<forall>j<length (head_blocks d). logslot st j < disksize s)"

lemma read_head_ok:
  assumes b: "at_boot st s" and r: "brep i s c {} Map.empty" and h: "head_ok st s (c st)" and k: "0 < e_fuel k"
  shows "\<exists>t. read_head k s = Inr t \<and> brep i t c {} Map.empty \<and> logged st (head_blocks (c st)) t \<and>
     memdisk t = memdisk s \<and> disksize t = disksize s \<and> written t = written s"
proof -
  have B: "lg_dev (log s) = 1" "lg_start (log s) = st" "length (lg_block (log s)) = 30" "st < disksize s"
    using b by (simp_all add: at_boot_def)
  let ?d = "c st" and ?n = "sint (get32 (c st) 0)"
  have n: "0 \<le> ?n" "?n \<le> 30" using h by (simp_all add: head_ok_def)
  obtain x t where t: "bread k 1 st s = Inr (x, t)" "brep i t c {} [x \<mapsto> st]" "same s t []"
    using bc.rd_ok [where i = i and k = k, of s c "{}" Map.empty st] r k B(4) by auto
  have dx: "b_data (bufs t ! x) = ?d" using brep_held(4) [OF t(2)] by simp
  let ?f = "\<lambda>g. g\<lparr>lg_n := ?n, lg_block := map (\<lambda>i. if int i < ?n then get32 ?d (4 + 4 * i) else lg_block g ! i)
      [0..<length (lg_block g)]\<rparr>"
  have lt: "log t = log s" using same_log [OF t(3)] .
  have rt: "brep i (set_log ?f t) c {} [x \<mapsto> st]" using t(2) by simp
  have cl: "c st = memdisk (set_log ?f t) st" using brepD(8) [OF r, of st] eraseD(1) [OF t(3)] by simp
  obtain u where u: "brelse x (set_log ?f t) = Inr u" "brep i u c {} Map.empty" "same (set_log ?f t) u []"
    using bc.rel_ok [where i = i and k = k, OF conjI [OF rt k], of x st] cl by auto
  have lu: "log u = ?f (log s)" using same_log [OF u(3)] lt by simp
  have "length (head_blocks ?d) = nat ?n" by (simp add: head_blocks_def)
  moreover have "take (nat ?n) (lg_block (log u)) = head_blocks ?d"
    using n B(3) by (intro nth_equalityI) (auto simp: lu head_blocks_def)
  moreover have sz: "disksize u = disksize s" using eraseD(2) [OF u(3)] eraseD(2) [OF t(3)] by simp
  ultimately have "logged st (head_blocks ?d) u"
    using h n B by (simp add: logged_def lu head_ok_def)
  moreover have "read_head k s = Inr u"
    using t(1) u(1) B n by (simp add: read_head_def lt dx Let_def cong: if_cong)
  moreover have "memdisk u = memdisk s" "written u = written s"
    using eraseD(1,3) [OF u(3)] eraseD(1,3) [OF t(3)] by simp_all
  ultimately show ?thesis using u(2) sz by blast
qed

lemma install_writes_dom: "fst ` set (install_writes st B c (length B)) = set B"
proof -
  have "map fst (install_writes st B c (length B)) = B" by (simp add: install_writes_def comp_def map_nth)
  then show ?thesis by (metis set_map)
qed

lemma recover_ok:
  assumes b: "at_boot st s" and r: "brep i s (memdisk s) {} Map.empty" and h: "head_ok st s (memdisk s st)" and k: "0 < e_fuel k"
  shows "\<exists>t. recover_from_log k s = Inr t \<and> memdisk t = recovered st (memdisk s) \<and>
     brep i t (recovered st (memdisk s)) {} Map.empty \<and> lg_n (log t) = 0"
proof -
  let ?d = "memdisk s" and ?B = "head_blocks (memdisk s st)" and ?z = "set_log (\<lambda>g. g\<lparr>lg_n := 0\<rparr>)"
  have a: "offlog st ?B" using h by (simp add: head_ok_def)
  then have sB: "st \<notin> set ?B" by (simp add: offlog_def)
  obtain t where t: "read_head k s = Inr t" "brep i t ?d {} Map.empty" "logged st ?B t" "memdisk t = memdisk s"
    using read_head_ok [OF b r h k] by auto
  let ?iw = "install_writes st ?B ?d (length ?B)"
  obtain u where u: "install_trans k t = Inr u" "brep i u (apply_writes ?iw ?d) {} Map.empty" "same t u ?iw"
    using install_trans_ok [OF t(3) a t(2) _ _ k, of "length ?B"] loggedD(3) [OF t(3)] by (auto simp: install_trans_def)
  have g: "logged st [] (?z u)" using t(3) logged_same [OF u(3)] logged_empty by blast
  have "apply_writes ?iw ?d st = ?d st" using sB by (intro apply_writes_other) (simp add: install_writes_dom)
  then obtain v where v: "write_head k (?z u) = Inr v"
      "brep i v ((apply_writes ?iw ?d)(st := head_bytes [] (?d st))) {} Map.empty"
      "same (?z u) v [(st, head_bytes [] (?d st))]"
    using write_head_ok [OF g brep_set_log [OF u(2)] _ _ k] by auto
  have "memdisk v = recovered st ?d"
    using sameD(1) [OF v(3)] sameD(1) [OF u(3)] t(4) by (simp add: recovered_def Let_def)
  moreover have "recover_from_log k s = Inr v" using t(1) u(1) v(1) by (simp add: recover_from_log_def)
  moreover have "brep i v (recovered st ?d) {} Map.empty" using v(2) by (simp only: recovered_def Let_def)
  moreover have "lg_n (log v) = 0" using same_log [OF v(3)] by simp
  ultimately show ?thesis by blast
qed

section \<open>Crashes\<close>

lemma apply_self: "apply_writes (map (\<lambda>b. (b, c b)) B) d n = (if n \<in> set B then c n else d n)"
  by (induction B arbitrary: d) auto

definition off_area :: "u32 \<Rightarrow> u32 \<Rightarrow> bool" where
  "off_area st n \<longleftrightarrow> n \<noteq> st \<and> (\<forall>j<30. n \<noteq> logslot st j)"

lemma fst_take: "fst ` set (take m ws) \<subseteq> fst ` set ws"
  using set_take_subset by fastforce

text \<open>Before the header is written the log is empty as far as recovery can tell.\<close>

lemma recovered_empty:
  assumes "get32 (d st) 0 = 0" and "n \<noteq> st"
  shows "recovered st d n = d n" "head_blocks (d st) = []"
  using assms by (simp_all add: recovered_def head_blocks_def install_writes_def)

text \<open>Once it is written recovery installs the whole transaction.\<close>

lemma recovered_full:
  assumes "d st = head_bytes B x" and "length x = 512" and "length B \<le> 30" and "n \<noteq> st"
    and "\<And>j. j < length B \<Longrightarrow> d (logslot st j) = c (B ! j)"
  shows "recovered st d n = (if n \<in> set B then c n else d n)"
proof -
  have "install_writes st B d (length B) = map (\<lambda>b. (b, c b)) B"
    using assms(5) by (intro nth_equalityI) (auto simp: install_writes_def)
  then show ?thesis
    using assms(1-4) by (simp add: recovered_def head_blocks_bytes apply_self)
qed

text \<open>The disk after the first \<open>m\<close> writes of a commit, seen through the log.\<close>

lemma crash_disk:
  assumes d: "\<And>n. n \<notin> set B \<Longrightarrow> c n = d n" and a: "offlog st B" and l: "length B \<le> 30"
    and z: "get32 (d st) 0 = 0" "length (d st) = 512" and n: "off_area st n"
  defines "dm m \<equiv> apply_writes (take m (commit_writes st B c)) d"
  shows "recovered st (dm m) n = (if m \<le> length B then d n else c n)"
    and "head_blocks (dm m st) = (if length B < m \<and> m < 2 * length B + 2 then B else [])"
    and "0 \<le> sint (get32 (dm m st) 0) \<and> sint (get32 (dm m st) 0) \<le> 30"
proof -
  let ?lw = "log_writes st B c (length B)" and ?hb = "head_bytes B (d st)" and ?iw = "map (\<lambda>b. (b, c b)) B"
  have "n \<noteq> logslot st j" if "j < length B" for j using n l that by (simp add: off_area_def)
  then have ns: "n \<noteq> st" "n \<notin> logslot st ` {..<length B}" using n by (auto simp: off_area_def)
  have "st \<noteq> logslot st j" if "j < length B" for j using logslot_start [of j st] l that by simp
  then have ss: "st \<notin> logslot st ` {..<length B}" by auto
  have lwn: "apply_writes (log_writes st B c (length B)) d n = d n"
    by (rule apply_writes_other) (use ns(2) in \<open>simp only: log_writes_dom not_False_eq_True\<close>)
  have sB: "st \<notin> set B" using a by (simp add: offlog_def)
  have cs: "c st = d st" using d sB by blast
  have cw: "commit_writes st B c = ?lw @ [(st, ?hb)] @ ?iw @ [(st, head_bytes [] ?hb)]" by (simp add: commit_writes_def cs)
  have ll: "length ?lw = length B" by (simp add: log_writes_def)
  note H = head_bytes_get [OF z(2) l] and H0 = head_bytes_get [of ?hb "[]"]
  let ?R = "recovered st (dm m) n = (if m \<le> length B then d n else c n) \<and>
    head_blocks (dm m st) = (if length B < m \<and> m < 2 * length B + 2 then B else []) \<and>
    0 \<le> sint (get32 (dm m st) 0) \<and> sint (get32 (dm m st) 0) \<le> 30"
  have "m \<le> length B \<or> (\<exists>j. m = length B + 1 + j \<and> j \<le> length B) \<or> 2 * length B + 2 \<le> m" by presburger
  then consider (log) "m \<le> length B" | (inst) j where "m = length B + 1 + j" "j \<le> length B" | (all) "2 * length B + 2 \<le> m"
    by blast
  then have ?R
  proof cases
    case log
    then have dm: "dm m = apply_writes (take m ?lw) d" by (simp add: dm_def cw ll)
    have st: "dm m st = d st"
      unfolding dm using fst_take [of m ?lw] ss by (intro apply_writes_other) (auto simp: log_writes_dom)
    have "dm m n = d n" unfolding dm using fst_take [of m ?lw] ns by (intro apply_writes_other) (auto simp: log_writes_dom)
    then show ?thesis using recovered_empty [of "dm m" st n] st z ns log by (simp add: head_blocks_def)
  next
    case (inst j)
    then have dm: "dm m = apply_writes (take j ?iw) ((apply_writes ?lw d)(st := ?hb))" by (simp add: dm_def cw ll)
    have ti: "take j ?iw = map (\<lambda>b. (b, c b)) (take j B)" by (simp add: take_map)
    have v: "dm m x = (if x \<in> set (take j B) then c x else if x = st then ?hb else apply_writes ?lw d x)" for x
      by (simp add: dm ti apply_self)
    have st: "dm m st = ?hb" using sB in_set_takeD by (fastforce simp: v)
    have slot: "dm m (logslot st i) = c (B ! i)" if "i < length B" for i
      using that offlogD [OF a l that] l in_set_takeD [of "logslot st i" j B] logslot_start [of i st]
      by (auto simp: v log_writes_at)
    have "dm m n = d n" if "n \<notin> set B"
      using that ns(1) in_set_takeD [of n j B] by (auto simp: v lwn)
    moreover have "\<not> m \<le> length B" "length B < m" "m < 2 * length B + 2" using inst by simp_all
    ultimately show ?thesis
      using recovered_full [OF st z(2) l ns(1) slot] d [of n] head_blocks_bytes [OF z(2) l] H(2) sint_small [OF l] l
      by (auto simp: st)
  next
    case all
    have "length (commit_writes st B c) = 2 * length B + 2" by (simp add: cw ll)
    then have dm: "dm m = (apply_writes ?iw ((apply_writes ?lw d)(st := ?hb)))(st := head_bytes [] ?hb)"
      using all by (simp add: dm_def cw)
    have "dm m n = c n"
      using ns(1) d [of n] by (auto simp: dm apply_self lwn)
    then show ?thesis using recovered_empty [of "dm m" st n] ns H H0 all by (simp add: dm head_blocks_def)
  qed
  then show "recovered st (dm m) n = (if m \<le> length B then d n else c n)"
    "head_blocks (dm m st) = (if length B < m \<and> m < 2 * length B + 2 then B else [])"
    "0 \<le> sint (get32 (dm m st) 0) \<and> sint (get32 (dm m st) 0) \<le> 30" by blast+
qed

section \<open>Transactions\<close>

text \<open>The bookkeeping of the log that \<open>begin_op\<close> and \<open>end_op\<close> keep, and a log at rest.\<close>

lemma release_set_log: "calm i s \<Longrightarrow> release L_log (set_log f (enter L_log s)) = Inr (set_log f s)"
  using release_calm [of i "set_log f s" L_log] by simp

lemma wakeup_set_log: "calm i s \<Longrightarrow> wakeup Ch_log (set_log f (enter L_log s)) = Inr (set_log f (enter L_log s))"
  using wakeup_enter_calm [of i "set_log f s" Ch_log L_log] calmD(7) [of i "set_log f s"] by simp

lemma begin_op_ok:
  assumes "calm i s" and "0 < e_fuel k" and "\<not> lg_committing (log s)"
    and "lg_n (log s) + (lg_outstanding (log s) + 1) * MAXOPBLOCKS \<le> LOGSIZE"
  shows "begin_op k s = Inr (set_log (\<lambda>g. g\<lparr>lg_outstanding := lg_outstanding g + 1\<rparr>) s)"
proof -
  obtain n where "e_fuel k = Suc n" using assms(2) by (cases "e_fuel k") simp_all
  then show ?thesis
    using assms by (simp add: begin_op_def acquire_calm release_set_log Let_def)
qed

definition note_block :: "u32 \<Rightarrow> u32 list \<Rightarrow> u32 list" where
  "note_block n B = (if n \<in> set B then B else B @ [n])"

lemma set_note_block [simp]: "set (note_block n B) = insert n (set B)"
  by (auto simp: note_block_def)

lemma distinct_note_block: "distinct B \<Longrightarrow> distinct (note_block n B)"
  by (simp add: note_block_def)

lemma log_write_eq:
  assumes c: "calm i s" and o: "1 \<le> lg_outstanding (log s)" and l: "lg_n (log s) < LOGSIZE" "lg_n (log s) < lg_size (log s) - 1"
    and j: "j = (case find (\<lambda>i. lg_block (log s) ! i = b_blockno (bufs s ! b)) [0..<nat (lg_n (log s))] of
                   Some i \<Rightarrow> i | None \<Rightarrow> nat (lg_n (log s)))"
  shows "log_write b s = Inr (set_buf b (\<lambda>x. x\<lparr>b_flags := b_flags x OR 4\<rparr>) (set_log (\<lambda>g.
     g\<lparr>lg_block := (lg_block g)[j := b_blockno (bufs s ! b)], lg_n := (if int j = lg_n g then lg_n g + 1 else lg_n g)\<rparr>) s))"
    (is "_ = Inr (set_buf b ?d (set_log ?f s))")
proof -
  have rel: "release L_log (set_buf b ?d (set_log f (enter L_log s))) = Inr (set_buf b ?d (set_log f s))" for f
    using release_calm [of i "set_buf b ?d (set_log f s)" L_log] c by (simp flip: enter_set_log)
  show ?thesis
  proof (cases "int j = lg_n (log s)")
    case True
    let ?g = "\<lambda>g. g\<lparr>lg_block := (lg_block g)[j := b_blockno (bufs s ! b)], lg_n := lg_n g + 1\<rparr>"
    have "log_write b s = Inr (set_buf b ?d (set_log ?g s))"
      using o l c True by (simp add: log_write_def acquire_calm Let_def rel flip: j cong: option.case_cong)
    moreover have "set_log ?g s = set_log ?f s" using True by (simp add: set_log_def)
    ultimately show ?thesis by simp
  next
    case False
    let ?g = "\<lambda>g. g\<lparr>lg_block := (lg_block g)[j := b_blockno (bufs s ! b)]\<rparr>"
    have "log_write b s = Inr (set_buf b ?d (set_log ?g s))"
      using o l c False by (simp add: log_write_def acquire_calm Let_def rel flip: j cong: option.case_cong)
    moreover have "set_log ?g s = set_log ?f s" using False by (simp add: set_log_def)
    ultimately show ?thesis by simp
  qed
qed

text \<open>\<open>log_write\<close> appends the block to the list, once, and pins it.\<close>

lemma log_write_ok:
  assumes g: "logged st B s" and r: "brep i s c P h" and h: "h b = Some n" and o: "1 \<le> lg_outstanding (log s)"
    and l: "length B < 30" "int (length B) < lg_size (log s) - 1" and n: "n < disksize s" "logslot st (length B) < disksize s"
  shows "\<exists>f. log_write b s = Inr (set_buf b (\<lambda>x. x\<lparr>b_flags := b_flags x OR 4\<rparr>) (set_log f s)) \<and>
     logged st (note_block n B) (set_log f s) \<and> lg_outstanding (f (log s)) = lg_outstanding (log s) \<and>
     lg_committing (f (log s)) = lg_committing (log s) \<and> lg_size (f (log s)) = lg_size (log s)"
proof -
  note G = loggedD [OF g] and H = brep_held [OF r h] and C = brepD(1) [OF r]
  define j where "j = (case find (\<lambda>i. lg_block (log s) ! i = n) [0..<length B] of Some i \<Rightarrow> i | None \<Rightarrow> length B)"
  let ?f = "\<lambda>g. g\<lparr>lg_block := (lg_block g)[j := n], lg_n := (if int j = lg_n g then lg_n g + 1 else lg_n g)\<rparr>"
  have t: "take (length B) (lg_block (log s)) = B" using g by (simp add: logged_def)
  have "logged st (note_block n B) (set_log ?f s)"
  proof (cases "n \<in> set B")
    case True
    then obtain i where i: "find (\<lambda>i. lg_block (log s) ! i = n) [0..<length B] = Some i"
      using G(6) by (cases "find (\<lambda>i. lg_block (log s) ! i = n) [0..<length B]") (auto simp: find_None_iff in_set_conv_nth)
    then have "i < length B" "lg_block (log s) ! i = n" by (auto simp: find_Some_iff)
    then have "(lg_block (log s))[j := n] = lg_block (log s)" "j \<noteq> length B"
      using i by (auto simp: j_def)
    then show ?thesis using True g by (simp add: logged_def note_block_def)
  next
    case False
    then have "find (\<lambda>i. lg_block (log s) ! i = n) [0..<length B] = None"
      using G(6) by (auto simp: find_None_iff in_set_conv_nth)
    then have j: "j = length B" by (simp add: j_def)
    have "take (Suc (length B)) ((lg_block (log s))[length B := n]) = B @ [n]"
      using l(1) G(4) t by (simp add: take_Suc_conv_app_nth take_update_cancel)
    then show ?thesis using False g j n G by (auto simp: logged_def note_block_def less_Suc_eq)
  qed
  moreover have "j = (case find (\<lambda>i. lg_block (log s) ! i = b_blockno (bufs s ! b)) [0..<nat (lg_n (log s))] of
                   Some i \<Rightarrow> i | None \<Rightarrow> nat (lg_n (log s)))"
    using G(3) H(3) by (simp add: j_def cong: option.case_cong)
  with log_write_eq [OF C o, of j b] l G(3) H(3)
  have "log_write b s = Inr (set_buf b (\<lambda>x. x\<lparr>b_flags := b_flags x OR 4\<rparr>) (set_log ?f s))" by simp
  ultimately show ?thesis by (intro exI [of _ ?f]) simp
qed

text \<open>One block update inside a transaction, as \<open>writei\<close>, \<open>iupdate\<close>, \<open>balloc\<close> and the others do it.\<close>

definition log_update ::
    "'a log_state_scheme env \<Rightarrow> u32 \<times> u8 list \<Rightarrow> 'a log_state_scheme \<Rightarrow> ('a log_state_scheme) outcome" where
  "log_update k = (\<lambda>(n, d) s.
     and_then (bread k 1 n s) (\<lambda>(b, s).
     and_then (log_write b (set_buf b (\<lambda>x. x\<lparr>b_data := d\<rparr>) s)) (brelse b)))"

definition transaction ::
    "'a log_state_scheme env \<Rightarrow> (u32 \<times> u8 list) list \<Rightarrow> 'a log_state_scheme \<Rightarrow> ('a log_state_scheme) outcome" where
  "transaction k ops s =
     and_then (begin_op k s) (\<lambda>s. and_then (for_each (log_update k) ops s) (end_op k))"

definition touched :: "(u32 \<times> u8 list) list \<Rightarrow> u32 list \<Rightarrow> u32 list" where
  "touched ops B = fold (\<lambda>(n, d). note_block n) ops B"

lemma touched_simps [simp]:
  "touched [] B = B" "touched ((n, d) # ops) B = touched ops (note_block n B)"
  by (simp_all add: touched_def)

lemma set_touched: "set (touched ops B) = set B \<union> fst ` set ops"
  by (induction ops arbitrary: B) (auto simp: touched_def)

lemma distinct_touched: "distinct B \<Longrightarrow> distinct (touched ops B)"
  by (induction ops arbitrary: B) (auto simp: touched_def distinct_note_block)

lemma length_touched: "length B \<le> length (touched ops B)"
proof (induction ops arbitrary: B)
  case (Cons x ops)
  have "length B \<le> length (note_block (fst x) B)" by (simp add: note_block_def)
  also have "\<dots> \<le> length (touched ops (note_block (fst x) B))" by (rule Cons.IH)
  finally show ?case by (cases x) simp
qed simp

text \<open>The state of the log while a transaction of this process is open.\<close>

definition open_log :: "u32 \<Rightarrow> u32 list \<Rightarrow> int \<Rightarrow> 'a log_state_scheme \<Rightarrow> bool" where
  "open_log st B z s \<longleftrightarrow> logged st B s \<and> lg_outstanding (log s) = 1 \<and> \<not> lg_committing (log s) \<and> lg_size (log s) = z"

lemma open_log_same: "same s t ws \<Longrightarrow> open_log st B z t = open_log st B z s"
  using same_log [of t ws s] logged_same [of t ws s st B] by (simp add: open_log_def)

definition in_log_range :: "u32 \<Rightarrow> 'a bio_state_scheme \<Rightarrow> bool" where
  "in_log_range st s \<longleftrightarrow> (\<forall>j<30. logslot st j < disksize s)"

text \<open>\<open>beside s t ws\<close>: the states agree up to the cache, the log and the block writes \<open>ws\<close>.\<close>

definition beside :: "'a log_state_scheme \<Rightarrow> 'a log_state_scheme \<Rightarrow> (u32 \<times> u8 list) list \<Rightarrow> bool" where
  "beside s t ws \<longleftrightarrow> (\<exists>f. same (set_log f s) t ws)"

lemma besideI: "same (set_log f s) t ws \<Longrightarrow> beside s t ws"
  by (auto simp: beside_def)

lemma beside_same: "same s t ws \<Longrightarrow> beside s t ws"
  using besideI [where f = "\<lambda>g. g" and s = s and t = t and ws = ws] by (simp add: set_log_def)

lemma beside_trans: "beside s t ws \<Longrightarrow> beside t u vs \<Longrightarrow> beside s u (ws @ vs)"
proof -
  assume "beside s t ws" "beside t u vs"
  then obtain f g where "same (set_log f s) t ws" "same (set_log g t) u vs" by (auto simp: beside_def)
  then have "same (set_log g (set_log f s)) u (ws @ vs)"
    using same_trans same_set_log by blast
  then show ?thesis unfolding set_log_simps by (rule besideI)
qed

lemma beside_refl [simp]: "beside s (set_log f s) []"
  by (rule besideI [where f = f]) simp

text \<open>
  One block update inside a transaction, as \<open>writei\<close>, \<open>iupdate\<close>, \<open>balloc\<close> and the others do it:
  read the block, change the buffer, \<open>log_write\<close>, release.
\<close>

lemma log_step:
  assumes g: "open_log st B z s" and r: "brep i s c (set B) Map.empty" and n: "n < disksize s" and q: "in_log_range st s"
    and l: "length B < 30" "int (length B) < z - 1" and k: "0 < e_fuel k"
  shows "\<exists>b t u v. bread k 1 n s = Inr (b, t) \<and> same s t [] \<and> b_data (bufs t ! b) = c n \<and>
     log_write b (set_buf b (\<lambda>x. x\<lparr>b_data := d\<rparr>) t) = Inr u \<and> brelse b u = Inr v \<and>
     brep i v (c(n := d)) (set (note_block n B)) Map.empty \<and> open_log st (note_block n B) z v \<and> beside s v []"
proof -
  have G: "logged st B s" "lg_outstanding (log s) = 1" "\<not> lg_committing (log s)" "lg_size (log s) = z"
    using g by (simp_all add: open_log_def)
  have "card (set B) < NBUF" using l(1) card_length le_less_trans by blast
  then obtain b t where t: "bread k 1 n s = Inr (b, t)" "brep i t c (set B) [b \<mapsto> n]" "same s t []"
    using bc.rd_ok [where i = i and k = k, of s c "set B" Map.empty n] r k n by auto
  let ?u = "set_buf b (\<lambda>x. x\<lparr>b_data := d\<rparr>) t"
  have u: "brep i ?u (c(n := d)) (set B) [b \<mapsto> n]" using brep_modify [OF t(2), of b n "\<lambda>_. d"] by simp
  have su: "same s ?u []" using t(3) by simp
  have gu: "logged st B ?u" "log ?u = log s" "disksize ?u = disksize s"
    using G(1) logged_same [OF su] same_log [OF su] sameD(2) [OF su] by simp_all
  have "logslot st (length B) < disksize ?u" using q l(1) gu(3) by (simp add: in_log_range_def)
  then obtain f where f: "log_write b ?u = Inr (set_buf b (\<lambda>x. x\<lparr>b_flags := b_flags x OR 4\<rparr>) (set_log f ?u))"
      "logged st (note_block n B) (set_log f ?u)" "lg_outstanding (f (log s)) = 1" "\<not> lg_committing (f (log s))"
      "lg_size (f (log s)) = z"
    using log_write_ok [OF gu(1) u, of b n] G l n sameD(2) [OF t(3)] by (auto simp: gu(2))
  let ?v = "set_buf b (\<lambda>x. x\<lparr>b_flags := b_flags x OR 4\<rparr>) (set_log f ?u)"
  have rv: "brep i ?v (c(n := d)) (insert n (set B)) [b \<mapsto> n]"
    using brep_pin [OF brep_set_log [OF u, of f], of b n] by simp
  then obtain w where w: "brelse b ?v = Inr w" "brep i w (c(n := d)) (insert n (set B)) Map.empty" "same ?v w []"
    using bc.rel_ok [where i = i and k = k, OF conjI [OF rv k], of b n] by auto
  have "same (set_log f s) ?v []" using same_set_log [OF su, of f] by simp
  then have bes: "beside s w []" using same_trans [OF _ w(3), where s = "set_log f s" and ws = "[]"] by (intro besideI) simp
  have "open_log st (note_block n B) z w"
  proof -
    have "log ?v = f (log s)" "disksize ?v = disksize s" using gu(2,3) by (simp_all add: set_buf_def set_log_def)
    moreover have "logged st (note_block n B) ?v = logged st (note_block n B) (set_log f ?u)"
      by (simp add: logged_def set_buf_def set_log_def)
    ultimately show ?thesis using f(2-5) open_log_same [OF w(3), of st "note_block n B" z] by (simp add: open_log_def)
  qed
  moreover have "b_data (bufs t ! b) = c n" using brep_held(4) [OF t(2), of b n] by simp
  ultimately show ?thesis using t(1,3) f(1) w(1,2) bes by (auto simp del: fun_upd_apply)
qed

lemma besideD:
  assumes "beside s t ws"
  shows "memdisk t = apply_writes ws (memdisk s)" "disksize t = disksize s" "written t = written s @ ws"
  using assms by (auto simp: beside_def dest: sameD)

lemma log_update_ok:
  assumes g: "open_log st B z s" and r: "brep i s c (set B) Map.empty" and n: "n < disksize s" and q: "in_log_range st s"
    and l: "length B < 30" "int (length B) < z - 1" and k: "0 < e_fuel k"
  shows "\<exists>t. log_update k (n, d) s = Inr t \<and> brep i t (c(n := d)) (set (note_block n B)) Map.empty \<and>
     open_log st (note_block n B) z t \<and> memdisk t = memdisk s \<and> written t = written s \<and> disksize t = disksize s"
proof -
  obtain b t u v where "bread k 1 n s = Inr (b, t)" "log_write b (set_buf b (\<lambda>x. x\<lparr>b_data := d\<rparr>) t) = Inr u"
      "brelse b u = Inr v" "brep i v (c(n := d)) (set (note_block n B)) Map.empty"
      "open_log st (note_block n B) z v" "beside s v []"
    using log_step [OF assms, of d] by blast
  then show ?thesis using besideD [of s v "[]"] by (auto simp: log_update_def simp del: fun_upd_apply)
qed

lemma log_updates_ok:
  assumes "open_log st B z s" and "brep i s c (set B) Map.empty" and "\<forall>n\<in>fst ` set ops. n < disksize s" and "in_log_range st s"
    and "length (touched ops B) < 30" "int (length (touched ops B)) < z - 1" and "0 < e_fuel k"
  shows "\<exists>t. for_each (log_update k) ops s = Inr t \<and> brep i t (apply_writes ops c) (set (touched ops B)) Map.empty \<and>
     open_log st (touched ops B) z t \<and> memdisk t = memdisk s \<and> written t = written s \<and> disksize t = disksize s"
  using assms
proof (induction ops arbitrary: s c B)
  case (Cons x ops)
  obtain n d where x: "x = (n, d)" by (cases x)
  have l: "length B \<le> length (touched (x # ops) B)" by (rule length_touched)
  obtain t where t: "log_update k (n, d) s = Inr t" "brep i t (c(n := d)) (set (note_block n B)) Map.empty"
     "open_log st (note_block n B) z t" "memdisk t = memdisk s" "written t = written s" "disksize t = disksize s"
    using log_update_ok [OF Cons.prems(1,2) _ Cons.prems(4), of n k d] Cons.prems(3,5-7) l x by auto
  have "in_log_range st t" using Cons.prems(4) t(6) by (simp add: in_log_range_def)
  from Cons.IH [OF t(3,2) _ this] Cons.prems(3,5-7) t x show ?case by (auto simp del: fun_upd_apply)
qed simp

text \<open>\<open>end_op\<close> of the only open transaction commits.\<close>

lemma end_op_ok:
  assumes c: "calm i s" and o: "lg_outstanding (log s) = 1" "\<not> lg_committing (log s)"
    and k: "commit k (set_log (\<lambda>g. g\<lparr>lg_outstanding := 0, lg_committing := True\<rparr>) s) = Inr t" and ct: "calm i t"
  shows "end_op k s = Inr (set_log (\<lambda>g. g\<lparr>lg_committing := False\<rparr>) t)"
proof -
  have e: "set_log (\<lambda>g. g\<lparr>lg_outstanding := lg_outstanding g - 1, lg_committing := True\<rparr>) s =
      set_log (\<lambda>g. g\<lparr>lg_outstanding := 0, lg_committing := True\<rparr>) s"
    using o by (simp add: set_log_def)
  show ?thesis
    using o k by (simp add: end_op_def acquire_calm [OF c] acquire_calm [OF ct] release_set_log [OF c]
        release_set_log [OF ct] wakeup_set_log [OF ct] Let_def e)
qed

definition idle_log :: "u32 \<Rightarrow> 'a log_state_scheme \<Rightarrow> bool" where
  "idle_log st s \<longleftrightarrow> at_boot st s \<and> lg_n (log s) = 0 \<and> lg_outstanding (log s) = 0 \<and> \<not> lg_committing (log s) \<and>
     in_log_range st s"

text \<open>The last \<open>end_op\<close> of a transaction commits its blocks.\<close>

lemma end_op_commits:
  assumes g: "open_log st B z s" and r: "brep i s c (set B) Map.empty" and a: "offlog st B" and d: "distinct B"
    and B: "B \<noteq> []" "length B < 30" and q: "in_log_range st s" and k: "0 < e_fuel k"
  shows "\<exists>t. end_op k s = Inr t \<and> brep i t (apply_writes (commit_writes st B c) c) {} Map.empty \<and> idle_log st t \<and>
     beside s t (commit_writes st B c)"
proof -
  have T: "logged st B s" "lg_outstanding (log s) = 1" "\<not> lg_committing (log s)" using g by (simp_all add: open_log_def)
  let ?s = "set_log (\<lambda>g. g\<lparr>lg_outstanding := 0, lg_committing := True\<rparr>) s"
  have "logged st B ?s" using T(1) by (simp add: logged_def)
  then obtain u where u: "commit k ?s = Inr u" "brep i u (apply_writes (commit_writes st B c) c) {} Map.empty"
      "same (set_log (\<lambda>g. g\<lparr>lg_n := 0\<rparr>) ?s) u (commit_writes st B c)"
    using commit_ok [OF _ a _ d B(2,1) k, of ?s i c] r by auto
  let ?u = "set_log (\<lambda>g. g\<lparr>lg_committing := False\<rparr>) u"
  have "end_op k s = Inr ?u" by (rule end_op_ok [OF brepD(1) [OF r] T(2,3) u(1) brepD(1) [OF u(2)]])
  moreover have "log u = (log s)\<lparr>lg_outstanding := 0, lg_committing := True, lg_n := 0\<rparr>" using same_log [OF u(3)] by simp
  then have "idle_log st ?u"
    using T(1) q sameD(2) [OF u(3)] by (simp add: idle_log_def at_boot_def logged_def in_log_range_def)
  moreover have "beside s ?u (commit_writes st B c)"
    using same_set_log [OF u(3)] unfolding set_log_simps by (rule besideI)
  ultimately show ?thesis using u(2) by auto
qed

lemma transaction_ok:
  assumes I: "idle_log st s" and r: "brep i s c {} Map.empty" and ops: "ops \<noteq> []"
    and rng: "\<forall>n\<in>fst ` set ops. n < disksize s \<and> off_area st n"
    and l: "length (touched ops []) < 30" "int (length (touched ops [])) < lg_size (log s) - 1" and k: "0 < e_fuel k"
  defines "B \<equiv> touched ops []" and "e \<equiv> apply_writes ops c"
  shows "\<exists>t. transaction k ops s = Inr t \<and> written t = written s @ commit_writes st B e \<and>
     memdisk t = apply_writes (commit_writes st B e) (memdisk s) \<and> idle_log st t \<and>
     brep i t (apply_writes (commit_writes st B e) e) {} Map.empty"
proof -
  have D: "lg_dev (log s) = 1" "lg_start (log s) = st" "length (lg_block (log s)) = 30" "st < disksize s" "lg_n (log s) = 0"
      "lg_outstanding (log s) = 0" "\<not> lg_committing (log s)" "in_log_range st s"
    using I by (simp_all add: idle_log_def at_boot_def)
  let ?s = "set_log (\<lambda>g. g\<lparr>lg_outstanding := lg_outstanding g + 1\<rparr>) s" and ?z = "lg_size (log s)"
  have b: "begin_op k s = Inr ?s" using begin_op_ok [OF brepD(1) [OF r] k] D by simp
  have o: "open_log st [] ?z ?s" using D by (simp add: open_log_def logged_def)
  obtain t where t: "for_each (log_update k) ops ?s = Inr t" "brep i t e (set B) Map.empty" "open_log st B ?z t"
      "memdisk t = memdisk s" "written t = written s" "disksize t = disksize s"
    using log_updates_ok [OF o, of i c ops k] r rng D(8) l k by (auto simp: B_def e_def in_log_range_def)
  have sB: "set B = fst ` set ops" by (simp add: B_def set_touched)
  then have "offlog st B" using rng unfolding offlog_def off_area_def by metis
  moreover have "B \<noteq> []" using ops sB by auto
  moreover have "in_log_range st t" using D(8) t(6) by (simp add: in_log_range_def)
  ultimately obtain u where u: "end_op k t = Inr u" "brep i u (apply_writes (commit_writes st B e) e) {} Map.empty"
      "idle_log st u" "beside t u (commit_writes st B e)"
    using end_op_commits [OF t(3,2), of k] l k distinct_touched [of "[]" ops] by (auto simp: B_def)
  then show ?thesis using b t(1,4,5) besideD [OF u(4)] by (auto simp: transaction_def)
qed

lemma commit_disk:
  assumes "\<And>n. n \<notin> set B \<Longrightarrow> e n = d n" and "offlog st B" and "length B \<le> 30" and "off_area st n"
  shows "apply_writes (commit_writes st B e) d n = e n"
proof -
  have "n \<noteq> logslot st j" if "j < length B" for j using assms(3,4) that by (simp add: off_area_def)
  then have "n \<notin> fst ` set (log_writes st B e (length B))" unfolding log_writes_dom by auto
  then have "apply_writes (log_writes st B e (length B)) d n = d n" by (rule apply_writes_other)
  then show ?thesis using assms by (auto simp: commit_writes_def apply_self off_area_def)
qed

section \<open>Atomicity\<close>

lemma apply_writes_touched: "n \<notin> set (touched ops []) \<Longrightarrow> apply_writes ops c n = c n"
  by (intro apply_writes_other) (auto simp: set_touched)

text \<open>
  C18: Commit. A transaction of one process that logs fewer than 29 different blocks outside
  of the log area runs to its end. Afterwards the log is idle again, every block outside of
  the log area holds on the disk what the updates made of it, and the disk saw, in this
  order: the logged copies, the header with the list of blocks, the blocks at their places,
  and the empty header.
\<close>

theorem transaction_commits:
  assumes "idle_log st s" and "brep i s (memdisk s) {} Map.empty" and "ops \<noteq> []"
    and "\<forall>n\<in>fst ` set ops. n < disksize s \<and> off_area st n"
    and "length (touched ops []) < 30" "int (length (touched ops [])) < lg_size (log s) - 1" and "0 < e_fuel k"
  shows "\<exists>t. transaction k ops s = Inr t \<and> idle_log st t \<and>
     written t = written s @ commit_writes st (touched ops []) (apply_writes ops (memdisk s)) \<and>
     (\<forall>n. off_area st n \<longrightarrow> memdisk t n = apply_writes ops (memdisk s) n)"
proof -
  have "set (touched ops []) = fst ` set ops" by (simp add: set_touched)
  then have a: "offlog st (touched ops [])" using assms(4) unfolding offlog_def off_area_def by metis
  show ?thesis
    using transaction_ok [OF assms] commit_disk [OF apply_writes_touched a] assms(5) by fastforce
qed

text \<open>
  C16: Crash atomicity. Let the machine stop after any number \<open>m\<close> of the block writes of a
  transaction and boot again from the disk as it is then. Recovery runs to its end, and the
  blocks outside of the log area are either all as before the transaction (when the header
  was not written yet) or all as after it.
\<close>

theorem crash_atomic:
  assumes "idle_log st s" and "brep i s (memdisk s) {} Map.empty" and "ops \<noteq> []"
    and "\<forall>n\<in>fst ` set ops. n < disksize s \<and> off_area st n"
    and "length (touched ops []) < 30" "int (length (touched ops [])) < lg_size (log s) - 1" and "0 < e_fuel k"
    and hd0: "get32 (memdisk s st) 0 = 0" "length (memdisk s st) = 512"
    and run: "transaction k ops s = Inr t" "written t = written s @ ws"
    and boot: "at_boot st u" "brep j u (memdisk u) {} Map.empty" "disksize u = disksize s" "0 < e_fuel k'"
    and crash: "memdisk u = apply_writes (take m ws) (memdisk s)"
  shows "\<exists>v. recover_from_log k' u = Inr v \<and>
     (\<forall>n. off_area st n \<longrightarrow>
        memdisk v n = (if m \<le> length (touched ops []) then memdisk s n else apply_writes ops (memdisk s) n))"
proof -
  let ?B = "touched ops []" and ?e = "apply_writes ops (memdisk s)"
  have sB: "set ?B = fst ` set ops" by (simp add: set_touched)
  then have a: "offlog st ?B" using assms(4) unfolding offlog_def off_area_def by metis
  have l: "length ?B \<le> 30" using assms(5) by simp
  have ws: "ws = commit_writes st ?B ?e" using transaction_ok [OF assms(1-7)] run by auto
  have C: "recovered st (memdisk u) n = (if m \<le> length ?B then memdisk s n else ?e n)"
      "head_blocks (memdisk u st) = (if length ?B < m \<and> m < 2 * length ?B + 2 then ?B else [])"
      "0 \<le> sint (get32 (memdisk u st) 0) \<and> sint (get32 (memdisk u st) 0) \<le> 30" if "off_area st n" for n
    unfolding crash ws by (rule crash_disk [where d = "memdisk s", OF _ a l hd0 that]; rule apply_writes_touched; assumption)+
  obtain n0 where n0: "off_area st n0" using assms(3,4) by (cases ops) auto
  have "head_blocks (memdisk u st) = ?B \<or> head_blocks (memdisk u st) = []" using C(2) [OF n0] by presburger
  moreover have "offlog st []" by (simp add: offlog_def)
  moreover have "in_log_range st s" using assms(1) by (simp add: idle_log_def)
  ultimately have "head_ok st u (memdisk u st)"
    using C(3) [OF n0] a sB assms(4) boot(3) l by (auto simp: head_ok_def in_log_range_def)
  then obtain v where "recover_from_log k' u = Inr v" "memdisk v = recovered st (memdisk u)"
    using recover_ok [OF boot(1,2) _ boot(4)] by blast
  then show ?thesis using C(1) by auto
qed

lemma fold_log: "(\<And>b s. log (f b s) = log s) \<Longrightarrow> log (fold f xs s) = log s"
  by (induction xs arbitrary: s) simp_all

lemma log_binit [simp]: "log (binit s) = log s"
proof -
  have l: "log (set_buf b f t) = log t" "log (initsleeplock m n t) = log t" "log (initlock q n t) = log t"
    for b f m n q and t :: "'a log_state_scheme"
    by (simp_all add: set_buf_def initsleeplock_def set_sleeplock_def initlock_def set_lock_def Let_def)
  then show ?thesis unfolding binit_def link_front_def Let_def by (subst fold_log) simp_all
qed

definition sample_log :: "(u32 \<Rightarrow> u8 list) \<Rightarrow> log_state" where
  "sample_log img = binit (sample_bio img \<lparr>log = \<lparr>lg_start = 2, lg_size = 30, lg_outstanding = 0,
     lg_committing = False, lg_dev = 1, lg_n = 0, lg_block = replicate 30 0\<rparr>\<rparr>)"

lemma sample_log_view [simp]:
  "memdisk (sample_log img) = img" "disksize (sample_log img) = 1000" "written (sample_log img) = []"
  "lg_size (log (sample_log img)) = 30" "brep 1 (sample_log img) img {} Map.empty" "brep (Suc 0) (sample_log img) img {} Map.empty"
  using binit_ok [of 1 "sample_bio img \<lparr>log = \<lparr>lg_start = 2, lg_size = 30, lg_outstanding = 0,
     lg_committing = False, lg_dev = 1, lg_n = 0, lg_block = replicate 30 0\<rparr>\<rparr>"]
  by (simp_all add: sample_log_def) (simp_all add: sample_bio_def)

lemma all_less_30: "(\<forall>j<30. P j) \<longleftrightarrow> (\<forall>j\<in>{0..<30}. P (j :: nat))"
  by auto

lemma logslot_2: "j < 30 \<Longrightarrow> unat (logslot 2 j) = j + 3"
  by (simp add: logslot_def unat_word_ariths unat_of_nat)

lemma sample_log_slots: "j < 30 \<Longrightarrow> logslot 2 j < 1000" "j < 30 \<Longrightarrow> logslot 2 j \<noteq> 50" "j < 30 \<Longrightarrow> logslot 2 j \<noteq> 51"
  using logslot_2 [of j] by (auto simp: word_less_nat_alt)

lemma sample_log_idle [simp]: "idle_log 2 (sample_log img)" "at_boot 2 (sample_log img)"
  by (simp_all add: idle_log_def at_boot_def in_log_range_def sample_log_slots) (simp_all add: sample_log_def sample_bio_def)

lemma sample_off: "off_area 2 50" "off_area 2 51"
  using sample_log_slots by (auto simp: off_area_def)

abbreviation (input) "sample_ops \<equiv> [(50, [1]), (51, [2]), (50, [3])] :: (u32 \<times> u8 list) list"
abbreviation (input) "sample_img \<equiv> (\<lambda>_. replicate 512 0) :: u32 \<Rightarrow> u8 list"

lemma sample_touched: "touched sample_ops [] = [50, 51]"
  by (simp add: note_block_def)

theorem transaction_commits_witness:
  "\<exists>t. transaction sample_env sample_ops (sample_log sample_img) = Inr t \<and> memdisk t 50 = [3] \<and> memdisk t 51 = [2]"
  using transaction_commits [of 2 "sample_log sample_img" 1 sample_ops sample_env] sample_off
  by (auto simp: note_block_def)

theorem crash_atomic_witness:
  "\<exists>t ws v. transaction sample_env sample_ops (sample_log sample_img) = Inr t \<and> written t = ws \<and> length ws = 6 \<and>
     recover_from_log sample_env (sample_log (apply_writes (take 4 ws) sample_img)) = Inr v \<and>
     memdisk v 50 = [3] \<and> memdisk v 51 = [2]"
proof -
  obtain t where t: "transaction sample_env sample_ops (sample_log sample_img) = Inr t"
      "written t = commit_writes 2 [50, 51] (apply_writes sample_ops sample_img)"
    using transaction_ok [of 2 "sample_log sample_img" 1 sample_img sample_ops sample_env] sample_off
    by (auto simp: note_block_def)
  let ?ws = "commit_writes 2 [50, 51] (apply_writes sample_ops sample_img)"
  have "length ?ws = 6" by (simp add: commit_writes_def log_writes_def)
  moreover have "\<exists>v. recover_from_log sample_env (sample_log (apply_writes (take 4 ?ws) sample_img)) = Inr v \<and>
     (\<forall>n. off_area 2 n \<longrightarrow> memdisk v n = apply_writes sample_ops sample_img n)"
    using crash_atomic [of 2 "sample_log sample_img" 1 sample_ops sample_env t ?ws
        "sample_log (apply_writes (take 4 ?ws) sample_img)" 1 sample_env 4] t sample_off
    by (simp add: note_block_def get32_def)
  ultimately show ?thesis using t sample_off by (auto simp del: fun_upd_apply) (auto simp: fun_upd_apply)
qed



end
