(* ===== verification/Sample_Fs.thy ===== *)
theory Sample_Fs
  imports File Bcache Syscall
begin

text \<open>
  The concrete machine of \<open>Sample\<close> with the file-system part of the kernel: an initialised
  buffer cache over a disk of 1000 blocks, a log in blocks 2 to 31, eight cached inodes, four
  open-file slots and empty pipes. The inodes, files and pipes are arguments.
\<close>

unbundle bit_operations_syntax

definition sample_klog :: klog where
  "sample_klog = \<lparr>lg_start = 2, lg_size = 30, lg_outstanding = 0, lg_committing = False, lg_dev = 1, lg_n = 0,
     lg_block = replicate 30 0\<rparr>"

definition sample_sb :: superblock where
  "sample_sb = \<lparr>sb_size = 1000, sb_nblocks = 941, sb_ninodes = 200, sb_nlog = 30, sb_logstart = 2, sb_inodestart = 32,
     sb_bmapstart = 58\<rparr>"

definition sample_inode :: inode where
  "sample_inode = \<lparr>i_dev = 1, i_inum = 0, i_ref = 0, i_valid = False, i_type = 0, i_major = 0, i_minor = 0,
     i_nlink = 0, i_size = 0, i_addrs = replicate 13 0\<rparr>"

definition sample_file :: kfile where
  "sample_file = \<lparr>f_type = FD_NONE, f_ref = 0, f_readable = False, f_writable = False, f_pipe = 0, f_ip = 0, f_off = 0\<rparr>"

definition sample_pipe :: "u32 \<Rightarrow> pipe" where
  "sample_pipe n = \<lparr>pi_data = replicate 512 0, pi_nread = n, pi_nwrite = n, pi_readopen = True, pi_writeopen = True\<rparr>"

definition sample_kernel ::
    "(u32 \<Rightarrow> u8 list) \<Rightarrow> inode list \<Rightarrow> kfile list \<Rightarrow> (u32 \<Rightarrow> pipe) \<Rightarrow> file_state" where
  "sample_kernel img ips fs ps =
     binit (sample_bio img \<lparr>log = sample_klog, sb = sample_sb, inodes = ips, files = fs, pipes = ps\<rparr>)"

lemma fold_keeps: "(\<And>b s. P (f b s) = P s) \<Longrightarrow> P (fold f xs s) = P s"
  by (induction xs arbitrary: s) simp_all

text \<open>\<open>binit\<close> changes nothing but the cache.\<close>

lemma binit_keeps:
  fixes s :: "'a bio_state_scheme"
  assumes "\<And>b g (t :: 'a bio_state_scheme). P (set_buf b g t) = P t"
    and "\<And>l g (t :: 'a bio_state_scheme). P (set_sleeplock l g t) = P t"
    and "\<And>l g (t :: 'a bio_state_scheme). P (set_lock l g t) = P t"
  shows "P (binit s) = P s"
  unfolding binit_def link_front_def initsleeplock_def initlock_def Let_def
  by (subst fold_keeps [of P]) (simp_all only: assms)

lemma binit_fields:
  "sb (binit s) = sb s" "inodes (binit s) = inodes s" "files (binit t) = files t" "pipes (binit t) = pipes t"
  "mem (binit u) = mem u" "log (binit v) = log v"
  by (rule binit_keeps; simp add: set_buf_def set_sleeplock_def set_lock_def)+

lemma binit_cpu: "self_cpu (binit u) = self_cpu u"
  by (rule binit_keeps; simp add: set_buf_def set_sleeplock_def)

lemma sample_kernel_view [simp]:
  "log (sample_kernel img ips fs ps) = sample_klog" "sb (sample_kernel img ips fs ps) = sample_sb"
  "inodes (sample_kernel img ips fs ps) = ips" "files (sample_kernel img ips fs ps) = fs"
  "pipes (sample_kernel img ips fs ps) = ps" "mem (sample_kernel img ips fs ps) = sample_mem"
  unfolding sample_kernel_def binit_fields by (simp_all add: sample_bio_def)

lemma sample_kernel_cpu [simp]: "self_cpu (sample_kernel img ips fs ps) = sample_cpu\<lparr>c_intena := True\<rparr>"
  unfolding sample_kernel_def binit_cpu
  by (simp add: self_cpu_def self_def here_def sample_bio_def scan_def sample_cpu_def)

lemma sample_kernel_brep [simp]:
  "brep 1 (sample_kernel img ips fs ps) img {} Map.empty" "brep (Suc 0) (sample_kernel img ips fs ps) img {} Map.empty"
  "memdisk (sample_kernel img ips fs ps) = img" "disksize (sample_kernel img ips fs ps) = 1000"
  "written (sample_kernel img ips fs ps) = []" "procs (sample_kernel img ips fs ps) = sample_procs"
  using binit_ok [of 1 "sample_bio img \<lparr>log = sample_klog, sb = sample_sb, inodes = ips, files = fs, pipes = ps\<rparr>"]
  by (simp_all add: sample_kernel_def) (simp add: sample_bio_def)

lemma sample_kernel_calm [simp]: "calm 1 (sample_kernel img ips fs ps)" "calm (Suc 0) (sample_kernel img ips fs ps)"
  using brepD(1) [OF sample_kernel_brep(1)] by simp_all

lemma sample_kernel_win: "win 0x1FB4 76 sample_ka (sample_kernel img ips fs ps)"
  using sample_window by (simp add: win_def)

end
