(* ===== verification/Pipe.thy ===== *)
theory Pipe
  imports Sample_Fs
begin

text \<open>
  Pipes as queues: the ring buffer with its two wrapping 32-bit counters is a bounded queue of
  bytes, and \<open>pipewrite\<close> and \<open>piperead\<close> append to it and take from it in order.
\<close>

unbundle bit_operations_syntax

section \<open>Bounded queues\<close>

locale fifo =
  fixes items :: "'q \<Rightarrow> 'b list" and ok :: "'q \<Rightarrow> bool" and put :: "'b \<Rightarrow> 'q \<Rightarrow> 'q"
    and first :: "'q \<Rightarrow> 'b" and advance :: "'q \<Rightarrow> 'q" and cap :: nat
  assumes put_items: "ok q \<Longrightarrow> length (items q) < cap \<Longrightarrow> items (put b q) = items q @ [b] \<and> ok (put b q)"
    and first_items: "ok q \<Longrightarrow> items q \<noteq> [] \<Longrightarrow> first q = hd (items q) \<and> items (advance q) = tl (items q) \<and> ok (advance q)"
begin

lemma put_many:
  "ok q \<Longrightarrow> length (items q) + length bs \<le> cap \<Longrightarrow> items (fold put bs q) = items q @ bs \<and> ok (fold put bs q)"
proof (induction bs arbitrary: q)
  case (Cons b bs)
  then show ?case using put_items [of q b] by simp
qed simp

lemma take_many:
  "ok q \<Longrightarrow> n \<le> length (items q) \<Longrightarrow> items ((advance ^^ n) q) = drop n (items q) \<and> ok ((advance ^^ n) q)"
proof (induction n)
  case (Suc n)
  then have "items ((advance ^^ n) q) = drop n (items q)" "ok ((advance ^^ n) q)" "drop n (items q) \<noteq> []" by auto
  then show ?case using first_items [of "(advance ^^ n) q"] by (simp add: tl_drop drop_Suc)
qed simp

lemma nth_taken:
  assumes "ok q" and "n < length (items q)"
  shows "first ((advance ^^ n) q) = items q ! n"
  using take_many [OF assms(1), of n] first_items [of "(advance ^^ n) q"] assms(2) by (auto simp: hd_drop_conv_nth)

text \<open>What was put into an empty queue comes out in the same order.\<close>

lemma in_order:
  assumes "ok q" and "items q = []" and "length bs \<le> cap"
  shows "map (\<lambda>j. first ((advance ^^ j) (fold put bs q))) [0..<length bs] = bs"
  using put_many [OF assms(1), of bs] assms(2,3) by (intro nth_equalityI) (simp_all add: nth_taken)

end

section \<open>The ring buffer\<close>

definition pipe_count :: "pipe \<Rightarrow> nat" where
  "pipe_count x = unat (pi_nwrite x - pi_nread x)"

definition pipe_items :: "pipe \<Rightarrow> u8 list" where
  "pipe_items x = map (\<lambda>j. pi_data x ! unat ((pi_nread x + of_nat j) mod PIPESIZE)) [0..<pipe_count x]"

definition pipe_ok :: "pipe \<Rightarrow> bool" where
  "pipe_ok x \<longleftrightarrow> length (pi_data x) = 512 \<and> pipe_count x \<le> 512"

definition pipe_first :: "pipe \<Rightarrow> u8" where
  "pipe_first x = pi_data x ! unat (pi_nread x mod PIPESIZE)"

definition pipe_advance :: "pipe \<Rightarrow> pipe" where
  "pipe_advance x = x\<lparr>pi_nread := pi_nread x + 1\<rparr>"

lemma length_pipe_items [simp]: "length (pipe_items x) = pipe_count x"
  by (simp add: pipe_items_def)

lemma unat_ring: "unat (((a :: u32) + of_nat j) mod 512) = (unat a + j) mod 512"
proof -
  have "unat ((a + of_nat j) mod 512) = ((unat a + j mod 2 ^ 32) mod 2 ^ 32) mod 512"
    by (simp add: unat_mod unat_word_ariths unat_of_nat)
  also have "\<dots> = (unat a + j mod 2 ^ 32) mod 512" by (rule mod_mod_cancel) simp
  also have "\<dots> = (unat a + j) mod 512"
  proof -
    have "(j mod 2 ^ 32) mod 512 = j mod (512 :: nat)" by (rule mod_mod_cancel) simp
    then show ?thesis by (metis mod_add_right_eq)
  qed
  finally show ?thesis .
qed

lemma pipe_count_put:
  assumes "pipe_count x < 512"
  shows "pipe_count (pipe_put c x) = Suc (pipe_count x)"
proof -
  have e: "pi_nwrite (pipe_put c x) - pi_nread (pipe_put c x) = (pi_nwrite x - pi_nread x) + 1"
    by (simp add: pipe_put_def algebra_simps)
  show ?thesis using assms unfolding pipe_count_def e by (simp add: unat_word_ariths)
qed

lemma pipe_nwrite: "pi_nwrite x = pi_nread x + of_nat (pipe_count x)"
  by (simp add: pipe_count_def)

interpretation pq: fifo pipe_items pipe_ok pipe_put pipe_first pipe_advance 512
proof unfold_locales
  fix q :: pipe and b :: u8
  assume ok: "pipe_ok q" and room: "length (pipe_items q) < 512"
  then have l: "length (pi_data q) = 512" and n: "pipe_count q < 512" by (simp_all add: pipe_ok_def)
  let ?w = "unat (pi_nwrite q mod PIPESIZE)"
  have w: "?w = (unat (pi_nread q) + pipe_count q) mod 512"
    using unat_ring [of "pi_nread q" "pipe_count q"] pipe_nwrite [of q] by simp
  have old: "(unat (pi_nread q) + j) mod 512 \<noteq> ?w" if "j < pipe_count q" for j
  proof
    assume "(unat (pi_nread q) + j) mod 512 = ?w"
    then have "(unat (pi_nread q) + pipe_count q) mod 512 = (unat (pi_nread q) + j) mod 512" by (simp add: w)
    then have "512 dvd (unat (pi_nread q) + pipe_count q) - (unat (pi_nread q) + j)"
      by (simp add: mod_eq_dvd_iff_nat that less_imp_le)
    then have "512 dvd pipe_count q - j" by simp
    then have "512 \<le> pipe_count q - j" using that by (intro dvd_imp_le) simp_all
    then show False using n by simp
  qed
  have new: "pipe_items (pipe_put b q) = map (\<lambda>j. (pi_data q)[?w := b] ! ((unat (pi_nread q) + j) mod 512)) [0..<Suc (pipe_count q)]"
    unfolding pipe_items_def pipe_count_put [OF n] by (simp add: pipe_put_def unat_ring del: upt_Suc)
  have "pipe_items (pipe_put b q) = pipe_items q @ [b]"
  proof (intro nth_equalityI)
    fix j assume "j < length (pipe_items (pipe_put b q))"
    then have "j \<le> pipe_count q" using n by (simp add: pipe_count_put)
    moreover have wl: "?w < length (pi_data q)" by (simp add: w l)
    ultimately show "pipe_items (pipe_put b q) ! j = (pipe_items q @ [b]) ! j"
      using n old [of j] w
      unfolding new by (cases "j = pipe_count q") (auto simp: pipe_items_def nth_append unat_ring simp del: upt_Suc)
  qed (use n in \<open>simp add: pipe_count_put\<close>)
  moreover have "pipe_ok (pipe_put b q)" using l n pipe_count_put [of q b] by (simp add: pipe_ok_def pipe_put_def)
  ultimately show "pipe_items (pipe_put b q) = pipe_items q @ [b] \<and> pipe_ok (pipe_put b q)" by simp
next
  fix q :: pipe
  assume ok: "pipe_ok q" and ne: "pipe_items q \<noteq> []"
  then have n: "0 < pipe_count q" by (metis length_greater_0_conv length_pipe_items)
  have "pi_nwrite q - (pi_nread q + 1) = (pi_nwrite q - pi_nread q) - 1" by (simp add: algebra_simps)
  then have e: "pi_nwrite (pipe_advance q) - pi_nread (pipe_advance q) = (pi_nwrite q - pi_nread q) - 1"
    by (simp add: pipe_advance_def)
  have c: "pipe_count (pipe_advance q) = pipe_count q - 1"
    using n unfolding pipe_count_def e by (simp add: unat_sub_if' word_le_nat_alt)
  have "pipe_first q = hd (pipe_items q)" using n by (simp add: pipe_first_def pipe_items_def hd_map upt_conv_Cons)
  moreover have "pipe_items (pipe_advance q) = tl (pipe_items q)"
  proof (intro nth_equalityI)
    fix j assume "j < length (pipe_items (pipe_advance q))"
    then have "j < pipe_count q - 1" "Suc j < pipe_count q" by (simp_all add: c)
    then show "pipe_items (pipe_advance q) ! j = tl (pipe_items q) ! j"
      unfolding pipe_items_def c by (simp add: nth_tl pipe_advance_def algebra_simps)
  qed (simp add: c)
  moreover have "pipe_ok (pipe_advance q)" using ok c unfolding pipe_ok_def by (auto simp: pipe_advance_def)
  ultimately show "pipe_first q = hd (pipe_items q) \<and> pipe_items (pipe_advance q) = tl (pipe_items q) \<and> pipe_ok (pipe_advance q)"
    by simp
qed

section \<open>Writing and reading\<close>

lemma set_pipe_simps [simp]:
  "pipes (set_pipe p g s) = (pipes s)(p := g (pipes s p))" "mem (set_pipe p g s) = mem s" "procs (set_pipe p g s) = procs s"
  "win a n ka (set_pipe p g s) = win a n ka s" "set_pipe p g (enter l s) = enter l (set_pipe p g s)"
  "set_pipe p h (set_pipe p g s) = set_pipe p (\<lambda>x. h (g x)) s" "unwaited ch (set_pipe p g s) = unwaited ch s"
  "cpu_ok (set_pipe p g s) = cpu_ok s"
  by (simp_all add: set_pipe_def win_def unwaited_def)

lemma calm_set_pipe [simp]: "calm i s \<Longrightarrow> calm i (set_pipe p g s)"
  by (simp add: set_pipe_def calm_def unwaited_def)

lemma calm_mem [simp]: "calm i s \<Longrightarrow> calm i (s\<lparr>mem := m\<rparr>)"
  by (simp add: calm_def unwaited_def)

lemma pipe_full_iff: "pi_nwrite x = pi_nread x + PIPESIZE \<longleftrightarrow> pipe_count x = 512"
proof
  assume "pi_nwrite x = pi_nread x + PIPESIZE"
  then show "pipe_count x = 512" by (simp add: pipe_count_def)
next
  assume "pipe_count x = 512"
  then show "pi_nwrite x = pi_nread x + PIPESIZE" using pipe_nwrite [of x] by simp
qed

lemma pipe_empty_iff: "pi_nread x = pi_nwrite x \<longleftrightarrow> pipe_count x = 0"
  by (auto simp: pipe_count_def unat_eq_0)

lemma pipewrite_bytes:
  assumes "calm i s" and "win addr n ka s" and "\<forall>j\<in>set js. j < n" and "pipe_ok (pipes s p)"
    and "pipe_count (pipes s p) + length js \<le> 512" and "0 < e_fuel k"
  shows "for_until (pipewrite_byte k p addr) js (enter (L_pipe p) s) =
     Inr (None, enter (L_pipe p) (set_pipe p (fold pipe_put (map (\<lambda>j. mem s (ka j)) js)) s))"
  using assms
proof (induction js arbitrary: s)
  case (Cons j js)
  obtain f where f: "e_fuel k = Suc f" using Cons.prems(6) by (cases "e_fuel k") simp_all
  let ?t = "set_pipe p (pipe_put (mem s (ka j))) s"
  have c: "pipe_count (pipes s p) < 512" using Cons.prems(5) by simp
  have w: "win addr n ka (enter (L_pipe p) s)" using Cons.prems(1,2) by (simp add: calmD)
  have "pipewrite_byte k p addr j (enter (L_pipe p) s) = Inr (None, enter (L_pipe p) ?t)"
    using vload8_win [OF w, of j] Cons.prems(3) c f by (simp add: pipewrite_byte_def pipe_full_iff)
  moreover have "for_until (pipewrite_byte k p addr) js (enter (L_pipe p) ?t) =
      Inr (None, enter (L_pipe p) (set_pipe p (fold pipe_put (map (\<lambda>j. mem ?t (ka j)) js)) ?t))"
    by (rule Cons.IH) (use Cons.prems c pq.put_items [of "pipes s p"] in \<open>simp_all add: pipe_count_put\<close>)
  ultimately show ?case by (simp add: comp_def)
qed (simp add: set_pipe_def)

lemma pipewrite_ok:
  assumes c: "calm i s" and w: "win addr (nat n) ka s" and ok: "pipe_ok (pipes s p)" and u: "unwaited (Ch_nread p) s"
    and room: "pipe_count (pipes s p) + nat n \<le> 512" and k: "0 < e_fuel k"
  shows "pipewrite k p addr n s = Inr (n, set_pipe p (fold pipe_put (map (\<lambda>j. mem s (ka j)) [0..<nat n])) s)"
proof -
  let ?t = "set_pipe p (fold pipe_put (map (\<lambda>j. mem s (ka j)) [0..<nat n])) s"
  have "for_until (pipewrite_byte k p addr) [0..<nat n] (enter (L_pipe p) s) = Inr (None, enter (L_pipe p) ?t)"
    by (rule pipewrite_bytes [where ka = ka, OF c w _ ok _ k]) (use room in simp_all)
  moreover have "calm i ?t" "unwaited (Ch_nread p) ?t" using c u by simp_all
  ultimately show ?thesis
    using c by (simp add: pipewrite_def acquire_calm wakeup_enter_calm [of i ?t] release_calm [of i ?t])
qed

lemma piperead_bytes:
  assumes "calm i s" and "win addr n ka s" and "j + m \<le> n" and "pipe_ok (pipes s p)"
  shows "\<exists>M. piperead_loop m j p addr (enter (L_pipe p) s) =
      Inr (j + min m (pipe_count (pipes s p)),
           enter (L_pipe p) ((set_pipe p (pipe_advance ^^ min m (pipe_count (pipes s p))) s)\<lparr>mem := M\<rparr>)) \<and>
     (\<forall>d < min m (pipe_count (pipes s p)). M (ka (j + d)) = pipe_items (pipes s p) ! d) \<and>
     (\<forall>a. a \<notin> (\<lambda>d. ka (j + d)) ` {..<min m (pipe_count (pipes s p))} \<longrightarrow> M a = mem s a)"
  using assms
proof (induction m arbitrary: j s)
  case 0
  then show ?case by (intro exI [of _ "mem s"]) (simp add: set_pipe_def)
next
  case (Suc m)
  let ?x = "pipes s p"
  show ?case
  proof (cases "pipe_count ?x = 0")
    case True
    then show ?thesis by (intro exI [of _ "mem s"]) (simp add: pipe_empty_iff set_pipe_def)
  next
    case False
    let ?s1 = "set_pipe p pipe_advance s"
    let ?t = "?s1\<lparr>mem := (mem s)(ka j := pipe_first ?x)\<rparr>"
    have ne: "pipe_items ?x \<noteq> []" using False by (metis length_pipe_items list.size(3))
    note F = pq.first_items [OF Suc.prems(4) ne]
    have cnt: "pipe_count (pipe_advance ?x) = pipe_count ?x - 1" using F by (metis length_pipe_items length_tl)
    have w: "win addr n ka (enter (L_pipe p) ?s1)" using Suc.prems(1,2) by (simp add: calmD)
    have st: "vstore8 (addr + of_nat j) (pipe_first ?x) (enter (L_pipe p) ?s1) = Inr (enter (L_pipe p) ?t)"
      using vstore8_win(1) [OF w, of j "pipe_first ?x"] Suc.prems(3) by simp
    have wt: "win addr n ka ?t" using vstore8_win(2) [of addr n ka ?s1 j "pipe_first ?x"] Suc.prems(2,3) by simp
    have pt: "pipes ?t p = pipe_advance ?x" by simp
    obtain M where M: "piperead_loop m (Suc j) p addr (enter (L_pipe p) ?t) =
        Inr (Suc j + min m (pipe_count ?x - 1), enter (L_pipe p) ((set_pipe p (pipe_advance ^^ min m (pipe_count ?x - 1)) ?t)\<lparr>mem := M\<rparr>))"
        "\<forall>d < min m (pipe_count ?x - 1). M (ka (Suc j + d)) = pipe_items (pipe_advance ?x) ! d"
        "\<forall>a. a \<notin> (\<lambda>d. ka (Suc j + d)) ` {..<min m (pipe_count ?x - 1)} \<longrightarrow> M a = mem ?t a"
      using Suc.IH [of ?t "Suc j"] Suc.prems wt F by (auto simp: pt cnt)
    have mn: "min (Suc m) (pipe_count ?x) = Suc (min m (pipe_count ?x - 1))" using False by simp
    have l1: "piperead_loop (Suc m) j p addr (enter (L_pipe p) s) = piperead_loop m (Suc j) p addr (enter (L_pipe p) ?t)"
      using st False by (simp add: pipe_empty_iff Let_def pipe_first_def) (simp add: pipe_advance_def [abs_def])
    have l2: "(set_pipe p (pipe_advance ^^ min m (pipe_count ?x - 1)) ?t)\<lparr>mem := M\<rparr> =
        (set_pipe p (pipe_advance ^^ Suc (min m (pipe_count ?x - 1))) s)\<lparr>mem := M\<rparr>"
      by (simp add: set_pipe_def funpow_swap1)
    have l3: "M (ka (j + d)) = pipe_items ?x ! d" if "d < Suc (min m (pipe_count ?x - 1))" for d
    proof (cases d)
      case 0
      have "ka j \<notin> (\<lambda>d. ka (Suc j + d)) ` {..<min m (pipe_count ?x - 1)}"
      proof
        assume "ka j \<in> (\<lambda>d. ka (Suc j + d)) ` {..<min m (pipe_count ?x - 1)}"
        then obtain e where "e < m" "ka j = ka (Suc j + e)" by auto
        then show False using user_windowD(1) [OF Suc.prems(2) [unfolded win_def], of j "Suc j + e"] Suc.prems(3) by simp
      qed
      then show ?thesis using M(3) F 0 ne by (simp add: hd_conv_nth)
    next
      case (Suc e)
      then show ?thesis using M(2) F that False by (simp add: nth_tl)
    qed
    have l4: "M a = mem s a" if "a \<notin> (\<lambda>d. ka (j + d)) ` {..<Suc (min m (pipe_count ?x - 1))}" for a
    proof -
      have "a \<noteq> ka j" using that by (force simp: image_iff)
      moreover have "a \<notin> (\<lambda>d. ka (Suc j + d)) ` {..<min m (pipe_count ?x - 1)}"
        using that by (force simp: image_iff)
      ultimately show ?thesis using M(3) by simp
    qed
    have "piperead_loop (Suc m) j p addr (enter (L_pipe p) s) = Inr (j + Suc (min m (pipe_count ?x - 1)),
        enter (L_pipe p) ((set_pipe p (pipe_advance ^^ Suc (min m (pipe_count ?x - 1))) s)\<lparr>mem := M\<rparr>))"
      unfolding l1 M(1) l2 by (simp only: add_Suc add_Suc_right)
    then show ?thesis unfolding mn using l3 l4 by blast
  qed
qed

lemma piperead_ok:
  assumes c: "calm i s" and w: "win addr (nat n) ka s" and ok: "pipe_ok (pipes s p)" and u: "unwaited (Ch_nwrite p) s"
    and some: "pipe_count (pipes s p) \<noteq> 0 \<or> \<not> pi_writeopen (pipes s p)" and k: "0 < e_fuel k"
  defines "m \<equiv> min (nat n) (pipe_count (pipes s p))"
  shows "\<exists>M. piperead k p addr n s = Inr (int m, (set_pipe p (pipe_advance ^^ m) s)\<lparr>mem := M\<rparr>) \<and>
     (\<forall>d < m. M (ka d) = pipe_items (pipes s p) ! d) \<and> (\<forall>a. a \<notin> ka ` {..<m} \<longrightarrow> M a = mem s a)"
proof -
  obtain f where f: "e_fuel k = Suc f" using k by (cases "e_fuel k") simp_all
  obtain M where M: "piperead_loop (nat n) 0 p addr (enter (L_pipe p) s) =
      Inr (m, enter (L_pipe p) ((set_pipe p (pipe_advance ^^ m) s)\<lparr>mem := M\<rparr>))"
      "\<forall>d < m. M (ka d) = pipe_items (pipes s p) ! d" "\<forall>a. a \<notin> ka ` {..<m} \<longrightarrow> M a = mem s a"
    using piperead_bytes [OF c w _ ok, of 0 "nat n"] by (auto simp: m_def)
  let ?t = "(set_pipe p (pipe_advance ^^ m) s)\<lparr>mem := M\<rparr>"
  have t: "calm i ?t" "unwaited (Ch_nwrite p) ?t" using c u by (simp_all add: unwaited_def)
  have "piperead k p addr n s = Inr (int m, ?t)"
    using c some f M(1) wakeup_enter_calm [OF t, of "L_pipe p"] release_calm [OF t(1), of "L_pipe p"]
    by (auto simp: piperead_def acquire_calm pipe_empty_iff simp del: kmem_commute_lock)
  then show ?thesis using M(2,3) by blast
qed

text \<open>
  C22: A pipe is a first-in first-out queue. When the bytes fit into the buffer, \<open>write\<close> puts
  all of them into it, and a later \<open>read\<close> of the same length delivers into the reader's
  memory the bytes that were waiting followed by the written ones, in order, however far the
  32-bit counters have advanced.
\<close>

theorem pipe_in_order:
  assumes c: "calm i s" and w: "win src (nat n) ka s" and ok: "pipe_ok (pipes s p)"
    and u: "unwaited (Ch_nread p) s" "unwaited (Ch_nwrite p) s"
    and room: "0 < n" "pipe_count (pipes s p) + nat n \<le> 512" and k: "0 < e_fuel k"
    and dst: "win dst (pipe_count (pipes s p) + nat n) kb s"
  shows "\<exists>t v. pipewrite k p src n s = Inr (n, t) \<and>
     piperead k p dst (int (pipe_count (pipes s p)) + n) t = Inr (int (pipe_count (pipes s p)) + n, v) \<and>
     map (\<lambda>j. mem v (kb j)) [0..<pipe_count (pipes s p) + nat n] =
       pipe_items (pipes s p) @ map (\<lambda>j. mem s (ka j)) [0..<nat n] \<and>
     pipe_count (pipes v p) = 0 \<and> pipe_ok (pipes v p)"
proof -
  let ?bs = "map (\<lambda>j. mem s (ka j)) [0..<nat n]" and ?c = "pipe_count (pipes s p)"
  let ?t = "set_pipe p (fold pipe_put ?bs) s"
  have wr: "pipewrite k p src n s = Inr (n, ?t)" by (rule pipewrite_ok [OF c w ok u(1) room(2) k])
  have q: "pipe_items (pipes ?t p) = pipe_items (pipes s p) @ ?bs" "pipe_ok (pipes ?t p)"
    using pq.put_many [OF ok, of ?bs] room(2) by simp_all
  then have cnt: "pipe_count (pipes ?t p) = ?c + nat n" by (metis length_append length_map length_pipe_items length_upt minus_nat.diff_0)
  have nn: "nat (int ?c + n) = ?c + nat n" using room(1) by simp
  obtain M where M: "piperead k p dst (int ?c + n) ?t =
      Inr (int (?c + nat n), (set_pipe p (pipe_advance ^^ (?c + nat n)) ?t)\<lparr>mem := M\<rparr>)"
      "\<forall>d < ?c + nat n. M (kb d) = (pipe_items (pipes s p) @ ?bs) ! d"
    using piperead_ok [of i ?t dst "int ?c + n" kb p k] c dst q u(2) room(1) k
    unfolding nn cnt q(1) by auto
  let ?v = "(set_pipe p (pipe_advance ^^ (?c + nat n)) ?t)\<lparr>mem := M\<rparr>"
  have "map (\<lambda>j. mem ?v (kb j)) [0..<?c + nat n] = pipe_items (pipes s p) @ ?bs"
    using M(2) by (intro nth_equalityI) simp_all
  moreover have "pipe_items (pipes ?v p) = []" "pipe_ok (pipes ?v p)"
    using pq.take_many [OF q(2), of "?c + nat n"] cnt by simp_all
  then have "pipe_count (pipes ?v p) = 0" by (metis length_pipe_items list.size(3))
  ultimately show ?thesis using wr M(1) room(1) \<open>pipe_ok (pipes ?v p)\<close> by auto
qed

definition sample_pipes :: file_state where
  "sample_pipes = (sample_kernel (\<lambda>_. []) [] [] (\<lambda>_. sample_pipe 0xFFFFFFFE))
     \<lparr>mem := sample_mem(sample_ka 0 := 7, sample_ka 1 := 8, sample_ka 2 := 9)\<rparr>"

lemma sample_pipes_win: "win 0x1FB4 76 sample_ka sample_pipes"
proof -
  let ?s = "sample_kernel (\<lambda>_. []) [] [] (\<lambda>_. sample_pipe 0xFFFFFFFE)"
  note W = vstore8_win(2) [where n = 76 and ka = sample_ka and lo = "0x1FB4"]
  have "win 0x1FB4 76 sample_ka (?s\<lparr>mem := sample_mem(sample_ka 0 := 7)\<rparr>)"
    using W [OF sample_kernel_win, of 0] by simp
  from W [OF this, of 1] have "win 0x1FB4 76 sample_ka (?s\<lparr>mem := sample_mem(sample_ka 0 := 7, sample_ka 1 := 8)\<rparr>)" by simp
  from W [OF this, of 2] show ?thesis by (simp add: sample_pipes_def)
qed

lemma win_prefix: "win lo n ka s \<Longrightarrow> m \<le> n \<Longrightarrow> win lo m ka s"
  by (auto simp: win_def user_window_def)

theorem pipe_in_order_witness:
  "\<exists>t v. pipewrite sample_env 0 0x1FB4 3 sample_pipes = Inr (3, t) \<and> piperead sample_env 0 0x1FB4 3 t = Inr (3, v) \<and>
     map (\<lambda>j. mem v (sample_ka j)) [0..<3] = [7, 8, 9] \<and> pipe_count (pipes v 0) = 0"
proof -
  have w: "win 0x1FB4 3 sample_ka sample_pipes" by (rule win_prefix [OF sample_pipes_win]) simp
  have p: "pipes sample_pipes 0 = sample_pipe 0xFFFFFFFE" by (simp add: sample_pipes_def)
  have c: "pipe_count (sample_pipe 0xFFFFFFFE) = 0" "pipe_ok (sample_pipe 0xFFFFFFFE)"
    by (simp_all add: pipe_ok_def pipe_count_def sample_pipe_def)
  then have i: "pipe_items (sample_pipe 0xFFFFFFFE) = []" by (simp add: pipe_items_def)
  have u: "unwaited (Ch_nread 0) sample_pipes" "unwaited (Ch_nwrite 0) sample_pipes" "calm 1 sample_pipes"
    by (simp_all add: sample_pipes_def unwaited_def sample_procs_def sample_proc_def)
  have ka: "sample_ka 0 \<noteq> sample_ka 1" "sample_ka 0 \<noteq> sample_ka 2" "sample_ka 1 \<noteq> sample_ka 2"
    by (simp_all add: sample_ka_def)
  have "map (\<lambda>j. mem sample_pipes (sample_ka j)) [0..<3] = [7, 8, 9]"
    using ka by (simp add: sample_pipes_def upt_rec numeral_2_eq_2)
  then show ?thesis
    using pipe_in_order [of 1 sample_pipes "0x1FB4" 3 sample_ka 0 sample_env "0x1FB4" sample_ka] w u
    by (auto simp: p c i)
qed

end
