(* ===== verification/Core.thy ===== *)
theory Core
  imports Sample
begin

text \<open>
  Properties of the lower half of the kernel: locks and interrupt masking, the string
  routines, the page allocator, process ids and sleeping.
\<close>

unbundle bit_operations_syntax

text \<open>
  C23: Mutual exclusion. In every interleaving of any number of CPUs that run \<open>acquire\<close> and
  \<open>release\<close> on one lock, at most one CPU is in its critical section, and exactly that CPU
  passes the test of \<open>holding\<close>.
\<close>

theorem mutual_exclusion:
  assumes "contention_reach t" and "ct_pc t i = Critical"
  shows "(ct_pc t j = Critical \<longrightarrow> j = i) \<and> (ct_holding t j \<longleftrightarrow> j = i)"
proof -
  have I: "contention_inv t" using assms(1) by (rule contention_reach_inv)
  have cpu: "lk_cpu (ct_lock t) = Some j \<longleftrightarrow> ct_pc t j = Critical" for j
    using I unfolding contention_inv_def by blast
  have "lk_locked (ct_lock t) \<noteq> 0" using I assms(2) unfolding contention_inv_def by (metis owns_simps(2))
  moreover have "ct_pc t j = Critical \<longrightarrow> j = i" using cpu [of i] cpu [of j] assms(2) by auto
  ultimately show ?thesis using cpu [of i] assms(2) by (auto simp: ct_holding_def)
qed

lemma sample_contention:
  "contention_reach \<lparr>ct_lock = \<lparr>lk_locked = 1, lk_name = [], lk_cpu = Some 2\<rparr>, ct_pc = (\<lambda>_. Outside)(2 := Critical, 1 := Trying)\<rparr>"
proof -
  let ?s = "\<lambda>l c pc. \<lparr>ct_lock = \<lparr>lk_locked = l, lk_name = [], lk_cpu = c\<rparr>, ct_pc = pc\<rparr> :: contention"
  let ?o = "\<lambda>_ :: nat. Outside"
  have "contention_reach (?s 0 None ?o)" using contention_reach.init by (simp add: contention_init_def)
  moreover have "contention_step (?s 0 None ?o) (?s 0 None (?o(2 := Trying)))"
    using contention_step.start [of "?s 0 None ?o" 2] by (simp add: ct_holding_def)
  moreover have "contention_step (?s 0 None (?o(2 := Trying))) (?s 1 None (?o(2 := Won)))"
    using contention_step.xchg_win [of "?s 0 None (?o(2 := Trying))" 2] by simp
  moreover have "contention_step (?s 1 None (?o(2 := Won))) (?s 1 (Some 2) (?o(2 := Critical)))"
    using contention_step.record_cpu [of "?s 1 None (?o(2 := Won))" 2] by simp
  moreover have "contention_step (?s 1 (Some 2) (?o(2 := Critical))) (?s 1 (Some 2) (?o(2 := Critical, 1 := Trying)))"
    using contention_step.start [of "?s 1 (Some 2) (?o(2 := Critical))" 1] by (simp add: ct_holding_def)
  ultimately show ?thesis by (blast intro: contention_reach.step)
qed

theorem mutual_exclusion_witness:
  "contention_reach \<lparr>ct_lock = \<lparr>lk_locked = 1, lk_name = [], lk_cpu = Some 2\<rparr>, ct_pc = (\<lambda>_. Outside)(2 := Critical, 1 := Trying)\<rparr> \<and>
   \<not> ct_holding \<lparr>ct_lock = \<lparr>lk_locked = 1, lk_name = [], lk_cpu = Some 2\<rparr>, ct_pc = (\<lambda>_. Outside)(2 := Critical, 1 := Trying)\<rparr> 1"
  using mutual_exclusion [OF sample_contention, of 2 1] sample_contention by simp



text \<open>
  C30: \<open>memset\<close> fills exactly its range with the low byte of its argument, whether it goes by
  words (aligned ranges) or by bytes.
\<close>

theorem memset_fills:
  "memset d c n m = (\<lambda>a. if in_range d (unat n) a then ucast c else m a)"
  by (rule ext) (rule memset_apply)

text \<open>
  C31: \<open>memmove\<close> copies the old contents of the source to the destination and changes nothing
  else, also when the two ranges overlap in either direction.
\<close>

theorem memmove_moves:
  assumes "unat dst + unat n \<le> 2 ^ 32" and "unat src + unat n \<le> 2 ^ 32"
  shows "memmove dst src n m = (\<lambda>a. if in_range dst (unat n) a then m (src + (a - dst)) else m a)"
  by (rule ext) (rule memmove_apply; use assms in simp)

theorem memmove_moves_witness:
  "memmove 102 100 4 (\<lambda>a. ucast a) 103 = 101 \<and> memmove 102 100 4 (\<lambda>a. ucast a) 106 = 106"
  using memmove_moves [of 102 4 100 "\<lambda>a. ucast a"] by (simp add: in_range_def)

text \<open>
  C25: The page allocator. With the pages \<open>v # vs\<close> in the pool, \<open>kalloc\<close> hands out \<open>v\<close>, which
  is then no longer in the pool, and \<open>kfree\<close> of a valid page that is not in the pool puts it
  back; the pool never holds a page twice.
\<close>

theorem kalloc_kfree:
  assumes "kmem_rep s (v # vs)"
  shows "\<exists>t u. kalloc s = Inr (v, t) \<and> kmem_rep t vs \<and> v \<notin> set vs \<and> v \<noteq> 0 \<and>
     kfree v t = Inr u \<and> kmem_rep u (v # vs) \<and> distinct (v # vs)"
proof -
  obtain t where t: "kalloc s = Inr (v, t)" "kmem_rep t vs" "page_ok t = page_ok s"
    using kpool.alloc_page [OF assms] by auto
  have P: "distinct (v # vs)" "page_ok s v" "v \<noteq> 0" using kpool.rep_pages [OF assms] by auto
  then show ?thesis using t kpool.dealloc_page [OF t(2), of v] by auto
qed

lemma sample_pool: "kmem_rep sample [0x80403000, 0x80404000]"
proof -
  have "load32 sample_mem 0x80403000 = 0x80404000" "load32 sample_mem 0x80404000 = 0"
    by (simp_all add: sample_mem_def load32_far)
  then show ?thesis by (simp add: kmem_rep_def page_ok_def V2P_def)
qed

theorem kalloc_kfree_witness:
  "\<exists>t u. kalloc sample = Inr (0x80403000, t) \<and> kmem_rep t [0x80404000] \<and> kfree 0x80403000 t = Inr u"
  using kalloc_kfree [OF sample_pool] by auto

text \<open>
  C26: Building the pool. \<open>freerange\<close> ends and adds exactly the whole pages between its
  bounds, the last one first, when all of them are pages the allocator accepts.
\<close>

theorem freerange_adds:
  assumes "kmem_rep s vs" and "distinct (page_run (PGROUNDUP vstart) n @ vs)"
    and "\<forall>v \<in> set (page_run (PGROUNDUP vstart) n). page_ok s v"
    and "unat (PGROUNDUP vstart) + 4096 * n \<le> unat vend" and "unat vend < unat (PGROUNDUP vstart) + 4096 * Suc n"
    and "unat (PGROUNDUP vstart) + 4096 < 2 ^ 32"
  shows "\<exists>t. freerange vstart vend s = Inr t \<and> kmem_rep t (rev (page_run (PGROUNDUP vstart) n) @ vs)"
  unfolding freerange_def by (rule freerange_loop_rep) (use assms in simp_all)

theorem freerange_adds_witness:
  "\<exists>t. freerange 0x80405001 0x80408FFF sample = Inr t \<and> kmem_rep t [0x80407000, 0x80406000, 0x80403000, 0x80404000]"
  using freerange_adds [OF sample_pool, of "0x80405001" 2 "0x80408FFF"]
  by (simp add: PGROUNDUP_def page_run_def page_ok_def V2P_def upt_rec)





end
