(* ===== verification/Ulib.thy ===== *)
theory Ulib
  imports Kstring
begin

text \<open>
  The user library: the string routines of \<open>src/ulib.c\<close> and \<open>printf\<close> of \<open>src/printf.c\<close>.

  The memory of the process is the byte memory of \<open>Kstring\<close>. A loop over an unterminated
  string runs on; such a routine takes a bound on the bytes it looks at and stops with
  \<open>OutOfFuel\<close>. The system calls are arguments: \<open>gets\<close> takes \<open>read(0, &c, 1)\<close> as a function that
  returns its result and the byte, \<open>stat\<close> takes the three calls it makes. \<open>printf\<close> yields the
  bytes it hands to \<open>write\<close>, one call each.
\<close>

unbundle bit_operations_syntax

section \<open>Strings\<close>

fun strcpy :: "nat \<Rightarrow> u32 \<Rightarrow> u32 \<Rightarrow> memory \<Rightarrow> memory outcome" where
  "strcpy 0 s t m = Inl OutOfFuel"
| "strcpy (Suc fuel) s t m =
     (let c = m t; m = m(s := c) in if c \<noteq> 0 then strcpy fuel (s + 1) (t + 1) m else Inr m)"

fun strcmp :: "nat \<Rightarrow> u32 \<Rightarrow> u32 \<Rightarrow> memory \<Rightarrow> int outcome" where
  "strcmp 0 p q m = Inl OutOfFuel"
| "strcmp (Suc fuel) p q m =
     (if m p \<noteq> 0 \<and> m p = m q then strcmp fuel (p + 1) (q + 1) m
      else Inr (uint (m p) - uint (m q)))"

fun strlen :: "nat \<Rightarrow> u32 \<Rightarrow> memory \<Rightarrow> nat outcome" where
  "strlen 0 s m = Inl OutOfFuel"
| "strlen (Suc fuel) s m = (if m s = 0 then Inr 0 else and_then (strlen fuel (s + 1) m) (\<lambda>n. Inr (Suc n)))"

definition memset :: "u32 \<Rightarrow> u32 \<Rightarrow> u32 \<Rightarrow> memory \<Rightarrow> memory" where
  "memset dst c n m = stosb (unat n) dst (ucast c) m"

text \<open>\<open>strchr\<close> returns a pointer into the string, or the null pointer.\<close>

fun strchr :: "nat \<Rightarrow> u32 \<Rightarrow> u8 \<Rightarrow> memory \<Rightarrow> u32 outcome" where
  "strchr 0 s c m = Inl OutOfFuel"
| "strchr (Suc fuel) s c m =
     (if m s = 0 then Inr 0 else if m s = c then Inr s else strchr fuel (s + 1) c m)"

text \<open>The loop of \<open>gets\<close>; \<open>left\<close> is \<open>max - 1 - i\<close>, with \<open>max\<close> called \<open>maxn\<close> below. It yields the final \<open>i\<close>.\<close>

fun gets_loop ::
    "('w \<Rightarrow> (int \<times> u8) \<times> 'w) \<Rightarrow> nat \<Rightarrow> u32 \<Rightarrow> u32 \<Rightarrow> memory \<Rightarrow> 'w \<Rightarrow> u32 \<times> memory \<times> 'w" where
  "gets_loop rd 0 buf i m w = (i, m, w)"
| "gets_loop rd (Suc left) buf i m w =
     (case rd w of ((cc, c), w) \<Rightarrow>
        if cc < 1 then (i, m, w)
        else
          let m = m(buf + i := c); i = i + 1 in
          if c = 10 \<or> c = 13 then (i, m, w) else gets_loop rd left buf i m w)"

definition gets ::
    "('w \<Rightarrow> (int \<times> u8) \<times> 'w) \<Rightarrow> u32 \<Rightarrow> int \<Rightarrow> memory \<Rightarrow> 'w \<Rightarrow> memory \<times> 'w" where
  "gets rd buf maxn m w =
     (case gets_loop rd (nat (maxn - 1)) buf 0 m w of (i, m, w) \<Rightarrow> (m(buf + i := 0), w))"

definition stat ::
    "(u32 \<Rightarrow> int \<Rightarrow> 'w \<Rightarrow> int \<times> 'w) \<Rightarrow> (int \<Rightarrow> u32 \<Rightarrow> 'w \<Rightarrow> int \<times> 'w) \<Rightarrow> (int \<Rightarrow> 'w \<Rightarrow> 'w) \<Rightarrow>
       u32 \<Rightarrow> u32 \<Rightarrow> 'w \<Rightarrow> int \<times> 'w" where
  "stat opn fstat cls n st w =
     (case opn n 0 w of (fd, w) \<Rightarrow>
        if fd < 0 then (-1, w)
        else case fstat fd st w of (r, w) \<Rightarrow> (r, cls fd w))"

text \<open>The sum wraps, as the compiled code does.\<close>

fun atoi_loop :: "nat \<Rightarrow> u32 \<Rightarrow> u32 \<Rightarrow> memory \<Rightarrow> u32 outcome" where
  "atoi_loop 0 n s m = Inl OutOfFuel"
| "atoi_loop (Suc fuel) n s m =
     (if 48 \<le> m s \<and> m s \<le> 57 then atoi_loop fuel (n * 10 + ucast (m s) - 48) (s + 1) m else Inr n)"

definition atoi :: "nat \<Rightarrow> u32 \<Rightarrow> memory \<Rightarrow> u32 outcome" where
  "atoi fuel s m = atoi_loop fuel 0 s m"

definition memmove :: "u32 \<Rightarrow> u32 \<Rightarrow> int \<Rightarrow> memory \<Rightarrow> memory" where
  "memmove vdst vsrc n m = move_forth (nat n) vdst vsrc m"

section \<open>Formatted output\<close>

definition digit :: "nat \<Rightarrow> u8" where
  "digit d = of_char (''0123456789ABCDEF'' ! d)"

text \<open>The loop of \<open>printint\<close>: the digits in the order in which they are put into \<open>buf\<close>.\<close>

function digits_loop :: "nat \<Rightarrow> nat \<Rightarrow> u8 list" where
  "digits_loop base x =
     digit (x mod base) # (if base \<le> 1 \<or> x div base = 0 then [] else digits_loop base (x div base))"
  by pat_completeness auto
termination
  by (relation "measure snd") (auto simp: div_greater_zero_iff)

declare digits_loop.simps [simp del]

text \<open>\<open>printint\<close> for a base of at least 2, as \<open>printf\<close> calls it.\<close>

definition printint :: "u32 \<Rightarrow> nat \<Rightarrow> bool \<Rightarrow> u8 list" where
  "printint xx base sg =
     (let neg = (sg \<and> xx <s 0);
          x = (if neg then - xx else xx);
          buf = digits_loop base (unat x) @ (if neg then [45] else [])
      in rev buf)"

fun puts_loop :: "nat \<Rightarrow> u32 \<Rightarrow> memory \<Rightarrow> (u8 list) outcome" where
  "puts_loop 0 s m = Inl OutOfFuel"
| "puts_loop (Suc fuel) s m =
     (if m s = 0 then Inr [] else and_then (puts_loop fuel (s + 1) m) (\<lambda>out. Inr (m s # out)))"

text \<open>
  One step of \<open>printf\<close> with state \<open>'%'\<close>: what is put out for the character \<open>c\<close> and the
  remaining arguments. Taking an argument that was not passed reads foreign memory.
\<close>

definition printf_conv :: "nat \<Rightarrow> memory \<Rightarrow> u8 \<Rightarrow> u32 list \<Rightarrow> (u8 list \<times> u32 list) outcome" where
  "printf_conv fuel m c ap =
     (if c \<in> set (map of_char ''dxpsc'') then
        (case ap of
           [] \<Rightarrow> Inl (Undefined ''printf: no argument'')
         | a # ap \<Rightarrow>
             if c = of_char (CHR ''d'') then Inr (printint a 10 True, ap)
             else if c = of_char (CHR ''s'') then
               (if a = 0 then Inr (map of_char ''(null)'', ap)
                else and_then (puts_loop fuel a m) (\<lambda>out. Inr (out, ap)))
             else if c = of_char (CHR ''c'') then Inr ([ucast a], ap)
             else Inr (printint a 16 False, ap))
      else if c = 37 then Inr ([c], ap)
      else Inr ([37, c], ap))"

fun printf_loop :: "nat \<Rightarrow> memory \<Rightarrow> bool \<Rightarrow> u8 list \<Rightarrow> u32 list \<Rightarrow> (u8 list) outcome" where
  "printf_loop fuel m st [] ap = Inr []"
| "printf_loop fuel m st (c # cs) ap =
     (if \<not> st then
        (if c = 37 then printf_loop fuel m True cs ap
         else and_then (printf_loop fuel m False cs ap) (\<lambda>out. Inr (c # out)))
      else
        and_then (printf_conv fuel m c ap) (\<lambda>(o1, ap).
        and_then (printf_loop fuel m False cs ap) (\<lambda>out. Inr (o1 @ out))))"

definition printf :: "nat \<Rightarrow> memory \<Rightarrow> u8 list \<Rightarrow> u32 list \<Rightarrow> (u8 list) outcome" where
  "printf fuel m fmt ap = printf_loop fuel m False fmt ap"

section \<open>Numbers\<close>

text \<open>\<open>string_at m s xs\<close>: the bytes \<open>xs\<close> and a terminating zero are in memory at \<open>s\<close>.\<close>

fun string_at :: "memory \<Rightarrow> u32 \<Rightarrow> u8 list \<Rightarrow> bool" where
  "string_at m s [] \<longleftrightarrow> m s = 0"
| "string_at m s (c # xs) \<longleftrightarrow> m s = c \<and> c \<noteq> 0 \<and> string_at m (s + 1) xs"

lemma digit_byte: "d < 10 \<Longrightarrow> 48 \<le> digit d \<and> digit d \<le> 57 \<and> ucast (digit d) = (of_nat d + 48 :: u32)"
proof -
  assume "d < 10"
  then have "d = 0 \<or> d = 1 \<or> d = 2 \<or> d = 3 \<or> d = 4 \<or> d = 5 \<or> d = 6 \<or> d = 7 \<or> d = 8 \<or> d = 9" by arith
  then show ?thesis by (elim disjE) (simp_all add: digit_def)
qed

definition add_digit :: "u32 \<Rightarrow> u8 \<Rightarrow> u32" where
  "add_digit n c = n * 10 + ucast c - 48"

lemma atoi_loop_digits:
  assumes "string_at m s xs" and "\<forall>c\<in>set xs. 48 \<le> c \<and> c \<le> 57" and "length xs < fuel"
  shows "atoi_loop fuel n s m = Inr (foldl add_digit n xs)"
  using assms
proof (induction xs arbitrary: fuel n s)
  case Nil
  then show ?case by (cases fuel) auto
next
  case (Cons c xs)
  then show ?case by (cases fuel) (auto simp: add_digit_def)
qed

lemma digits_loop_bytes: "c \<in> set (digits_loop 10 x) \<Longrightarrow> 48 \<le> c \<and> c \<le> 57"
proof (induction "10 :: nat" x rule: digits_loop.induct)
  case (1 x)
  then show ?case
    using digit_byte [of "x mod 10"] by (subst (asm) (2) digits_loop.simps) (auto split: if_splits)
qed

lemma digits_loop_value: "foldl add_digit 0 (rev (digits_loop 10 x)) = of_nat x"
proof (induction "10 :: nat" x rule: digits_loop.induct)
  case (1 x)
  have d: "ucast (digit (x mod 10)) = (of_nat (x mod 10) + 48 :: u32)" using digit_byte [of "x mod 10"] by simp
  have x: "of_nat (x div 10) * 10 + of_nat (x mod 10) = (of_nat x :: u32)"
    by (metis div_mult_mod_eq of_nat_add of_nat_mult of_nat_numeral)
  show ?case
  proof (cases "x div 10 = 0")
    case True
    then show ?thesis using d x by (subst digits_loop.simps) (simp add: add_digit_def)
  next
    case False
    then show ?thesis using d x 1 by (subst digits_loop.simps) (simp add: add_digit_def)
  qed
qed

text \<open>
  C39: Printing and reading of numbers. \<open>atoi\<close> applied to what \<open>printf\<close> writes for \<open>%d\<close> gives the
  number back when it is not negative; for a negative number it gives 0, since \<open>atoi\<close> does not
  take a sign.
\<close>

theorem atoi_printint:
  assumes "printf fuel m [37, 100] [n] = Inr out" and "string_at m' s out" and "length out < fuel'"
  shows "atoi fuel' s m' = Inr (if n <s 0 then 0 else n)"
proof -
  have out: "out = printint n 10 True"
    using assms(1) by (simp add: printf_def printf_conv_def)
  show ?thesis
  proof (cases "n <s 0")
    case True
    then have "out = 45 # rev (digits_loop 10 (unat (- n)))" by (simp add: out printint_def Let_def)
    with assms(2,3) True show ?thesis by (cases fuel') (auto simp: atoi_def)
  next
    case False
    then have "out = rev (digits_loop 10 (unat n))" by (simp add: out printint_def Let_def)
    then show ?thesis
      using False assms(2,3) atoi_loop_digits [of m' s out fuel' 0] digits_loop_bytes digits_loop_value [of "unat n"]
      by (simp add: atoi_def)
  qed
qed

theorem atoi_printint_witness:
  "\<exists>out. printf 1 (\<lambda>_. 0) [37, 100] [1997] = Inr out \<and> out = [49, 57, 57, 55] \<and>
     atoi 9 0 ((\<lambda>_. 0)(0 := 49, 1 := 57, 2 := 57, 3 := 55)) = Inr 1997"
proof -
  have "digits_loop 10 1997 = [55, 57, 57, 49]" by (simp add: digits_loop.simps digit_def)
  moreover have "\<not> (1997 :: u32) <s 0" by (simp add: word_sless_alt)
  ultimately have "printf 1 (\<lambda>_. 0) [37, 100] [1997] = Inr [49, 57, 57, 55]"
    by (simp add: printf_def printf_conv_def printint_def Let_def)
  then show ?thesis
    using atoi_printint [of 1 "\<lambda>_. 0" 1997 "[49, 57, 57, 55]" "(\<lambda>_. 0)(0 := 49, 1 := 57, 2 := 57, 3 := 55)" 0 9]
    by (simp add: word_sless_alt)
qed

end
