(* ===== verification/Grep.thy ===== *)
theory Grep
  imports Xv6_Prelude
begin

text \<open>
  \<open>src/grep.c\<close>: the regular expression matcher and the loop that filters the lines of a file.

  A C string is the list of its bytes before the terminating zero. The static buffer of 1024
  bytes is the list of its first \<open>m\<close> bytes, where \<open>m\<close> is the C variable; the bytes after them
  are only read as the terminating zero that the loop stores. The results of the successive
  calls of \<open>read\<close> are an argument: the chunks delivered, the empty list for end of file or an
  error. A call asks for at most 1023 bytes less those kept in the buffer.
\<close>

section \<open>The matcher\<close>

function (sequential) matchhere :: "u8 list \<Rightarrow> u8 list \<Rightarrow> bool"
  and matchstar :: "u8 \<Rightarrow> u8 list \<Rightarrow> u8 list \<Rightarrow> bool" where
  "matchhere [] tx = True"
| "matchhere (c # re) tx =
     (if re \<noteq> [] \<and> hd re = 42 then matchstar c (tl re) tx
      else if c = 36 \<and> re = [] then tx = []
      else case tx of
        [] \<Rightarrow> False
      | x # tx \<Rightarrow> (if c = 46 \<or> c = x then matchhere re tx else False))"
| "matchstar c re tx =
     (if matchhere re tx then True
      else case tx of
        [] \<Rightarrow> False
      | x # tx \<Rightarrow> (if x = c \<or> c = 46 then matchstar c re tx else False))"
  by pat_completeness auto
termination
  by (relation "inv_image (less_than <*lex*> less_than <*lex*> less_than)
        (\<lambda>x. case x of Inl (re, tx) \<Rightarrow> (length re, length tx, 0 :: nat)
           | Inr (c, re, tx) \<Rightarrow> (length re, length tx, 1))") auto

fun match_anywhere :: "u8 list \<Rightarrow> u8 list \<Rightarrow> bool" where
  "match_anywhere re tx =
     (if matchhere re tx then True else case tx of [] \<Rightarrow> False | _ # tx \<Rightarrow> match_anywhere re tx)"

definition match :: "u8 list \<Rightarrow> u8 list \<Rightarrow> bool" where
  "match re tx = (if re \<noteq> [] \<and> hd re = 94 then matchhere (tl re) tx else match_anywhere re tx)"

declare matchhere.simps [simp del] matchstar.simps [simp del] match_anywhere.simps [simp del]

section \<open>The filter\<close>

text \<open>
  The inner loop on the bytes from \<open>p\<close> on: the output of the \<open>write\<close> calls, and the bytes from
  the final \<open>p\<close> on. \<open>strchr\<close> stops at a zero byte.
\<close>

function grep_lines :: "u8 list \<Rightarrow> u8 list \<Rightarrow> u8 list \<times> u8 list" where
  "grep_lines pattern p =
     (let line = takeWhile (\<lambda>c. c \<noteq> 0 \<and> c \<noteq> 10) p; q = drop (length line) p in
      if q = [] \<or> hd q = 0 then ([], p)
      else case grep_lines pattern (tl q) of (out, p) \<Rightarrow>
        ((if match pattern line then line @ [10] else []) @ out, p))"
  by pat_completeness auto
termination
  by (relation "measure (\<lambda>(pattern, p). length p)") (simp, force simp: Let_def)

declare grep_lines.simps [simp del]

text \<open>One round of the outer loop on the bytes kept from the last one: output and bytes to keep.\<close>

definition grep_round :: "u8 list \<Rightarrow> u8 list \<Rightarrow> u8 list \<times> u8 list" where
  "grep_round pattern buf =
     (case grep_lines pattern buf of (out, p) \<Rightarrow>
        if length p = length buf then (out, []) else (out, p))"

text \<open>The outer loop: \<open>cs\<close> are the chunks that the successive calls of \<open>read\<close> deliver.\<close>

fun grep :: "u8 list \<Rightarrow> u8 list \<Rightarrow> u8 list list \<Rightarrow> u8 list" where
  "grep pattern buf [] = []"
| "grep pattern buf (c # cs) =
     (if c = [] then []
      else case grep_round pattern (buf @ c) of (out, buf) \<Rightarrow> out @ grep pattern buf cs)"

section \<open>What the matcher decides\<close>

text \<open>
  A pattern is a sequence of items: one byte of a class, any number of bytes of a class, or
  the end of the line; \<open>compile\<close> reads them off the pattern.
\<close>

datatype item = One u8 | Many u8 | Eol

fun compile :: "u8 list \<Rightarrow> item list" where
  "compile [] = []"
| "compile [c] = (if c = 36 then [Eol] else [One c])"
| "compile (c # d # re) = (if d = 42 then Many c # compile re else One c # compile (d # re))"

definition cls :: "u8 \<Rightarrow> u8 set" where
  "cls c = (if c = 46 then UNIV else {c})"

fun item_lang :: "item \<Rightarrow> u8 list set" where
  "item_lang (One c) = {[x] | x. x \<in> cls c}"
| "item_lang (Many c) = lists (cls c)"
| "item_lang Eol = {[]}"

text \<open>The text begins with words of the items, and ends there if the end of the line is asked for.\<close>

definition begins :: "item list \<Rightarrow> u8 list \<Rightarrow> bool" where
  "begins is tx \<longleftrightarrow>
     (\<exists>ws rest. tx = concat ws @ rest \<and> list_all2 (\<lambda>w i. w \<in> item_lang i) ws is \<and>
        (Eol \<in> set is \<longrightarrow> rest = []))"

lemma begins_Nil: "begins [] tx"
  by (simp add: begins_def)

lemma begins_Cons:
  assumes "i \<noteq> Eol"
  shows "begins (i # is) tx \<longleftrightarrow> (\<exists>u v. tx = u @ v \<and> u \<in> item_lang i \<and> begins is v)" (is "_ \<longleftrightarrow> ?R")
proof
  assume "begins (i # is) tx"
  then obtain ws rest where w: "tx = concat ws @ rest" "list_all2 (\<lambda>w i. w \<in> item_lang i) ws (i # is)"
      "Eol \<in> set is \<longrightarrow> rest = []"
    using assms by (auto simp: begins_def)
  then obtain u vs where "ws = u # vs" "u \<in> item_lang i" "list_all2 (\<lambda>w i. w \<in> item_lang i) vs is"
    by (auto simp: list_all2_Cons2)
  with w show ?R unfolding begins_def by (metis append_assoc concat.simps(2))
next
  assume ?R
  then obtain u ws rest where "tx = u @ concat ws @ rest" "u \<in> item_lang i"
      "list_all2 (\<lambda>w i. w \<in> item_lang i) ws is" "Eol \<in> set is \<longrightarrow> rest = []"
    by (auto simp: begins_def)
  then show "begins (i # is) tx"
    unfolding begins_def using assms by (intro exI [of _ "u # ws"] exI [of _ rest]) simp
qed

lemma split_Cons:
  "(\<exists>u v. x # xs = u @ v \<and> P u v) \<longleftrightarrow> P [] (x # xs) \<or> (\<exists>u v. xs = u @ v \<and> P (x # u) v)"
  by (metis append.simps Cons_eq_append_conv)

lemma begins_One [simp]:
  "\<not> begins (One c # is) []" "begins (One c # is) (x # tx) \<longleftrightarrow> x \<in> cls c \<and> begins is tx"
  by (simp_all add: begins_Cons split_Cons)

lemma begins_Many: "begins (Many c # is) tx \<longleftrightarrow> (\<exists>u v. tx = u @ v \<and> u \<in> lists (cls c) \<and> begins is v)"
  by (simp add: begins_Cons)

lemma begins_Eol: "begins [Eol] tx \<longleftrightarrow> tx = []"
  by (auto simp: begins_def list_all2_Cons2)

lemma matchstar_iff:
  "matchstar c re tx \<longleftrightarrow> (\<exists>u v. tx = u @ v \<and> u \<in> lists (cls c) \<and> matchhere re v)"
proof (induction tx)
  case Nil
  then show ?case by (simp add: matchstar.simps)
next
  case (Cons x tx)
  then show ?case by (subst matchstar.simps) (auto simp: cls_def split_Cons)
qed

lemma matchhere_iff: "matchhere re tx \<longleftrightarrow> begins (compile re) tx"
proof (induction re arbitrary: tx rule: compile.induct)
  case 1
  then show ?case by (simp add: begins_Nil matchhere.simps)
next
  case (2 c)
  then show ?case
    by (cases tx) (auto simp: matchhere.simps begins_Eol begins_Nil cls_def)
next
  case (3 c d re)
  then show ?case
    by (cases tx) (auto simp: matchhere.simps matchstar_iff begins_Many cls_def)
qed

lemma match_anywhere_iff: "match_anywhere re tx \<longleftrightarrow> (\<exists>u v. tx = u @ v \<and> matchhere re v)"
proof (induction tx)
  case Nil
  then show ?case by (simp add: match_anywhere.simps)
next
  case (Cons x tx)
  then show ?case by (subst match_anywhere.simps) (auto simp: split_Cons)
qed

text \<open>
  C33: The matcher decides the language of the pattern. \<open>match\<close> accepts a line exactly if, from
  some position on (from the first one for a pattern that starts with \<open>^\<close>), the line begins
  with a word of each item of the pattern in turn.
\<close>

theorem match_language:
  "match re tx \<longleftrightarrow>
     (if re \<noteq> [] \<and> hd re = 94 then begins (compile (tl re)) tx
      else \<exists>u v. tx = u @ v \<and> begins (compile re) v)"
  by (simp add: match_def match_anywhere_iff matchhere_iff)

section \<open>What the filter puts out\<close>

text \<open>The complete lines of a text, each with its newline, and the rest after the last newline.\<close>

fun lines :: "u8 list \<Rightarrow> u8 list list \<times> u8 list" where
  "lines [] = ([], [])"
| "lines (c # xs) =
     (case lines xs of (ls, r) \<Rightarrow>
        if c = 10 then ([c] # ls, r) else (case ls of [] \<Rightarrow> ([], c # r) | l # ls \<Rightarrow> ((c # l) # ls, r)))"

definition selected :: "u8 list \<Rightarrow> u8 list list \<Rightarrow> u8 list" where
  "selected pattern ls = concat (filter (\<lambda>l. match pattern (butlast l)) ls)"

lemma lines_plain: "10 \<notin> set xs \<Longrightarrow> lines xs = ([], xs)"
  by (induction xs) auto

lemma lines_first:
  "10 \<notin> set l \<Longrightarrow> lines (l @ 10 # xs) = (case lines xs of (ls, r) \<Rightarrow> ((l @ [10]) # ls, r))"
  by (induction l) (auto split: prod.splits)

lemma lines_rest: "lines xs = (ls, r) \<Longrightarrow> 10 \<notin> set r \<and> (ls = [] \<longleftrightarrow> 10 \<notin> set xs) \<and> xs = concat ls @ r"
  by (induction xs arbitrary: ls r) (fastforce split: prod.splits if_splits list.splits)+

lemma lines_append:
  "lines xs = (ls, r) \<Longrightarrow> lines (r @ ys) = (ls', r') \<Longrightarrow> lines (xs @ ys) = (ls @ ls', r')"
proof (induction xs arbitrary: ls r)
  case Nil
  then show ?case by simp
next
  case (Cons c xs)
  obtain l1 r1 where 1: "lines xs = (l1, r1)" by force
  show ?case
  proof (cases "c = 10 \<or> l1 \<noteq> []")
    case True
    then have "r = r1" using Cons.prems(1) 1 by (auto split: list.splits if_splits)
    with Cons.IH [OF 1] Cons.prems 1 True show ?thesis by (auto split: list.splits if_splits)
  next
    case False
    then have "ls = []" "r = c # r1" "xs = r1" using Cons.prems(1) 1 lines_rest [OF 1] by auto
    with Cons.prems show ?thesis by simp
  qed
qed

lemma lines_nonempty: "lines xs = (ls, r) \<Longrightarrow> [] \<notin> set ls"
  by (induction xs arbitrary: ls r) (fastforce split: prod.splits if_splits list.splits)+

lemma takeWhile_line:
  "0 \<notin> set l \<Longrightarrow> 10 \<notin> set l \<Longrightarrow> takeWhile (\<lambda>c. c \<noteq> 0 \<and> c \<noteq> 10) (l @ xs) = l @ takeWhile (\<lambda>c. c \<noteq> 0 \<and> c \<noteq> (10::u8)) xs"
  by (intro takeWhile_append2) auto

lemma grep_lines_end: "0 \<notin> set p \<Longrightarrow> 10 \<notin> set p \<Longrightarrow> grep_lines pattern p = ([], p)"
proof -
  assume "0 \<notin> set p" "10 \<notin> set p"
  then have "takeWhile (\<lambda>c. c \<noteq> 0 \<and> c \<noteq> 10) p = p" by auto
  then show ?thesis by (subst grep_lines.simps) (simp only: Let_def, simp)
qed

lemma grep_lines_line:
  "0 \<notin> set l \<Longrightarrow> 10 \<notin> set l \<Longrightarrow> grep_lines pattern (l @ 10 # q) =
     (case grep_lines pattern q of (out, p) \<Rightarrow> ((if match pattern l then l @ [10] else []) @ out, p))"
  using takeWhile_line [of l "10 # q"] by (subst grep_lines.simps) (simp add: Let_def)

lemma grep_lines_eq:
  "0 \<notin> set p \<Longrightarrow> grep_lines pattern p = (case lines p of (ls, r) \<Rightarrow> (selected pattern ls, r))"
proof (induction "length p" arbitrary: p rule: less_induct)
  case less
  show ?case
  proof (cases "10 \<in> set p")
    case False
    then show ?thesis using less.prems by (simp add: grep_lines_end lines_plain selected_def)
  next
    case True
    then obtain l q where p: "p = l @ 10 # q" "10 \<notin> set l" by (metis split_list_first)
    then have "grep_lines pattern q = (case lines q of (ls, r) \<Rightarrow> (selected pattern ls, r))"
      using less by simp
    then show ?thesis
      using p less.prems by (simp add: grep_lines_line lines_first selected_def split: prod.splits)
  qed
qed

text \<open>
  C37: The filter. When every call of \<open>read\<close> delivers a chunk with a newline in it and no zero
  byte, \<open>grep\<close> writes exactly the lines of the whole input that match, in order, whatever the
  boundaries of the chunks are; the rest after the last newline is not examined.
\<close>

theorem grep_selects:
  assumes "\<forall>c\<in>set cs. 10 \<in> set c \<and> 0 \<notin> set c"
  shows "grep pattern [] cs = selected pattern (fst (lines (concat cs)))"
proof -
  have "grep pattern b cs = selected pattern (fst (lines (b @ concat cs)))" if "10 \<notin> set b" "0 \<notin> set b" for b
    using assms that
  proof (induction cs arbitrary: b)
    case Nil
    then show ?case by (simp add: lines_plain selected_def)
  next
    case (Cons c cs)
    obtain ls r where 1: "lines (b @ c) = (ls, r)" by force
    have 2: "10 \<notin> set r" "ls \<noteq> []" "b @ c = concat ls @ r" using lines_rest [OF 1] Cons.prems by auto
    then have "length r < length (b @ c)" using lines_nonempty [OF 1] by (cases ls) auto
    then have "grep_round pattern (b @ c) = (selected pattern ls, r)"
      using Cons.prems 1 by (simp add: grep_round_def grep_lines_eq)
    moreover have "0 \<notin> set r" using 2(3) Cons.prems by (metis UnE Un_iff list.set_intros(1) set_append)
    moreover obtain ls2 r2 where 3: "lines (r @ concat cs) = (ls2, r2)" by force
    moreover have "c \<noteq> []" using Cons.prems by auto
    ultimately show ?case
      using Cons.IH [of r] Cons.prems 2(1,2) lines_append [OF 1 3] by (simp add: selected_def)
  qed
  from this [of "[]"] show ?thesis by simp
qed

theorem grep_selects_witness:
  "grep [98] [] [[97, 10, 98], [99, 10, 100]] = [98, 99, 10]"
  using grep_selects [of "[[97, 10, 98], [99, 10, 100]]" "[98]"]
  by (simp add: selected_def match_def match_anywhere.simps matchhere.simps)


end
