(* ===== verification/Sh.thy ===== *)
theory Sh
  imports Xv6_Prelude
begin

text \<open>
  The shell, \<open>src/sh.c\<close>: the tokeniser, the recursive descent parser, \<open>nulterminate\<close>, and
  \<open>runcmd\<close> with the system calls it makes.

  The input buffer is the list of its bytes before the terminating zero, and a pointer into
  it is an index; \<open>es\<close> is the length of the list. A command keeps, as in the code, the start
  and the end of each of its strings. The parser takes bounds on the depth of its recursion
  and on its loops; \<open>parsecmd\<close> passes the length of the input plus one, which is shown to be
  enough.
\<close>

section \<open>Tokens\<close>

definition at :: "u8 list \<Rightarrow> nat \<Rightarrow> u8" where
  "at b i = (if i < length b then b ! i else 0)"

definition space :: "u8 \<Rightarrow> bool" where
  "space c = (c \<in> {32, 9, 13, 10, 11})"

text \<open>The bytes of \<open><|>&;()\<close>.\<close>

definition symbol :: "u8 \<Rightarrow> bool" where
  "symbol c = (c \<in> {60, 124, 62, 38, 59, 40, 41})"

text \<open>The loops \<open>while(s < es && test(*s)) s++;\<close>.\<close>

function span :: "(u8 \<Rightarrow> bool) \<Rightarrow> u8 list \<Rightarrow> nat \<Rightarrow> nat" where
  "span P b s = (if s < length b \<and> P (b ! s) then span P b (Suc s) else s)"
  by pat_completeness auto
termination
  by (relation "measure (\<lambda>(P, b, s). length b - s)") auto

declare span.simps [simp del]

definition word_char :: "u8 \<Rightarrow> bool" where
  "word_char c = (\<not> space c \<and> \<not> symbol c)"

text \<open>\<open>gettoken\<close>: the result, the values stored to \<open>*q\<close> and \<open>*eq\<close>, and the new \<open>*ps\<close>.\<close>

definition gettoken :: "u8 list \<Rightarrow> nat \<Rightarrow> u8 \<times> nat \<times> nat \<times> nat" where
  "gettoken b s =
     (let s = span space b s; q = s; c = at b s;
          (ret, s) =
            (if c = 0 then (c, s)
             else if c \<in> {124, 40, 41, 59, 38, 60} then (c, s + 1)
             else if c = 62 then (if at b (s + 1) = 62 then (43, s + 2) else (c, s + 1))
             else (97, span word_char b s))
      in (ret, q, s, span space b s))"

definition peek :: "u8 list \<Rightarrow> nat \<Rightarrow> u8 set \<Rightarrow> bool \<times> nat" where
  "peek b s toks = (let s = span space b s in (at b s \<noteq> 0 \<and> at b s \<in> toks, s))"

section \<open>Commands\<close>

datatype cmd =
    EXEC "(nat \<times> nat) list"
  | REDIR cmd nat nat int int
  | PIPE cmd cmd
  | LIST cmd cmd
  | BACK cmd

abbreviation (input) MAXARGS :: nat where "MAXARGS \<equiv> 10"
abbreviation (input) O_RDONLY :: int where "O_RDONLY \<equiv> 0"
abbreviation (input) O_WRONLY_CREATE :: int where "O_WRONLY_CREATE \<equiv> 0x201"

section \<open>The parser\<close>

text \<open>
  A redirection is (\<open>file\<close>, \<open>efile\<close>, \<open>mode\<close>, \<open>fd\<close>). \<open>parseredirs\<close> yields the redirections
  that it wraps around its argument, since \<open>parseexec\<close> goes on to fill in the innermost command
  after it was wrapped; \<open>wrap\<close> applies \<open>redircmd\<close> for each of them.
\<close>

type_synonym redir = "nat \<times> nat \<times> int \<times> int"

definition redir_of :: "u8 \<Rightarrow> nat \<Rightarrow> nat \<Rightarrow> redir" where
  "redir_of tok q eq = (if tok = 60 then (q, eq, O_RDONLY, 0) else (q, eq, O_WRONLY_CREATE, 1))"

definition wrap :: "cmd \<Rightarrow> redir list \<Rightarrow> cmd" where
  "wrap c rs = foldl (\<lambda>c (q, eq, mode, fd). REDIR c q eq mode fd) c rs"

fun parseredirs :: "nat \<Rightarrow> u8 list \<Rightarrow> redir list \<Rightarrow> nat \<Rightarrow> (redir list \<times> nat) outcome" where
  "parseredirs 0 b rs s = Inl OutOfFuel"
| "parseredirs (Suc fuel) b rs s =
     (case peek b s {60, 62} of (yes, s) \<Rightarrow>
        if \<not> yes then Inr (rs, s)
        else case gettoken b s of (tok, _, _, s) \<Rightarrow>
          case gettoken b s of (tok', q, eq, s) \<Rightarrow>
            if tok' \<noteq> 97 then Inl (Panic ''missing file for redirection'')
            else parseredirs fuel b (rs @ [redir_of tok q eq]) s)"

text \<open>The loop of \<open>parseexec\<close> over the arguments.\<close>

fun parseexec_args ::
    "nat \<Rightarrow> u8 list \<Rightarrow> (nat \<times> nat) list \<Rightarrow> redir list \<Rightarrow> nat \<Rightarrow> (cmd \<times> nat) outcome" where
  "parseexec_args 0 b argv rs s = Inl OutOfFuel"
| "parseexec_args (Suc fuel) b argv rs s =
     (case peek b s {124, 41, 38, 59} of (yes, s) \<Rightarrow>
        if yes then Inr (wrap (EXEC argv) rs, s)
        else case gettoken b s of (tok, q, eq, s) \<Rightarrow>
          if tok = 0 then Inr (wrap (EXEC argv) rs, s)
          else if tok \<noteq> 97 then Inl (Panic ''syntax'')
          else
            let argv = argv @ [(q, eq)] in
            if length argv \<ge> MAXARGS then Inl (Panic ''too many args'')
            else and_then (parseredirs fuel b rs s) (\<lambda>(rs, s). parseexec_args fuel b argv rs s))"

text \<open>The loop of \<open>parseline\<close> over \<open>&\<close>.\<close>

fun parseline_back :: "nat \<Rightarrow> u8 list \<Rightarrow> cmd \<Rightarrow> nat \<Rightarrow> (cmd \<times> nat) outcome" where
  "parseline_back 0 b c s = Inl OutOfFuel"
| "parseline_back (Suc fuel) b c s =
     (case peek b s {38} of (yes, s) \<Rightarrow>
        if \<not> yes then Inr (c, s)
        else case gettoken b s of (_, _, _, s) \<Rightarrow> parseline_back fuel b (BACK c) s)"

text \<open>
  \<open>parseblock\<close>, \<open>parseexec\<close> and \<open>parsepipe\<close> call \<open>parseline\<close> for what is between parentheses;
  it is their argument \<open>line\<close>.
\<close>

definition parseblock ::
    "(u8 list \<Rightarrow> nat \<Rightarrow> (cmd \<times> nat) outcome) \<Rightarrow> nat \<Rightarrow> u8 list \<Rightarrow> nat \<Rightarrow> (cmd \<times> nat) outcome" where
  "parseblock line fuel b s =
     (case peek b s {40} of (yes, s) \<Rightarrow>
        if \<not> yes then Inl (Panic ''parseblock'')
        else case gettoken b s of (_, _, _, s) \<Rightarrow>
          and_then (line b s) (\<lambda>(c, s).
            case peek b s {41} of (yes, s) \<Rightarrow>
              if \<not> yes then Inl (Panic ''syntax - missing )'')
              else case gettoken b s of (_, _, _, s) \<Rightarrow>
                and_then (parseredirs fuel b [] s) (\<lambda>(rs, s). Inr (wrap c rs, s))))"

definition parseexec ::
    "(u8 list \<Rightarrow> nat \<Rightarrow> (cmd \<times> nat) outcome) \<Rightarrow> nat \<Rightarrow> u8 list \<Rightarrow> nat \<Rightarrow> (cmd \<times> nat) outcome" where
  "parseexec line fuel b s =
     (case peek b s {40} of (yes, s) \<Rightarrow>
        if yes then parseblock line fuel b s
        else and_then (parseredirs fuel b [] s) (\<lambda>(rs, s). parseexec_args fuel b [] rs s))"

primrec parsepipe ::
    "nat \<Rightarrow> (u8 list \<Rightarrow> nat \<Rightarrow> (cmd \<times> nat) outcome) \<Rightarrow> nat \<Rightarrow> u8 list \<Rightarrow> nat \<Rightarrow> (cmd \<times> nat) outcome" where
  "parsepipe 0 line fuel b s = Inl OutOfFuel"
| "parsepipe (Suc n) line fuel b s =
     and_then (parseexec line fuel b s) (\<lambda>(c, s).
       case peek b s {124} of (yes, s) \<Rightarrow>
         if \<not> yes then Inr (c, s)
         else case gettoken b s of (_, _, _, s) \<Rightarrow>
           and_then (parsepipe n line fuel b s) (\<lambda>(d, s). Inr (PIPE c d, s)))"

primrec parseline :: "nat \<Rightarrow> nat \<Rightarrow> u8 list \<Rightarrow> nat \<Rightarrow> (cmd \<times> nat) outcome" where
  "parseline 0 fuel b s = Inl OutOfFuel"
| "parseline (Suc n) fuel b s =
     and_then (parsepipe fuel (parseline n fuel) fuel b s) (\<lambda>(c, s).
     and_then (parseline_back fuel b c s) (\<lambda>(c, s).
       case peek b s {59} of (yes, s) \<Rightarrow>
         if \<not> yes then Inr (c, s)
         else case gettoken b s of (_, _, _, s) \<Rightarrow>
           and_then (parseline n fuel b s) (\<lambda>(d, s). Inr (LIST c d, s))))"

text \<open>\<open>nulterminate\<close> stores a zero at the end of every string of a command.\<close>

primrec nulterminate :: "cmd \<Rightarrow> u8 list \<Rightarrow> u8 list" where
  "nulterminate (EXEC argv) b = fold (\<lambda>(q, eq) b. b[eq := 0]) argv b"
| "nulterminate (REDIR c q eq mode fd) b = (nulterminate c b)[eq := 0]"
| "nulterminate (PIPE l r) b = nulterminate r (nulterminate l b)"
| "nulterminate (LIST l r) b = nulterminate r (nulterminate l b)"
| "nulterminate (BACK c) b = nulterminate c b"

text \<open>\<open>parsecmd\<close>: the command and the buffer, now with its last zero.\<close>

definition parsecmd :: "u8 list \<Rightarrow> (cmd \<times> u8 list) outcome" where
  "parsecmd b =
     and_then (parseline (length b + 1) (length b + 1) b 0) (\<lambda>(c, s).
       case peek b s {} of (_, s) \<Rightarrow>
         if s \<noteq> length b then Inl (Panic ''syntax'')
         else Inr (c, nulterminate c (b @ [0])))"

section \<open>Tokens are words\<close>

lemma span_ge: "s \<le> span P b s"
  by (induction P b s rule: span.induct) (subst span.simps, auto)

lemma span_le: "s \<le> length b \<Longrightarrow> span P b s \<le> length b"
  by (induction P b s rule: span.induct) (subst span.simps, auto)

lemma span_in: "s \<le> i \<Longrightarrow> i < span P b s \<Longrightarrow> P (b ! i)"
proof (induction P b s rule: span.induct)
  case (1 P b s)
  then show ?case by (cases "i = s") (auto simp: span.simps [of P b s] split: if_splits)
qed

lemma span_stop: "span P b s < length b \<Longrightarrow> \<not> P (b ! span P b s)"
  by (induction P b s rule: span.induct) (subst (asm) span.simps, subst span.simps, auto split: if_splits)

lemma span_idem: "span P b (span P b s) = span P b s"
  by (subst span.simps) (auto dest: span_stop)

lemma span_strict: "s < length b \<Longrightarrow> P (b ! s) \<Longrightarrow> s < span P b s"
  using span_ge [of "Suc s" P b] by (subst span.simps) simp

lemma at_nonzero: "at b i \<noteq> 0 \<Longrightarrow> i < length b \<and> at b i = b ! i"
  by (simp add: at_def split: if_splits)

text \<open>\<open>tok_ok b (q, eq)\<close>: the string is a maximal, nonempty run of word characters.\<close>

definition tok_ok :: "u8 list \<Rightarrow> nat \<times> nat \<Rightarrow> bool" where
  "tok_ok b t =
     (fst t < snd t \<and> snd t \<le> length b \<and> (\<forall>i\<in>{fst t..<snd t}. word_char (b ! i)) \<and>
      (snd t < length b \<longrightarrow> \<not> word_char (b ! snd t)))"

lemma gettoken_word:
  assumes "s \<le> length b" and "c = at b (span space b s)" "c \<noteq> 0" and "c \<notin> {124, 40, 41, 59, 38, 60, 62}"
  shows "tok_ok b (span space b s, span word_char b (span space b s))"
proof -
  let ?q = "span space b s"
  have q: "?q < length b" "c = b ! ?q" using assms(2,3) at_nonzero by auto
  then have "\<not> space c" using span_stop [of space b s] by simp
  then have "word_char (b ! ?q)" using assms(4) q by (auto simp: word_char_def symbol_def)
  then show ?thesis
    using q span_strict [of ?q b word_char] span_le [of ?q b word_char] span_in [of ?q _ word_char b] span_stop [of word_char b ?q]
    by (auto simp: tok_ok_def)
qed

lemma gettoken_ok:
  assumes "gettoken b s = (t, q, e, s')" and "s \<le> length b"
  shows "s \<le> s'" and "s' \<le> length b" and "t \<noteq> 0 \<longleftrightarrow> at b (span space b s) \<noteq> 0" and "t \<noteq> 0 \<Longrightarrow> s < s'"
    and "t = 97 \<Longrightarrow> tok_ok b (q, e)"
proof -
  let ?q = "span space b s"
  define c where "c = at b ?q"
  have q: "s \<le> ?q" "?q \<le> length b" using span_ge span_le assms(2) by auto
  have e: "e = (if c = 0 then ?q else if c \<in> {124, 40, 41, 59, 38, 60} then ?q + 1
      else if c = 62 then (if at b (?q + 1) = 62 then ?q + 2 else ?q + 1) else span word_char b ?q)"
    and t: "t = (if c = 0 then 0 else if c \<in> {124, 40, 41, 59, 38, 60} then c
      else if c = 62 then (if at b (?q + 1) = 62 then 43 else 62) else 97)"
    and r: "q = ?q" "s' = span space b e"
    using assms(1) by (auto simp: gettoken_def Let_def c_def split: if_splits)
  have nz: "c \<noteq> 0 \<Longrightarrow> ?q < length b" "at b (?q + 1) = 62 \<Longrightarrow> ?q + 1 < length b"
    using at_nonzero [of b ?q] at_nonzero [of b "?q + 1"] by (auto simp: c_def)
  have w: "c \<noteq> 0 \<Longrightarrow> c \<notin> {124, 40, 41, 59, 38, 60, 62} \<Longrightarrow> tok_ok b (?q, span word_char b ?q)"
    by (rule gettoken_word [OF assms(2) c_def])
  have "?q \<le> e \<and> e \<le> length b \<and> (c \<noteq> 0 \<longrightarrow> ?q < e)"
    using q nz w unfolding e by (auto simp: tok_ok_def)
  moreover have "e \<le> s'" "e \<le> length b \<Longrightarrow> s' \<le> length b" unfolding r by (rule span_ge, rule span_le)
  ultimately show "s \<le> s'" "s' \<le> length b" "t \<noteq> 0 \<Longrightarrow> s < s'"
    using q t by (auto split: if_splits)
  show "t \<noteq> 0 \<longleftrightarrow> at b ?q \<noteq> 0" unfolding t c_def [symmetric] by auto
  show "t = 97 \<Longrightarrow> tok_ok b (q, e)" using w unfolding t e r by (auto split: if_splits)
qed

lemma peek_ok:
  assumes "peek b s toks = (y, s')" and "s \<le> length b"
  shows "s \<le> s'" and "s' \<le> length b" and "span space b s' = s'" and "y \<longleftrightarrow> at b s' \<noteq> 0 \<and> at b s' \<in> toks"
  using assms span_ge [of s space b] span_le [of s b space] span_idem [of space b s]
  by (auto simp: peek_def Let_def)

lemma peek_gettoken:
  assumes "peek b s toks = (True, s1)" and "gettoken b s1 = (t, q, e, s2)" and "s \<le> length b"
  shows "s < s2" and "s2 \<le> length b"
  using peek_ok [OF assms(1,3)] gettoken_ok [OF assms(2)] by auto

section \<open>The parser ends, and its commands hold words\<close>

primrec tokens :: "cmd \<Rightarrow> (nat \<times> nat) list" where
  "tokens (EXEC argv) = argv"
| "tokens (REDIR c q eq mode fd) = tokens c @ [(q, eq)]"
| "tokens (PIPE l r) = tokens l @ tokens r"
| "tokens (LIST l r) = tokens l @ tokens r"
| "tokens (BACK c) = tokens c"

definition words :: "u8 list \<Rightarrow> cmd \<Rightarrow> bool" where
  "words b c = (\<forall>t \<in> set (tokens c). tok_ok b t)"

definition redir_words :: "u8 list \<Rightarrow> redir list \<Rightarrow> bool" where
  "redir_words b rs = (\<forall>(q, eq, mode, fd) \<in> set rs. tok_ok b (q, eq))"

lemma words_simps [simp]:
  "words b (PIPE c d) \<longleftrightarrow> words b c \<and> words b d" "words b (LIST c d) \<longleftrightarrow> words b c \<and> words b d"
  "words b (BACK c) \<longleftrightarrow> words b c" "words b (REDIR c q eq mode fd) \<longleftrightarrow> words b c \<and> tok_ok b (q, eq)"
  "words b (EXEC []) "
  "words b (EXEC (argv @ [t])) \<longleftrightarrow> words b (EXEC argv) \<and> tok_ok b t"
  by (auto simp: words_def)

lemma words_wrap [simp]: "words b (wrap c rs) \<longleftrightarrow> words b c \<and> redir_words b rs"
proof (induction rs arbitrary: c)
  case Nil
  then show ?case by (simp add: wrap_def redir_words_def)
next
  case (Cons r rs)
  obtain q eq mode fd where "r = (q, eq, mode, fd)" by (cases r) auto
  with Cons.IH [of "REDIR c q eq mode fd"] show ?case by (auto simp: wrap_def redir_words_def)
qed

lemma redir_words_simps [simp]:
  "redir_words b []" "redir_words b (rs @ [redir_of tok q eq]) \<longleftrightarrow> redir_words b rs \<and> tok_ok b (q, eq)"
  by (auto simp: redir_words_def redir_of_def)

text \<open>A result is good when it is a panic, or a value with property \<open>Q\<close> and a position not before \<open>s\<close>.\<close>

definition good :: "u8 list \<Rightarrow> nat \<Rightarrow> ('x \<Rightarrow> bool) \<Rightarrow> ('x \<times> nat) outcome \<Rightarrow> bool" where
  "good b s Q r =
     (case r of Inl h \<Rightarrow> (\<exists>m. h = Panic m) | Inr (x, s') \<Rightarrow> s \<le> s' \<and> s' \<le> length b \<and> Q x)"

lemma good_simps [simp]:
  "good b s Q (Inl (Panic m))" "good b s Q (Inr (x, s')) \<longleftrightarrow> s \<le> s' \<and> s' \<le> length b \<and> Q x"
  by (simp_all add: good_def)

lemma good_and_then:
  assumes "good b s Q r" and "\<And>x s'. s \<le> s' \<Longrightarrow> s' \<le> length b \<Longrightarrow> Q x \<Longrightarrow> good b s' Q' (f (x, s'))"
  shows "good b s Q' (and_then r f)"
  using assms by (auto simp: good_def split: sum.splits) fastforce+

lemma good_later: "good b s' Q r \<Longrightarrow> s \<le> s' \<Longrightarrow> good b s Q r"
  by (auto simp: good_def split: sum.splits)

lemma parseredirs_good:
  "s \<le> length b \<Longrightarrow> length b - s < fuel \<Longrightarrow> redir_words b rs \<Longrightarrow>
     good b s (redir_words b) (parseredirs fuel b rs s)"
proof (induction fuel arbitrary: rs s)
  case (Suc fuel)
  obtain y s1 where p: "peek b s {60, 62} = (y, s1)" by force
  obtain t1 q1 e1 s2 where g1: "gettoken b s1 = (t1, q1, e1, s2)" by (cases "gettoken b s1")
  obtain t2 q2 e2 s3 where g2: "gettoken b s2 = (t2, q2, e2, s3)" by (cases "gettoken b s2")
  note P = peek_ok [OF p Suc.prems(1)]
  show ?case
  proof (cases "y \<and> t2 = 97")
    case True
    then have "s < s2" "s2 \<le> length b" using peek_gettoken [OF _ g1 Suc.prems(1)] p by auto
    moreover have "s2 < s3" "s3 \<le> length b" "tok_ok b (q2, e2)"
      using gettoken_ok [OF g2 \<open>s2 \<le> length b\<close>] True by auto
    ultimately have "good b s3 (redir_words b) (parseredirs fuel b (rs @ [redir_of t1 q2 e2]) s3)"
      using Suc.prems by (intro Suc.IH) auto
    then have "good b s (redir_words b) (parseredirs fuel b (rs @ [redir_of t1 q2 e2]) s3)"
      by (rule good_later) (use \<open>s < s2\<close> \<open>s2 < s3\<close> in simp)
    then show ?thesis using p g1 g2 True by simp
  next
    case False
    then show ?thesis using p g1 g2 P Suc.prems by auto
  qed
qed simp

lemma parseexec_args_good:
  "s \<le> length b \<Longrightarrow> length b - s < fuel \<Longrightarrow> redir_words b rs \<Longrightarrow> words b (EXEC argv) \<Longrightarrow>
     good b s (words b) (parseexec_args fuel b argv rs s)"
proof (induction fuel arbitrary: argv rs s)
  case (Suc fuel)
  obtain y s1 where p: "peek b s {124, 41, 38, 59} = (y, s1)" by force
  obtain t q e s2 where g: "gettoken b s1 = (t, q, e, s2)" by (cases "gettoken b s1")
  note P = peek_ok [OF p Suc.prems(1)]
  note G = gettoken_ok [OF g P(2)]
  show ?case
  proof (cases "\<not> y \<and> t = 97 \<and> length (argv @ [(q, e)]) < MAXARGS")
    case True
    then have s2: "s < s2" "s2 \<le> length b" "words b (EXEC (argv @ [(q, e)]))" using P(1) G Suc.prems by auto
    have "good b s2 (words b) (and_then (parseredirs fuel b rs s2)
        (\<lambda>(rs, s). parseexec_args fuel b (argv @ [(q, e)]) rs s))"
    proof (rule good_and_then)
      show "good b s2 (redir_words b) (parseredirs fuel b rs s2)"
        using s2 Suc.prems by (intro parseredirs_good) auto
      show "good b s' (words b) (case (rs', s') of (rs, s) \<Rightarrow> parseexec_args fuel b (argv @ [(q, e)]) rs s)"
        if "s2 \<le> s'" "s' \<le> length b" "redir_words b rs'" for rs' s'
        using that s2 Suc.prems by (auto intro!: Suc.IH)
    qed
    then have "good b s (words b) (and_then (parseredirs fuel b rs s2)
        (\<lambda>(rs, s). parseexec_args fuel b (argv @ [(q, e)]) rs s))"
      by (rule good_later) (use s2 in simp)
    then show ?thesis using p g True by simp
  next
    case False
    then show ?thesis using p g P G Suc.prems by (auto simp: Let_def)
  qed
qed simp

lemma parseline_back_good:
  "s \<le> length b \<Longrightarrow> length b - s < fuel \<Longrightarrow> words b c \<Longrightarrow> good b s (words b) (parseline_back fuel b c s)"
proof (induction fuel arbitrary: c s)
  case (Suc fuel)
  obtain y s1 where p: "peek b s {38} = (y, s1)" by force
  obtain t q e s2 where g: "gettoken b s1 = (t, q, e, s2)" by (cases "gettoken b s1")
  show ?case
  proof (cases y)
    case True
    then have s2: "s < s2" "s2 \<le> length b" using peek_gettoken [OF _ g Suc.prems(1)] p by auto
    then have "good b s2 (words b) (parseline_back fuel b (BACK c) s2)"
      using Suc.prems by (intro Suc.IH) auto
    then have "good b s (words b) (parseline_back fuel b (BACK c) s2)"
      by (rule good_later) (use s2 in simp)
    then show ?thesis using p g True by simp
  next
    case False
    then show ?thesis using p g peek_ok [OF p Suc.prems(1)] Suc.prems by auto
  qed
qed simp

text \<open>What \<open>parseblock\<close>, \<open>parseexec\<close> and \<open>parsepipe\<close> need of \<open>parseline\<close>: it is good after \<open>s\<close>.\<close>

definition line_good :: "u8 list \<Rightarrow> nat \<Rightarrow> (u8 list \<Rightarrow> nat \<Rightarrow> (cmd \<times> nat) outcome) \<Rightarrow> bool" where
  "line_good b s line = (\<forall>s'. s < s' \<longrightarrow> s' \<le> length b \<longrightarrow> good b s' (words b) (line b s'))"

lemma parseblock_good:
  assumes "s \<le> length b" and "length b - s < fuel" and "line_good b s line"
  shows "good b s (words b) (parseblock line fuel b s)"
proof -
  obtain y s1 where p: "peek b s {40} = (y, s1)" by force
  obtain t q e s2 where g: "gettoken b s1 = (t, q, e, s2)" by (cases "gettoken b s1")
  show ?thesis
  proof (cases y)
    case True
    then have s2: "s < s2" "s2 \<le> length b" using peek_gettoken [OF _ g assms(1)] p by auto
    let ?rest = "\<lambda>(c, s). case peek b s {41} of (yes, s) \<Rightarrow>
        if \<not> yes then Inl (Panic ''syntax - missing )'')
        else case gettoken b s of (_, _, _, s) \<Rightarrow>
          and_then (parseredirs fuel b [] s) (\<lambda>(rs, s). Inr (wrap c rs, s))"
    have "good b s2 (words b) (and_then (line b s2) ?rest)"
    proof (rule good_and_then)
      show "good b s2 (words b) (line b s2)" using assms(3) s2 by (simp add: line_good_def)
      fix c s3 assume s3: "s2 \<le> s3" "s3 \<le> length b" "words b c"
      obtain y4 s4 where p4: "peek b s3 {41} = (y4, s4)" by force
      obtain t5 q5 e5 s5 where g5: "gettoken b s4 = (t5, q5, e5, s5)" by (cases "gettoken b s4")
      have "good b s3 (words b) (and_then (parseredirs fuel b [] s5) (\<lambda>(rs, s). Inr (wrap c rs, s)))" if y4
      proof -
        have s5: "s3 < s5" "s5 \<le> length b" using peek_gettoken [OF _ g5 s3(2)] p4 that by auto
        have "good b s5 (words b) (and_then (parseredirs fuel b [] s5) (\<lambda>(rs, s). Inr (wrap c rs, s)))"
          using s5 s3 s2 assms(2) by (intro good_and_then [OF parseredirs_good]) auto
        then show ?thesis by (rule good_later) (use s5 in simp)
      qed
      then show "good b s3 (words b) (?rest (c, s3))" using p4 g5 by simp
    qed
    then have "good b s (words b) (and_then (line b s2) ?rest)" by (rule good_later) (use s2 in simp)
    then show ?thesis using p g True by (simp add: parseblock_def)
  next
    case False
    then show ?thesis using p by (simp add: parseblock_def)
  qed
qed

lemma parseexec_good:
  assumes "s \<le> length b" and "length b - s < fuel" and "line_good b s line"
  shows "good b s (words b) (parseexec line fuel b s)"
proof -
  obtain y s1 where p: "peek b s {40} = (y, s1)" by force
  note P = peek_ok [OF p assms(1)]
  have "line_good b s1 line" using assms(3) P(1) by (simp add: line_good_def)
  then have "good b s1 (words b) (parseblock line fuel b s1)" using P assms by (intro parseblock_good) auto
  moreover have "good b s1 (words b)
      (and_then (parseredirs fuel b [] s1) (\<lambda>(rs, s). parseexec_args fuel b [] rs s))"
    using P assms by (intro good_and_then [OF parseredirs_good]) (auto intro!: parseexec_args_good)
  ultimately show ?thesis using p P(1) by (auto simp: parseexec_def intro: good_later)
qed

lemma parsepipe_good:
  "s \<le> length b \<Longrightarrow> length b - s < n \<Longrightarrow> length b - s < fuel \<Longrightarrow> line_good b s line \<Longrightarrow>
     good b s (words b) (parsepipe n line fuel b s)"
proof (induction n arbitrary: s)
  case (Suc n)
  have "good b s1 (words b) (case peek b s1 {124} of (yes, s) \<Rightarrow>
         if \<not> yes then Inr (c, s)
         else case gettoken b s of (_, _, _, s) \<Rightarrow>
           and_then (parsepipe n line fuel b s) (\<lambda>(d, s). Inr (PIPE c d, s)))"
    if 1: "s \<le> s1" "s1 \<le> length b" "words b c" for c s1
  proof -
    obtain y s2 where p: "peek b s1 {124} = (y, s2)" by force
    obtain t q e s3 where g: "gettoken b s2 = (t, q, e, s3)" by (cases "gettoken b s2")
    show ?thesis
    proof (cases y)
      case True
      then have s3: "s1 < s3" "s3 \<le> length b" using peek_gettoken [OF _ g 1(2)] p by auto
      have "good b s3 (words b) (and_then (parsepipe n line fuel b s3) (\<lambda>(d, s). Inr (PIPE c d, s)))"
      proof (rule good_and_then)
        show "good b s3 (words b) (parsepipe n line fuel b s3)"
          using s3 1 Suc.prems by (intro Suc.IH) (auto simp: line_good_def)
      qed (use 1 in auto)
      then show ?thesis using p g True s3 by (auto intro: good_later)
    next
      case False
      then show ?thesis using p peek_ok [OF p 1(2)] 1 by auto
    qed
  qed
  then show ?case using Suc.prems by (auto intro!: good_and_then [OF parseexec_good])
qed simp

lemma parseline_good:
  "s \<le> length b \<Longrightarrow> length b - s < n \<Longrightarrow> length b - s < fuel \<Longrightarrow> good b s (words b) (parseline n fuel b s)"
proof (induction n arbitrary: s)
  case (Suc n)
  have line: "line_good b s (parseline n fuel)"
    unfolding line_good_def using Suc by auto
  have "good b s1 (words b) (case peek b s1 {59} of (yes, s) \<Rightarrow>
         if \<not> yes then Inr (c, s)
         else case gettoken b s of (_, _, _, s) \<Rightarrow>
           and_then (parseline n fuel b s) (\<lambda>(d, s). Inr (LIST c d, s)))"
    if 1: "s \<le> s1" "s1 \<le> length b" "words b c" for c s1
  proof -
    obtain y s2 where p: "peek b s1 {59} = (y, s2)" by force
    obtain t q e s3 where g: "gettoken b s2 = (t, q, e, s3)" by (cases "gettoken b s2")
    show ?thesis
    proof (cases y)
      case True
      then have s3: "s1 < s3" "s3 \<le> length b" using peek_gettoken [OF _ g 1(2)] p by auto
      have "good b s3 (words b) (and_then (parseline n fuel b s3) (\<lambda>(d, s). Inr (LIST c d, s)))"
      proof (rule good_and_then)
        show "good b s3 (words b) (parseline n fuel b s3)" using s3 1 line by (simp add: line_good_def)
      qed (use 1 in auto)
      then show ?thesis using p g True s3 by (auto intro: good_later)
    next
      case False
      then show ?thesis using p peek_ok [OF p 1(2)] 1 by auto
    qed
  qed
  then have "good b s1 (words b) (and_then (parseline_back fuel b c s1) (\<lambda>(c, s).
       case peek b s {59} of (yes, s) \<Rightarrow>
         if \<not> yes then Inr (c, s)
         else case gettoken b s of (_, _, _, s) \<Rightarrow>
           and_then (parseline n fuel b s) (\<lambda>(d, s). Inr (LIST c d, s))))"
    if "s \<le> s1" "s1 \<le> length b" "words b c" for c s1
    using that Suc.prems by (auto intro!: good_and_then [OF parseline_back_good])
  then show ?case using Suc.prems line by (auto intro!: good_and_then [OF parsepipe_good])
qed simp

section \<open>The strings of a command\<close>

lemma nulterminate_fold: "nulterminate c b = fold (\<lambda>(q, eq) b. b[eq := 0]) (tokens c) b"
  by (induction c arbitrary: b) auto

lemma zeros_length: "length (fold (\<lambda>(q, eq) b. b[eq := 0]) ts b) = length b"
  by (induction ts arbitrary: b) auto

lemma zeros_nth:
  "i < length b \<Longrightarrow> fold (\<lambda>(q, eq) b. b[eq := 0]) ts b ! i = (if i \<in> snd ` set ts then 0 else b ! i :: u8)"
  by (induction ts arbitrary: b) (force simp: nth_list_update)+

text \<open>The C string at an index.\<close>

definition cstring :: "u8 list \<Rightarrow> nat \<Rightarrow> u8 list" where
  "cstring b q = takeWhile (\<lambda>c. c \<noteq> 0) (drop q b)"

lemma cstring_eq:
  assumes "q \<le> e" and "e < length b" and "b ! e = 0" and "\<And>i. q \<le> i \<Longrightarrow> i < e \<Longrightarrow> b ! i \<noteq> 0"
  shows "cstring b q = take (e - q) (drop q b)"
proof -
  have "drop (e - q) (drop q b) = 0 # drop (Suc e) b"
    using assms(1-3) Cons_nth_drop_Suc [of e b] by simp
  then have "drop q b = take (e - q) (drop q b) @ 0 # drop (Suc e) b"
    using append_take_drop_id [of "e - q" "drop q b"] by simp
  moreover have "\<forall>c \<in> set (take (e - q) (drop q b)). c \<noteq> 0"
    using assms by (auto simp: in_set_conv_nth)
  ultimately show ?thesis unfolding cstring_def
    using takeWhile_append2 [of "take (e - q) (drop q b)" "\<lambda>c. c \<noteq> 0" "0 # drop (Suc e) b"] by simp
qed

lemma parsecmd_result:
  "case parsecmd b of Inl h \<Rightarrow> \<exists>m. h = Panic m | Inr (c, b') \<Rightarrow> words b c \<and> b' = nulterminate c (b @ [0])"
proof -
  define r where "r = parseline (length b + 1) (length b + 1) b 0"
  have "good b 0 (words b) r" unfolding r_def by (rule parseline_good) simp_all
  then show ?thesis unfolding parsecmd_def r_def [symmetric]
    by (auto simp: good_def and_then_def split: sum.splits prod.splits if_splits)
qed

text \<open>
  C35: The parser of the shell always ends, with a command or with one of its error messages.
  In a command every string is, after \<open>nulterminate\<close>, the zero-terminated copy in the buffer of
  the word that the tokeniser found: a nonempty run of bytes that are neither white space nor
  one of \<open><|>&;()\<close>. Writing the terminators never damages another string.
\<close>

theorem parsecmd_strings:
  assumes "0 \<notin> set b"
  shows "case parsecmd b of
      Inl h \<Rightarrow> \<exists>m. h = Panic m
    | Inr (c, b') \<Rightarrow> \<forall>(q, e) \<in> set (tokens c). q < e \<and> e \<le> length b \<and>
        cstring b' q = take (e - q) (drop q b) \<and> (\<forall>x \<in> set (cstring b' q). word_char x)"
proof (cases "parsecmd b")
  case (Inl h)
  with parsecmd_result [of b] show ?thesis by simp
next
  case (Inr r)
  obtain c b' where r: "r = (c, b')" by (cases r)
  have W: "words b c" "b' = nulterminate c (b @ [0])" using parsecmd_result [of b] Inr r by auto
  have "q < e \<and> e \<le> length b \<and> cstring b' q = take (e - q) (drop q b) \<and> (\<forall>x \<in> set (cstring b' q). word_char x)"
    if t: "(q, e) \<in> set (tokens c)" for q e
  proof -
    have ok: "tok_ok b (q, e)" using W(1) t by (simp add: words_def)
    have nth: "b' ! i = (if i \<in> snd ` set (tokens c) then 0 else (b @ [0]) ! i)" if "i \<le> length b" for i
      using that unfolding W(2) nulterminate_fold by (intro zeros_nth) simp
    have inside: "i \<notin> snd ` set (tokens c)" if i: "q \<le> i" "i < e" for i
    proof
      assume "i \<in> snd ` set (tokens c)"
      then obtain p where "(p, i) \<in> set (tokens c)" by auto
      then have "tok_ok b (p, i)" using W(1) by (simp add: words_def)
      then show False using ok i by (auto simp: tok_ok_def)
    qed
    have same: "b' ! i = b ! i" if "q \<le> i" "i < e" for i
      using nth [of i] inside [OF that] that ok by (auto simp: tok_ok_def nth_append)
    have len: "length b' = Suc (length b)" by (simp add: W(2) nulterminate_fold zeros_length)
    have eq: "take (e - q) (drop q b') = take (e - q) (drop q b)"
      by (rule nth_equalityI) (use ok len same in \<open>auto simp: tok_ok_def\<close>)
    have "b' ! e = 0" using nth [of e] t ok by (force simp: tok_ok_def)
    moreover have "b' ! i \<noteq> 0" if "q \<le> i" "i < e" for i
      using same [OF that] that ok assms by (metis nth_mem tok_ok_def fst_conv snd_conv less_le_trans)
    ultimately have str: "cstring b' q = take (e - q) (drop q b')"
      using ok len by (intro cstring_eq) (auto simp: tok_ok_def)
    moreover have "\<forall>x \<in> set (take (e - q) (drop q b)). word_char x"
      using ok by (auto simp: in_set_conv_nth tok_ok_def)
    ultimately show ?thesis using ok eq by (auto simp: tok_ok_def)
  qed
  then show ?thesis using Inr r by auto
qed

lemma sample_parse:
  "parsecmd [108, 115, 62, 102, 124, 119, 99] =
     Inr (PIPE (REDIR (EXEC [(0, 2)]) 3 4 O_WRONLY_CREATE 1) (EXEC [(5, 7)]), [108, 115, 0, 102, 0, 119, 99, 0])"
  by code_simp

theorem parsecmd_strings_witness:
  "\<exists>c b'. parsecmd [108, 115, 62, 102, 124, 119, 99] = Inr (c, b') \<and>
     cstring b' 0 = [108, 115] \<and> cstring b' 3 = [102] \<and> cstring b' 5 = [119, 99]"
  using parsecmd_strings [of "[108, 115, 62, 102, 124, 119, 99]"] by (simp add: sample_parse)

section \<open>Running a command\<close>

text \<open>
  \<open>runcmd\<close> never returns; it is the tree of the system calls of the process that executes it.
  A call whose result matters has one subtree per result. \<open>Fork\<close> has the subtree of the child,
  where \<open>fork\<close> returned 0, and the one of the parent for each result. \<open>Exec\<close> goes on only when
  it fails. \<open>Printf\<close> is a message on descriptor 2, given by its format without the newline.
\<close>

datatype prog =
    Exit
  | Exec "u8 list" "u8 list list" prog
  | Printf string "u8 list" prog
  | Close int prog
  | Open "u8 list" int "int \<Rightarrow> prog"
  | Fork prog "int \<Rightarrow> prog"
  | Wait prog
  | Pipe "int \<Rightarrow> int \<Rightarrow> int \<Rightarrow> prog"
  | Dup int prog
  | Chdir "u8 list" "int \<Rightarrow> prog"

definition panic :: "string \<Rightarrow> prog" where
  "panic msg = Printf ''%s'' (map of_char msg) Exit"

definition fork1 :: "prog \<Rightarrow> prog \<Rightarrow> prog" where
  "fork1 child parent = Fork child (\<lambda>pid. if pid = -1 then panic ''fork'' else parent)"

primrec runcmd :: "u8 list \<Rightarrow> cmd \<Rightarrow> prog" where
  "runcmd b (EXEC argv) =
     (if argv = [] then Exit
      else let args = map (\<lambda>(q, e). cstring b q) argv in
        Exec (hd args) args (Printf ''exec %s failed'' (hd args) Exit))"
| "runcmd b (REDIR c q e mode fd) =
     Close fd (Open (cstring b q) mode (\<lambda>r.
       if r < 0 then Printf ''open %s failed'' (cstring b q) Exit else runcmd b c))"
| "runcmd b (LIST l r) = fork1 (runcmd b l) (Wait (runcmd b r))"
| "runcmd b (PIPE l r) =
     Pipe (\<lambda>res p0 p1.
       if res < 0 then panic ''pipe''
       else fork1 (Close 1 (Dup p1 (Close p0 (Close p1 (runcmd b l)))))
           (fork1 (Close 0 (Dup p0 (Close p0 (Close p1 (runcmd b r)))))
             (Close p0 (Close p1 (Wait (Wait Exit))))))"
| "runcmd b (BACK c) = fork1 (runcmd b c) Exit"

text \<open>
  The loop of \<open>main\<close> on the lines that \<open>getcmd\<close> delivers, each with its newline, up to the end
  of the input. The message about leftovers that precedes a syntax error is left out.
\<close>

definition run_line :: "u8 list \<Rightarrow> prog" where
  "run_line buf =
     (case parsecmd buf of
        Inl h \<Rightarrow> (case h of Panic msg \<Rightarrow> panic msg | _ \<Rightarrow> Exit)
      | Inr (c, b) \<Rightarrow> runcmd b c)"

primrec sh_main :: "u8 list list \<Rightarrow> prog" where
  "sh_main [] = Exit"
| "sh_main (buf # bufs) =
     (if take 3 buf = [99, 100, 32]
      then let dir = drop 3 (butlast buf) in
        Chdir dir (\<lambda>r. if r < 0 then Printf ''cannot cd %s'' dir (sh_main bufs) else sh_main bufs)
      else fork1 (run_line buf) (Wait (sh_main bufs)))"

section \<open>Pipelines are wired up\<close>

text \<open>
  A system in which every call succeeds while there are free descriptors. A process has a
  table of descriptors; \<open>open\<close>, \<open>pipe\<close> and \<open>dup\<close> take the lowest free one, as \<open>fdalloc\<close> of the
  kernel does. \<open>run\<close> collects the programs that are executed with their descriptors and counts
  the pipes.
\<close>

datatype res = Console | File "u8 list" int | Pipe_rd nat | Pipe_wr nat

type_synonym fdtab = "res option list"

definition fd_free :: "fdtab \<Rightarrow> nat option" where
  "fd_free t = scan (\<lambda>x. x = None) t"

primrec run :: "prog \<Rightarrow> fdtab \<Rightarrow> nat \<Rightarrow> (u8 list list \<times> fdtab) list \<times> nat" where
  "run Exit t n = ([], n)"
| "run (Exec path argv p) t n = ([(argv, t)], n)"
| "run (Printf msg arg p) t n = run p t n"
| "run (Close fd p) t n = run p (t[nat fd := None]) n"
| "run (Open path mode p) t n =
     (case fd_free t of None \<Rightarrow> run (p (-1)) t n
      | Some i \<Rightarrow> run (p (int i)) (t[i := Some (File path mode)]) n)"
| "run (Fork c p) t n =
     (case run c t n of (es, n) \<Rightarrow> case run (p 1) t n of (es', n) \<Rightarrow> (es @ es', n))"
| "run (Wait p) t n = run p t n"
| "run (Pipe p) t n =
     (case fd_free t of None \<Rightarrow> run (p (-1) 0 0) t n
      | Some i \<Rightarrow>
          let t' = t[i := Some (Pipe_rd n)] in
          case fd_free t' of None \<Rightarrow> run (p (-1) 0 0) t n
          | Some j \<Rightarrow> run (p 0 (int i) (int j)) (t'[j := Some (Pipe_wr n)]) (Suc n))"
| "run (Dup fd p) t n =
     (case fd_free t of None \<Rightarrow> run p t n | Some i \<Rightarrow> run p (t[i := t ! nat fd]) n)"
| "run (Chdir d p) t n = run (p 0) t n"

text \<open>A pipeline as the parser builds it, and the descriptors its parts should get.\<close>

fun pipeline :: "(nat \<times> nat) list list \<Rightarrow> cmd" where
  "pipeline [] = EXEC []"
| "pipeline [argv] = EXEC argv"
| "pipeline (argv # cs) = PIPE (EXEC argv) (pipeline cs)"

definition std :: "res \<Rightarrow> res \<Rightarrow> res \<Rightarrow> nat \<Rightarrow> fdtab" where
  "std i ou e k = [Some i, Some ou, Some e] @ replicate k None"

fun wired :: "u8 list \<Rightarrow> (nat \<times> nat) list list \<Rightarrow> res \<Rightarrow> res \<Rightarrow> res \<Rightarrow> nat \<Rightarrow> nat \<Rightarrow> (u8 list list \<times> fdtab) list" where
  "wired b [] i ou e k n = []"
| "wired b [argv] i ou e k n = [(map (\<lambda>(q, e). cstring b q) argv, std i ou e k)]"
| "wired b (argv # cs) i ou e k n =
     (map (\<lambda>(q, e). cstring b q) argv, std i (Pipe_wr n) e k) # wired b cs (Pipe_rd n) ou e k (Suc n)"

lemma fd_free_simps [simp]:
  "fd_free (None # t) = Some 0" "fd_free (Some r # t) = map_option Suc (fd_free t)" "fd_free [] = None"
proof -
  have "scan_from (Suc i) P xs = map_option Suc (scan_from i P xs)" for i and P :: "res option \<Rightarrow> bool" and xs
    by (induction xs arbitrary: i) auto
  then show "fd_free (Some r # t) = map_option Suc (fd_free t)" by (simp add: fd_free_def scan_def)
qed (simp_all add: fd_free_def scan_def)

lemma run_pipeline:
  "[] \<notin> set cs \<Longrightarrow> cs \<noteq> [] \<Longrightarrow>
     run (runcmd b (pipeline cs)) (std i ou e (Suc (Suc k))) n = (wired b cs i ou e (Suc (Suc k)) n, n + length cs - 1)"
proof (induction cs arbitrary: i n rule: pipeline.induct)
  case (3 argv a cs)
  then show ?case
    by (auto simp: fork1_def std_def Let_def numeral_2_eq_2 numeral_3_eq_3)
qed (auto simp: Let_def)



text \<open>
  The start of \<open>main\<close>: descriptors are opened on the console until one is at least 3. Every
  \<open>open\<close> that succeeds takes a descriptor, so the loop ends within \<open>NOFILE\<close> + 1 rounds.
\<close>

primrec open_console :: "nat \<Rightarrow> prog \<Rightarrow> prog" where
  "open_console 0 p = Exit"
| "open_console (Suc n) p =
     Open (map of_char ''console'') 2 (\<lambda>fd.
       if fd < 0 then p else if fd \<ge> 3 then Close fd p else open_console n p)"

end
