(* ===== verification/Filedata.thy ===== *)
theory Filedata
  imports Txn Sample_Fs
begin

text \<open>
  The contents of files: \<open>bmap\<close>, \<open>readi\<close> and \<open>writei\<close> of \<open>src/fs.c\<close> on top of the log and the
  buffer cache. \<open>blk\<close> is the block of the disk that holds a block of a file, found through the
  direct addresses or the indirect block, and \<open>fbyte\<close> is a byte of the file. The lemmas are
  about files all of whose blocks are allocated; then \<open>readi\<close> returns the bytes of the file and
  \<open>writei\<close> changes exactly the bytes of its range.
\<close>

declare readi_loop.simps [simp del] writei_loop.simps [simp del]

section \<open>Blocks and bytes of a file\<close>

definition blk :: "(u32 \<Rightarrow> u8 list) \<Rightarrow> inode \<Rightarrow> nat \<Rightarrow> u32" where
  "blk c x j = (if j < NDIRECT then i_addrs x ! j else get32 (c (i_addrs x ! NDIRECT)) (4 * (j - NDIRECT)))"

definition fbyte :: "(u32 \<Rightarrow> u8 list) \<Rightarrow> inode \<Rightarrow> nat \<Rightarrow> u8" where
  "fbyte c x q = c (blk c x (q div BSIZE)) ! (q mod BSIZE)"

text \<open>The first \<open>m\<close> blocks of the file are allocated, in range, and different from each other.\<close>

definition allocated :: "(u32 \<Rightarrow> u8 list) \<Rightarrow> inode \<Rightarrow> u32 \<Rightarrow> nat \<Rightarrow> bool" where
  "allocated c x D m \<longleftrightarrow> m \<le> MAXFILE \<and> i_dev x = 1 \<and>
     (\<forall>j<m. blk c x j \<noteq> 0 \<and> blk c x j < D \<and> length (c (blk c x j)) = BSIZE) \<and> inj_on (blk c x) {..<m} \<and>
     (NDIRECT < m \<longrightarrow> i_addrs x ! NDIRECT \<noteq> 0 \<and> i_addrs x ! NDIRECT < D \<and> (\<forall>j<m. blk c x j \<noteq> i_addrs x ! NDIRECT))"

lemma allocatedD:
  assumes "allocated c x D m" and "j < m"
  shows "blk c x j \<noteq> 0" "blk c x j < D" "length (c (blk c x j)) = BSIZE" "i_dev x = 1" "j < MAXFILE"
    "NDIRECT \<le> j \<Longrightarrow> i_addrs x ! NDIRECT \<noteq> 0 \<and> i_addrs x ! NDIRECT < D \<and> blk c x j \<noteq> i_addrs x ! NDIRECT"
    "i < m \<Longrightarrow> blk c x i = blk c x j \<longleftrightarrow> i = j"
  using assms by (auto simp: allocated_def inj_on_def)

text \<open>A change of one data block leaves the map of the file as it is.\<close>

lemma blk_upd:
  assumes "allocated c x D m" and "j < m" and "j' < m"
  shows "blk (c(blk c x j := d)) x j' = blk c x j'"
  using assms by (auto simp: blk_def [of _ x j'] allocated_def split: if_splits)

lemma allocated_upd:
  assumes a: "allocated c x D m" and j: "j < m" and d: "length d = BSIZE"
  shows "allocated (c(blk c x j := d)) x D m"
  using a d allocatedD(3) [OF a] blk_upd [OF a j] by (auto simp: allocated_def inj_on_def)

lemma div_mod_add: "(q :: nat) mod 512 + i < 512 \<Longrightarrow> (q + i) div 512 = q div 512 \<and> (q + i) mod 512 = q mod 512 + i"
proof -
  assume a: "q mod 512 + i < 512"
  define r where "r = q mod 512 + i"
  have "q + i = r + q div 512 * 512" by (simp add: r_def)
  moreover have "(r + q div 512 * 512) div 512 = q div 512" "(r + q div 512 * 512) mod 512 = r"
    using a by (simp_all add: r_def [symmetric])
  ultimately show ?thesis by (simp only: r_def)
qed

lemma slice_fbyte:
  assumes "length (c (blk c x (q div BSIZE))) = BSIZE" and "n \<le> BSIZE - q mod BSIZE"
  shows "slice (c (blk c x (q div BSIZE))) (q mod BSIZE) n = map (fbyte c x) [q..<q + n]"
proof (rule nth_equalityI)
  fix i assume "i < length (slice (c (blk c x (q div BSIZE))) (q mod BSIZE) n)"
  then have "i < n" "q mod 512 + i < 512" using assms by auto
  then show "slice (c (blk c x (q div BSIZE))) (q mod BSIZE) n ! i = map (fbyte c x) [q..<q + n] ! i"
    using assms div_mod_add [of q i] by (simp add: slice_def fbyte_def)
qed (use assms in auto)

section \<open>The rest of the state\<close>

lemma fs_frame:
  "inodes (erase s) = inodes s" "inodes (wrote ws s) = inodes s" "inodes (set_log f s) = inodes s"
  "sb (erase s) = sb s" "sb (wrote ws s) = sb s" "sb (set_log f s) = sb s"
  by (simp_all add: erase_def wrote_def set_log_def)

lemma same_inodes: "same s t ws \<Longrightarrow> inodes t = inodes s" "same s t ws \<Longrightarrow> sb t = sb s"
  by (metis fs_frame(1,2)) (metis fs_frame(4,5))

lemma beside_inodes:
  assumes "beside s t ws"
  shows "inodes t = inodes s" "sb t = sb s"
  using assms same_inodes(1) same_inodes(2) fs_frame(3) fs_frame(6) unfolding beside_def by metis+

section \<open>Reading\<close>

lemma bmap_ok:
  assumes r: "brep i s c P Map.empty" and P: "card P < NBUF" and k: "0 < e_fuel k"
    and a: "allocated c (inodes s ! ip) (disksize s) m" and j: "j < m"
  shows "\<exists>t. bmap k ip j s = Inr (blk c (inodes s ! ip) j, t) \<and> brep i t c P Map.empty \<and> same s t []"
proof (cases "j < NDIRECT")
  case True
  then show ?thesis using allocatedD [OF a j] r by (simp add: bmap_def bmap_direct_def blk_def)
next
  case False
  let ?x = "inodes s ! ip"
  have A: "i_dev ?x = 1" "i_addrs ?x ! NDIRECT \<noteq> 0" "i_addrs ?x ! NDIRECT < disksize s" "j < MAXFILE"
      "get32 (c (i_addrs ?x ! NDIRECT)) (4 * (j - NDIRECT)) = blk c ?x j" "blk c ?x j \<noteq> 0"
    using allocatedD [OF a j] False by (auto simp: blk_def)
  obtain b t u where t: "bread k 1 (i_addrs ?x ! NDIRECT) s = Inr (b, t)" "b_data (bufs t ! b) = c (i_addrs ?x ! NDIRECT)"
      "brelse b t = Inr u" "brep i u c P Map.empty" "same s u []"
    using bc.look [where i = i and k = k, OF conjI [OF r k], of "i_addrs ?x ! NDIRECT"] A(3) P by auto
  then show ?thesis using A False by (simp add: bmap_def bmap_direct_def Let_def)
qed

lemma readi_loop_ok:
  assumes "brep i s c P Map.empty" and "card P < NBUF" and "0 < e_fuel k"
    and "allocated c (inodes s ! ip) (disksize s) m" and "q + (n - tot) \<le> BSIZE * m"
  shows "\<exists>t. readi_loop k ip n tot q D_var s = Inr (map (fbyte c (inodes s ! ip)) [q..<q + (n - tot)], t) \<and>
     brep i t c P Map.empty \<and> same s t []"
  using assms
proof (induction "n - tot" arbitrary: tot q s rule: less_induct)
  case less
  show ?case
  proof (cases "n \<le> tot")
    case True
    then show ?thesis using less.prems by (subst readi_loop.simps) simp
  next
    case False
    let ?x = "inodes s ! ip"
    define l where "l = min (n - tot) (BSIZE - q mod BSIZE)"
    have m: "0 < l" "l \<le> n - tot" "l \<le> BSIZE - q mod BSIZE" using False by (auto simp: l_def)
    have j: "q div BSIZE < m" using less.prems(5) False by (simp add: div_less_iff_less_mult)
    note A = allocatedD [OF less.prems(4) j]
    obtain s1 where s1: "bmap k ip (q div BSIZE) s = Inr (blk c ?x (q div BSIZE), s1)" "brep i s1 c P Map.empty" "same s s1 []"
      using bmap_ok [OF less.prems(1-4) j] by auto
    have d1: "inodes s1 = inodes s" "disksize s1 = disksize s" using same_inodes(1) [OF s1(3)] sameD(2) [OF s1(3)] by auto
    obtain b t u where t: "bread k 1 (blk c ?x (q div BSIZE)) s1 = Inr (b, t)" "b_data (bufs t ! b) = c (blk c ?x (q div BSIZE))"
        "brelse b t = Inr u" "brep i u c P Map.empty" "same s1 u []"
      using bc.look [where i = i and k = k, OF conjI [OF s1(2) less.prems(3)], of "blk c ?x (q div BSIZE)"] A d1 less.prems(2) by auto
    have su: "same s u []" using same_trans [OF s1(3) t(5)] by simp
    have du: "inodes u = inodes s" "disksize u = disksize s" using same_inodes(1) [OF su] sameD(2) [OF su] by auto
    have "\<exists>v. readi_loop k ip n (tot + l) (q + l) D_var u =
        Inr (map (fbyte c (inodes u ! ip)) [q + l..<q + l + (n - (tot + l))], v) \<and>
        brep i v c P Map.empty \<and> same u v []"
      by (rule less.hyps [OF _ t(4) less.prems(2,3)]) (use m False less.prems(4,5) du in simp_all)
    then obtain v where v: "readi_loop k ip n (tot + l) (q + l) D_var u =
        Inr (map (fbyte c ?x) [q + l..<q + (n - tot)], v)" "brep i v c P Map.empty" "same u v []"
      using m du by auto
    have sl: "slice (b_data (bufs t ! b)) (q mod BSIZE) l = map (fbyte c ?x) [q..<q + l]"
      using slice_fbyte [where c = c and x = ?x and q = q and n = l, OF A(3) m(3)] t(2) by simp
    have "q + (n - tot) = q + l + (n - tot - l)" using m(2) by simp
    then have "[q..<q + l] @ [q + l..<q + (n - tot)] = [q..<q + (n - tot)]"
      using upt_add_eq_append [of q "q + l" "n - tot - l"] by (metis le_add1)
    then have "map (fbyte c ?x) [q..<q + l] @ map (fbyte c ?x) [q + l..<q + (n - tot)] = map (fbyte c ?x) [q..<q + (n - tot)]"
      by (metis map_append)
    moreover have "readi_loop k ip n tot q D_var s =
        Inr (map (fbyte c ?x) [q..<q + l] @ map (fbyte c ?x) [q + l..<q + (n - tot)], v)"
      by (subst readi_loop.simps)
        (simp only: False if_False l_def [symmetric] Let_def s1(1) and_then_Inr prod.case d1 A(4) t(1) sl
          store_bytes_def next_dst_def kdst.case t(3) v(1))
    moreover have "same s v []" using same_trans [OF su v(3)] by simp
    ultimately show ?thesis using v(2) by auto
  qed
qed

section \<open>Writing\<close>

lemma fbyte_upd:
  assumes a: "allocated c x D m" and q: "q div BSIZE < m" and l: "length ys \<le> BSIZE - q mod BSIZE" and p: "p < BSIZE * m"
  shows "fbyte (c(blk c x (q div BSIZE) := overwrite (c (blk c x (q div BSIZE))) (q mod BSIZE) ys)) x p =
     (if q \<le> p \<and> p < q + length ys then ys ! (p - q) else fbyte c x p)"
proof -
  let ?a = "blk c x (q div BSIZE)"
  have p': "p div BSIZE < m" using p by (simp add: div_less_iff_less_mult mult.commute)
  note A = allocatedD [OF a q] and U = blk_upd [OF a q p']
  have m: "q mod BSIZE < BSIZE" "p mod BSIZE < BSIZE" by simp_all
  show ?thesis
  proof (cases "p div BSIZE = q div BSIZE")
    case True
    have "q = BSIZE * (q div BSIZE) + q mod BSIZE" "p = BSIZE * (q div BSIZE) + p mod BSIZE"
      using True by (metis mult_div_mod_eq)+
    then have "q \<le> p \<longleftrightarrow> q mod BSIZE \<le> p mod BSIZE" "p < q + length ys \<longleftrightarrow> p mod BSIZE < q mod BSIZE + length ys"
        "p - q = p mod BSIZE - q mod BSIZE"
      by linarith+
    moreover have "q mod BSIZE + length ys \<le> length (c ?a)" using A(3) l m(1) by linarith
    ultimately show ?thesis using True U A(3) nth_overwrite [of "q mod BSIZE" ys "c ?a" "p mod BSIZE"] by (simp add: fbyte_def)
  next
    case False
    have "\<not> (q \<le> p \<and> p < q + length ys)"
    proof
      assume "q \<le> p \<and> p < q + length ys"
      then have "q mod 512 + (p - q) < 512" using l m by linarith
      then show False using div_mod_add [of q "p - q"] False \<open>q \<le> p \<and> p < q + length ys\<close> by simp
    qed
    moreover have "blk c x (p div BSIZE) \<noteq> ?a" using allocatedD(7) [OF a q p'] False by simp
    ultimately show ?thesis using U by (auto simp: fbyte_def)
  qed
qed

text \<open>The outcome of writing \<open>xs\<close> at \<open>q\<close> in a transaction that had the blocks \<open>B\<close>.\<close>

definition wrote_file ::
    "(u32 \<Rightarrow> u8 list) \<Rightarrow> (u32 \<Rightarrow> u8 list) \<Rightarrow> inode \<Rightarrow> u32 \<Rightarrow> nat \<Rightarrow> nat \<Rightarrow> u8 list \<Rightarrow> u32 list \<Rightarrow> u32 list \<Rightarrow> bool" where
  "wrote_file c c' x D m q xs B B' \<longleftrightarrow> distinct B' \<and> set B' = set B \<union> {b. \<exists>p. q \<le> p \<and> p < q + length xs \<and> b = blk c x (p div BSIZE)} \<and>
     (\<forall>b. b \<notin> set B' \<longrightarrow> c' b = c b) \<and> allocated c' x D m \<and> (\<forall>j<m. blk c' x j = blk c x j) \<and>
     (\<forall>p < BSIZE * m. fbyte c' x p = (if q \<le> p \<and> p < q + length xs then xs ! (p - q) else fbyte c x p))"

lemma wrote_file_Nil: "distinct B \<Longrightarrow> allocated c x D m \<Longrightarrow> wrote_file c c x D m q [] B B"
  by (auto simp: wrote_file_def)

lemma wrote_file_block:
  assumes a: "allocated c x D m" and q: "q div BSIZE < m" and l: "length ys \<le> BSIZE - q mod BSIZE" "ys \<noteq> []" and d: "distinct B"
  shows "wrote_file c (c(blk c x (q div BSIZE) := overwrite (c (blk c x (q div BSIZE))) (q mod BSIZE) ys)) x D m q ys
     B (note_block (blk c x (q div BSIZE)) B)"
proof -
  let ?a = "blk c x (q div BSIZE)"
  have D: "(q + i) div BSIZE = q div BSIZE" if "i < length ys" for i
  proof -
    have "q mod 512 < 512" by simp
    then have "q mod 512 + i < 512" using that l(1) by linarith
    then show ?thesis using div_mod_add [of q i] by simp
  qed
  have "b = ?a" if "q \<le> p" "p < q + length ys" "b = blk c x (p div BSIZE)" for p b
    using D [of "p - q"] that by simp
  moreover have "q \<le> q \<and> q < q + length ys \<and> ?a = blk c x (q div BSIZE)" using l(2) by simp
  ultimately have "{b. \<exists>p. q \<le> p \<and> p < q + length ys \<and> b = blk c x (p div BSIZE)} = {?a}" by blast
  moreover have "length (overwrite (c ?a) (q mod BSIZE) ys) = BSIZE"
    using allocatedD(3) [OF a q] l(1) mod_less_divisor [of BSIZE q] by (subst length_overwrite) linarith+
  ultimately show ?thesis
    using a allocated_upd [OF a q] blk_upd [OF a q] fbyte_upd [OF a q l(1)] d
    by (simp add: wrote_file_def distinct_note_block)
qed

lemma wrote_file_trans:
  assumes "wrote_file c c1 x D m q ys B B1" and "wrote_file c1 c2 x D m (q + length ys) zs B1 B2"
    and "q + length ys + length zs \<le> BSIZE * m"
  shows "wrote_file c c2 x D m q (ys @ zs) B B2"
proof -
  note 1 = assms(1) [unfolded wrote_file_def] and 2 = assms(2) [unfolded wrote_file_def]
  have "blk c1 x (p div BSIZE) = blk c x (p div BSIZE)" if "p < q + length ys + length zs" for p
    using 1 that assms(3) by (simp add: div_less_iff_less_mult mult.commute)
  then have "{b. \<exists>p. q + length ys \<le> p \<and> p < q + length ys + length zs \<and> b = blk c1 x (p div BSIZE)} =
      {b. \<exists>p. q + length ys \<le> p \<and> p < q + length ys + length zs \<and> b = blk c x (p div BSIZE)}" by force
  moreover have "{b. \<exists>p. q \<le> p \<and> p < q + length (ys @ zs) \<and> b = blk c x (p div BSIZE)} =
      {b. \<exists>p. q \<le> p \<and> p < q + length ys \<and> b = blk c x (p div BSIZE)} \<union>
      {b. \<exists>p. q + length ys \<le> p \<and> p < q + length ys + length zs \<and> b = blk c x (p div BSIZE)}"
  proof -
    have "q \<le> p \<and> p < q + length (ys @ zs) \<longleftrightarrow>
        q \<le> p \<and> p < q + length ys \<or> q + length ys \<le> p \<and> p < q + length ys + length zs" for p by auto
    then show ?thesis by auto
  qed
  moreover have "fbyte c2 x p = (if q \<le> p \<and> p < q + length (ys @ zs) then (ys @ zs) ! (p - q) else fbyte c x p)"
    if "p < BSIZE * m" for p
    using 1 2 that by (auto simp: nth_append)
  moreover have "set B \<subseteq> set B1" "set B1 \<subseteq> set B2" using 1 2 by auto
  ultimately show ?thesis using 1 2 by (auto simp: wrote_file_def)
qed

lemma set_buf_data:
  "b_data (bufs t ! b) = d \<Longrightarrow> set_buf b (\<lambda>x. x\<lparr>b_data := f (b_data x)\<rparr>) t = set_buf b (\<lambda>x. x\<lparr>b_data := f d\<rparr>) t"
  by (simp add: set_buf_def)

lemma in_log_range_same: "same s t [] \<Longrightarrow> in_log_range st t = in_log_range st s"
  using sameD(2) [of t "[]" s] by (simp add: in_log_range_def)

lemma length_note_block: "length (note_block n B) \<le> Suc (length B)"
  by (simp add: note_block_def)

text \<open>One round of the loop of \<open>writei\<close>.\<close>

lemma writei_round:
  assumes g: "open_log st B z s" and r: "brep i s c (set B) Map.empty" and d: "distinct B" and lr: "in_log_range st s"
    and k: "0 < e_fuel k" and a: "allocated c (inodes s ! ip) (disksize s) m"
    and l: "l = min (n - tot) (BSIZE - q mod BSIZE)" and t: "tot < n" and q: "q + (n - tot) \<le> BSIZE * m"
    and xs: "length xs = n - tot" and B: "length B < 30" "int (length B) < z - 1"
  shows "\<exists>c1 B1 u. writei_loop k ip n tot q (S_bytes xs) s = writei_loop k ip n (tot + l) (q + l) (S_bytes (drop l xs)) u \<and>
     brep i u c1 (set B1) Map.empty \<and> open_log st B1 z u \<and> beside s u [] \<and> length B1 \<le> Suc (length B) \<and>
     wrote_file c c1 (inodes s ! ip) (disksize s) m q (take l xs) B B1"
proof -
  let ?x = "inodes s ! ip" and ?j = "q div BSIZE" and ?ys = "take l xs"
  have lp: "0 < l" "l \<le> n - tot" "l \<le> BSIZE - q mod BSIZE" using t by (auto simp: l)
  have j: "?j < m" using q t by (simp add: div_less_iff_less_mult)
  note A = allocatedD [OF a j]
  have "card (set B) < NBUF" using B(1) card_length le_less_trans by blast
  then obtain s1 where s1: "bmap k ip ?j s = Inr (blk c ?x ?j, s1)" "brep i s1 c (set B) Map.empty" "same s s1 []"
    using bmap_ok [OF r _ k a j] by auto
  have d1: "inodes s1 = inodes s" "disksize s1 = disksize s" "in_log_range st s1" "open_log st B z s1"
    using same_inodes(1) [OF s1(3)] sameD(2) [OF s1(3)] in_log_range_same [OF s1(3)] lr open_log_same [OF s1(3)] g by auto
  let ?d = "overwrite (c (blk c ?x ?j)) (q mod BSIZE) ?ys"
  obtain b t1 u1 u where u: "bread k 1 (blk c ?x ?j) s1 = Inr (b, t1)" "b_data (bufs t1 ! b) = c (blk c ?x ?j)"
      "log_write b (set_buf b (\<lambda>x. x\<lparr>b_data := ?d\<rparr>) t1) = Inr u1" "brelse b u1 = Inr u"
      "brep i u (c(blk c ?x ?j := ?d)) (set (note_block (blk c ?x ?j) B)) Map.empty"
      "open_log st (note_block (blk c ?x ?j) B) z u" "beside s1 u []"
    using log_step [OF d1(4) s1(2) _ d1(3) B k, of "blk c ?x ?j" ?d] A(2) d1(2) by auto
  have "log_write b (set_buf b (\<lambda>x. x\<lparr>b_data := overwrite (b_data x) (q mod BSIZE) ?ys\<rparr>) t1) = Inr u1"
    using u(3) set_buf_data [OF u(2), of "\<lambda>e. overwrite e (q mod BSIZE) ?ys"] by simp
  then have "writei_loop k ip n tot q (S_bytes xs) s = writei_loop k ip n (tot + l) (q + l) (S_bytes (drop l xs)) u"
    using t by (subst writei_loop.simps)
      (simp only: not_le [symmetric] if_False if_True l [symmetric] Let_def s1(1) and_then_Inr prod.case d1(1) A(4) u(1)
        load_bytes_def ksrc.case u(4) next_src_def)
  moreover have "wrote_file c (c(blk c ?x ?j := ?d)) ?x (disksize s) m q ?ys B (note_block (blk c ?x ?j) B)"
    using lp xs t by (intro wrote_file_block [OF a j _ _ d]) auto
  moreover have "beside s u []" using beside_trans [OF beside_same [OF s1(3)] u(7)] by simp
  ultimately show ?thesis using u(5,6) length_note_block by blast
qed

lemma writei_loop_ok:
  assumes "open_log st B z s" and "brep i s c (set B) Map.empty" and "distinct B" and "in_log_range st s"
    and "0 < e_fuel k" and "allocated c (inodes s ! ip) (disksize s) m" and "q + (n - tot) \<le> BSIZE * m"
    and "length xs = n - tot" and "tot < n \<longrightarrow> q mod BSIZE + (n - tot) \<le> BSIZE * r"
    and "length B + r \<le> 30" "int (length B + r) \<le> z - 1"
  shows "\<exists>c' B' t. writei_loop k ip n tot q (S_bytes xs) s = Inr (q + (n - tot), t) \<and>
     brep i t c' (set B') Map.empty \<and> open_log st B' z t \<and> beside s t [] \<and> length B' \<le> length B + r \<and>
     wrote_file c c' (inodes s ! ip) (disksize s) m q xs B B'"
  using assms
proof (induction "n - tot" arbitrary: tot q s xs B c r rule: less_induct)
  case less
  note P = less.prems
  show ?case
  proof (cases "n \<le> tot")
    case True
    then show ?thesis using P wrote_file_Nil [OF P(3,6)] beside_same [where s = s and t = s and ws = "[]"]
      by (subst writei_loop.simps) (auto intro!: exI [of _ c] exI [of _ B])
  next
    case False
    define l where "l = min (n - tot) (BSIZE - q mod BSIZE)"
    have lp: "0 < l" "l \<le> n - tot" "l \<le> BSIZE - q mod BSIZE" using False by (auto simp: l_def)
    obtain r1 where r1: "r = Suc r1" using P(9) False by (cases r) auto
    have B: "length B < 30" "int (length B) < z - 1" using P(10,11) r1 by auto
    obtain c1 B1 u where u: "writei_loop k ip n tot q (S_bytes xs) s = writei_loop k ip n (tot + l) (q + l) (S_bytes (drop l xs)) u"
        "brep i u c1 (set B1) Map.empty" "open_log st B1 z u" "beside s u []" "length B1 \<le> Suc (length B)"
        "wrote_file c c1 (inodes s ! ip) (disksize s) m q (take l xs) B B1"
      using writei_round [OF P(1-6) l_def _ P(7,8) B] False by auto
    have du: "inodes u = inodes s" "disksize u = disksize s" "in_log_range st u"
      using beside_inodes(1) [OF u(4)] besideD(2) [OF u(4)] P(4) by (simp_all add: in_log_range_def)
    have W: "distinct B1" "allocated c1 (inodes s ! ip) (disksize s) m" using u(6) by (simp_all add: wrote_file_def)
    have rest: "(q + l) mod BSIZE + (n - (tot + l)) \<le> BSIZE * r1" if "tot + l < n"
    proof -
      have l: "l = BSIZE - q mod BSIZE" using that unfolding l_def by linarith
      have "q mod BSIZE < BSIZE" by simp
      then have "q + l = BSIZE * (q div BSIZE) + BSIZE" using l mult_div_mod_eq [of BSIZE q] by linarith
      then have "(q + l) mod BSIZE = 0" by simp
      moreover have "q mod BSIZE + (n - tot) \<le> BSIZE * r1 + BSIZE" using P(9) False r1 by simp
      ultimately show ?thesis using l that \<open>q mod BSIZE < BSIZE\<close> by linarith
    qed
    have q': "q + l + (n - (tot + l)) \<le> BSIZE * m" "length (drop l xs) = n - (tot + l)" "n - (tot + l) < n - tot"
      using P(7,8) lp by auto
    have B1: "length B1 + r1 \<le> 30" "int (length B1 + r1) \<le> z - 1" using u(5) P(10,11) r1 by auto
    have k: "0 < e_fuel k" by (rule P(5))
    obtain c' B' v where v: "writei_loop k ip n (tot + l) (q + l) (S_bytes (drop l xs)) u = Inr (q + l + (n - (tot + l)), v)"
        "brep i v c' (set B') Map.empty" "open_log st B' z v" "beside u v []" "length B' \<le> length B1 + r1"
        "wrote_file c1 c' (inodes u ! ip) (disksize u) m (q + l) (drop l xs) B1 B'"
      using less.hyps [OF q'(3) u(3,2) W(1) du(3) k _ q'(1,2) _ B1] W(2) du(1,2) rest by auto
    have "wrote_file c c' (inodes s ! ip) (disksize s) m q (take l xs @ drop l xs) B B'"
      using lp P(7,8) v(6) du by (intro wrote_file_trans [OF u(6)]) simp_all
    moreover have "beside s v []" using beside_trans [OF u(4) v(4)] by simp
    moreover have "q + l + (n - (tot + l)) = q + (n - tot)" using lp by simp
    moreover have "length B' \<le> length B + r" using u(5) v(5) r1 by simp
    ultimately show ?thesis using u(1) v(1,2,3) by (auto intro!: exI [of _ c'] exI [of _ B'])
  qed
qed

section \<open>Through the log to the disk and back\<close>

lemma allocated_cong:
  assumes a: "allocated c x D m" and d: "\<And>j. j < m \<Longrightarrow> d (blk c x j) = c (blk c x j)"
    and ind: "NDIRECT < m \<Longrightarrow> d (i_addrs x ! NDIRECT) = c (i_addrs x ! NDIRECT)"
  shows "j < m \<Longrightarrow> blk d x j = blk c x j" and "allocated d x D m" and "p < BSIZE * m \<Longrightarrow> fbyte d x p = fbyte c x p"
proof -
  show b: "blk d x j = blk c x j" if "j < m" for j using that ind by (simp add: blk_def)
  then show "allocated d x D m" using a d by (auto simp: allocated_def inj_on_def)
  show "fbyte d x p = fbyte c x p" if "p < BSIZE * m"
    using b [of "p div BSIZE"] d [of "p div BSIZE"] that by (simp add: fbyte_def div_less_iff_less_mult mult.commute)
qed

lemma readi_ok:
  assumes r: "brep i s c {} Map.empty" and k: "0 < e_fuel k" and x: "i_type (inodes s ! ip) \<noteq> T_DEV"
    and a: "allocated c (inodes s ! ip) (disksize s) m"
    and q: "unat off + n \<le> unat (i_size (inodes s ! ip))" "unat (i_size (inodes s ! ip)) \<le> BSIZE * m"
  shows "\<exists>t. readi k ip D_var off (of_nat n) s = Inr ((int n, map (fbyte c (inodes s ! ip)) [unat off..<unat off + n]), t)"
proof -
  let ?x = "inodes s ! ip"
  have m: "m \<le> MAXFILE" using a by (simp add: allocated_def)
  have n: "n < 71681" "unat off + n < 71681" using q m by simp_all
  then have u: "unat (of_nat n :: u32) = n" "unat (off + of_nat n) = unat off + n" "sint (of_nat n :: u32) = int n"
    by (simp_all add: unat_add_lem [THEN iffD1] signed_of_nat signed_take_bit_int_eq_self)
  then have "\<not> i_size ?x < off" "\<not> off + of_nat n < off" "\<not> i_size ?x < off + of_nat n"
    using q by (simp_all add: word_less_nat_alt)
  moreover obtain t where "readi_loop k ip n 0 (unat off) D_var s = Inr (map (fbyte c ?x) [unat off..<unat off + n], t)"
    using readi_loop_ok [OF r _ k a, of "unat off" n 0] q by auto
  ultimately show ?thesis using x u by (simp add: readi_def Let_def)
qed

lemma writei_ok:
  assumes g: "open_log st [] z s" and r: "brep i s c {} Map.empty" and lr: "in_log_range st s" and k: "0 < e_fuel k"
    and x: "i_type (inodes s ! ip) \<noteq> T_DEV" and a: "allocated c (inodes s ! ip) (disksize s) m"
    and q: "unat off + length xs \<le> unat (i_size (inodes s ! ip))" "unat (i_size (inodes s ! ip)) \<le> BSIZE * m"
    and w: "unat off mod BSIZE + length xs \<le> BSIZE * w" "w \<le> 30" "int w \<le> z - 1"
  shows "\<exists>c' B t. writei k ip (S_bytes xs) off (of_nat (length xs)) s = Inr (int (length xs), t) \<and>
     brep i t c' (set B) Map.empty \<and> open_log st B z t \<and> beside s t [] \<and> length B \<le> w \<and>
     wrote_file c c' (inodes s ! ip) (disksize s) m (unat off) xs [] B"
proof -
  let ?x = "inodes s ! ip" and ?n = "length xs"
  have m: "m \<le> MAXFILE" using a by (simp add: allocated_def)
  have n: "?n < 71681" "unat off + ?n < 71681" using q m by simp_all
  then have u: "unat (of_nat ?n :: u32) = ?n" "unat (off + of_nat ?n) = unat off + ?n" "sint (of_nat ?n :: u32) = int ?n"
    by (simp_all add: unat_add_lem [THEN iffD1] signed_of_nat signed_take_bit_int_eq_self)
  then have "\<not> i_size ?x < off" "\<not> off + of_nat ?n < off" "\<not> MAXFILE * BSIZE < unat (off + of_nat ?n)"
    using q n by (simp_all add: word_less_nat_alt)
  moreover obtain c' B t where t: "writei_loop k ip ?n 0 (unat off) (S_bytes xs) s = Inr (unat off + ?n, t)"
      "brep i t c' (set B) Map.empty" "open_log st B z t" "beside s t []" "length B \<le> w"
      "wrote_file c c' ?x (disksize s) m (unat off) xs [] B"
    using writei_loop_ok [where q = "unat off" and n = ?n and tot = 0 and xs = xs and r = w and i = i, OF g _ _ lr k a] r q w by auto
  moreover have "inodes t = inodes s" by (rule beside_inodes(1) [OF t(4)])
  ultimately show ?thesis using x u q by (auto simp: writei_def Let_def)
qed

text \<open>
  C19: Writing a file. In the transaction \<open>begin_op\<close>, \<open>writei\<close>, \<open>end_op\<close>, on any range inside of a
  file whose blocks are allocated, through direct or indirect blocks, \<open>writei\<close> accepts all
  bytes; after the commit the disk holds the written bytes in the range and the old ones in
  the rest of the file, and \<open>readi\<close> of the range returns the written bytes.
\<close>

theorem file_write_read:
  fixes s :: "'a fs_state_scheme"
  assumes I: "idle_log st s" and r: "brep i s (memdisk s) {} Map.empty" and k: "0 < e_fuel k"
    and x: "x = inodes s ! ip" "i_type x \<noteq> T_DEV" and a: "allocated (memdisk s) x (disksize s) m"
    and area: "\<forall>j<m. off_area st (blk (memdisk s) x j)" "NDIRECT < m \<longrightarrow> off_area st (i_addrs x ! NDIRECT)"
    and q: "unat off + length xs \<le> unat (i_size x)" "unat (i_size x) \<le> BSIZE * m" "xs \<noteq> []"
    and w: "unat off mod BSIZE + length xs \<le> BSIZE * w" "w < 30" "int w < lg_size (log s)"
  shows "\<exists>s1 s2 s3 s4. begin_op k s = Inr s1 \<and>
     writei k ip (S_bytes xs) off (of_nat (length xs)) s1 = Inr (int (length xs), s2) \<and> end_op k s2 = Inr s3 \<and>
     (\<forall>p < unat (i_size x). fbyte (memdisk s3) x p =
        (if unat off \<le> p \<and> p < unat off + length xs then xs ! (p - unat off) else fbyte (memdisk s) x p)) \<and>
     readi k ip D_var off (of_nat (length xs)) s3 = Inr ((int (length xs), xs), s4)"
proof -
  have D: "lg_dev (log s) = 1" "lg_start (log s) = st" "length (lg_block (log s)) = 30" "st < disksize s" "lg_n (log s) = 0"
      "lg_outstanding (log s) = 0" "\<not> lg_committing (log s)" "in_log_range st s"
    using I by (simp_all add: idle_log_def at_boot_def)
  let ?s = "set_log (\<lambda>g. g\<lparr>lg_outstanding := lg_outstanding g + 1\<rparr>) s" and ?z = "lg_size (log s)"
  have 1: "begin_op k s = Inr ?s" using begin_op_ok [OF brepD(1) [OF r] k] D by simp
  have o: "open_log st [] ?z ?s" "in_log_range st ?s" using D by (simp_all add: open_log_def logged_def in_log_range_def)
  have f: "inodes ?s = inodes s" by (rule fs_frame)
  obtain c B t where 2: "writei k ip (S_bytes xs) off (of_nat (length xs)) ?s = Inr (int (length xs), t)"
      "brep i t c (set B) Map.empty" "open_log st B ?z t" "beside ?s t []" "length B \<le> w"
      "wrote_file (memdisk s) c x (disksize s) m (unat off) xs [] B"
    using writei_ok [where w = w and m = m and off = off and xs = xs and ip = ip, OF o(1) brep_set_log [OF r] o(2) k] x a q w
    by (auto simp: f)
  note W = 2(6) [unfolded wrote_file_def]
  have B: "set B = {b. \<exists>p. unat off \<le> p \<and> p < unat off + length xs \<and> b = blk (memdisk s) x (p div BSIZE)}" using W by simp
  then have "blk (memdisk s) x (unat off div BSIZE) \<in> set B" using q(3) by auto
  then have Bn: "B \<noteq> []" by auto
  have "off_area st b" if "b \<in> set B" for b
    using that area(1) q unfolding B by (auto simp: div_less_iff_less_mult mult.commute)
  then have O: "offlog st B" unfolding offlog_def off_area_def by blast
  have lr: "in_log_range st t" using besideD(2) [OF 2(4)] o(2) by (simp add: in_log_range_def)
  have dB: "distinct B" "length B < 30" using W 2(5) w(2) by auto
  obtain u where 3: "end_op k t = Inr u" "brep i u (apply_writes (commit_writes st B c) c) {} Map.empty"
      "beside t u (commit_writes st B c)"
    using end_op_commits [OF 2(3,2) O dB(1) Bn dB(2) lr k] by blast
  have su: "beside ?s u (commit_writes st B c)" using beside_trans [OF 2(4) 3(3)] by simp
  have u: "inodes u = inodes s" "disksize u = disksize s" "memdisk u = apply_writes (commit_writes st B c) (memdisk s)"
    using beside_inodes(1) [OF su] besideD [OF su] f by simp_all
  have md: "memdisk u b = c b" if "off_area st b" for b
    unfolding u(3) using W O 2(5) w(2) that by (intro commit_disk) auto
  have c: "apply_writes (commit_writes st B c) c = memdisk u"
    by (rule ext) (use brepD(8) [OF 3(2)] in simp)
  have ac: "allocated c x (disksize s) m" "\<And>j. j < m \<Longrightarrow> blk c x j = blk (memdisk s) x j" using W by auto
  have A: "allocated (memdisk u) x (disksize u) m" "\<And>p. p < BSIZE * m \<Longrightarrow> fbyte (memdisk u) x p = fbyte c x p"
    using allocated_cong [OF ac(1), of "memdisk u"] md area ac(2) u(2) by auto
  have F: "fbyte (memdisk u) x p =
        (if unat off \<le> p \<and> p < unat off + length xs then xs ! (p - unat off) else fbyte (memdisk s) x p)"
    if "p < unat (i_size x)" for p using that q(2) A(2) W by auto
  obtain v where v: "readi k ip D_var off (of_nat (length xs)) u =
      Inr ((int (length xs), map (fbyte (memdisk u) x) [unat off..<unat off + length xs]), v)"
    using readi_ok [where ip = ip and off = off and n = "length xs" and m = m, OF 3(2) [unfolded c] k] x A(1) q u(1) by auto
  have "map (fbyte (memdisk u) x) [unat off..<unat off + length xs] = xs"
    by (rule nth_equalityI) (use F q in auto)
  then show ?thesis using 1 2(1) 3(1) F v by auto
qed

text \<open>A file of 700 bytes in the blocks 100 and 101.\<close>

definition sample_two_blocks :: inode where
  "sample_two_blocks = sample_inode\<lparr>i_inum := 7, i_ref := 1, i_valid := True, i_type := 2, i_nlink := 1, i_size := 700,
     i_addrs := [100, 101, 0, 0, 0, 0, 0, 0, 0, 0, 0, 0, 0]\<rparr>"

abbreviation (input) "sample_disk \<equiv> sample_kernel (\<lambda>_. replicate 512 0) [sample_two_blocks] [] (\<lambda>_. sample_pipe 0)"

lemma sample_kernel_idle [simp]: "idle_log 2 (sample_kernel img ips fs ps)"
  by (simp add: idle_log_def at_boot_def in_log_range_def sample_log_slots sample_klog_def)

lemma sample_far: "unat n < 1000 \<Longrightarrow> 32 < unat n \<Longrightarrow> off_area 2 n"
  using logslot_2 by (fastforce simp: off_area_def)

lemma sample_two_allocated: "allocated (\<lambda>_. replicate 512 0) sample_two_blocks 1000 2"
proof -
  have "blk (\<lambda>_. replicate 512 0) sample_two_blocks j = (if j = 0 then 100 else 101)" if "j < 2" for j
    using that by (auto simp: blk_def sample_two_blocks_def less_2_cases_iff)
  then show ?thesis by (auto simp: allocated_def inj_on_def sample_two_blocks_def sample_inode_def less_2_cases_iff)
qed

theorem file_write_read_witness:
  "\<exists>s1 s2 s3 s4. begin_op sample_env sample_disk = Inr s1 \<and>
     writei sample_env 0 (S_bytes [1, 2, 3, 4]) 510 4 s1 = Inr (4, s2) \<and> end_op sample_env s2 = Inr s3 \<and>
     fbyte (memdisk s3) sample_two_blocks 512 = 3 \<and> fbyte (memdisk s3) sample_two_blocks 514 = 0 \<and>
     readi sample_env 0 D_var 510 4 s3 = Inr ((4, [1, 2, 3, 4]), s4)"
proof -
  have b: "blk (\<lambda>_. replicate 512 0) sample_two_blocks j = (if j = 0 then 100 else 101)" if "j < 2" for j
    using that by (auto simp: blk_def sample_two_blocks_def less_2_cases_iff)
  have "\<forall>j<2. off_area 2 (blk (\<lambda>_. replicate 512 0) sample_two_blocks j)"
    using b by (auto intro!: sample_far)
  moreover have "i_type sample_two_blocks = 2" "i_size sample_two_blocks = 700" by (simp_all add: sample_two_blocks_def)
  moreover have "fbyte (\<lambda>_. replicate 512 0) sample_two_blocks 514 = 0" by (simp add: fbyte_def)
  ultimately show ?thesis
    using file_write_read [where s = sample_disk and st = 2 and i = 1 and k = sample_env and x = sample_two_blocks and ip = 0
        and m = 2 and off = 510 and xs = "[1, 2, 3, 4]" and w = 2] sample_two_allocated
    by (auto simp: sample_klog_def)
qed

end
