(* ===== verification/Balloc.thy ===== *)
theory Balloc
  imports Filedata
begin

text \<open>
  The free map of the file system: \<open>balloc\<close> and \<open>bfree\<close> of \<open>src/fs.c\<close> inside of a transaction,
  for a file system whose map fits into one block (at most 4096 blocks; the one that
  \<open>src/mkfs.c\<close> writes has 1000).
\<close>

unbundle bit_operations_syntax

definition used :: "u8 list \<Rightarrow> nat \<Rightarrow> bool" where
  "used d j = bit (d ! (j div 8)) (j mod 8)"

definition mark :: "nat \<Rightarrow> u8 list \<Rightarrow> u8 list" where
  "mark j d = d[j div 8 := d ! (j div 8) OR push_bit (j mod 8) 1]"

definition unmark :: "nat \<Rightarrow> u8 list \<Rightarrow> u8 list" where
  "unmark j d = d[j div 8 := d ! (j div 8) AND NOT (push_bit (j mod 8) 1)]"

lemma bit_single: "bit (2 ^ (j mod 8) :: u8) i \<longleftrightarrow> i = j mod 8"
  by (auto simp: bit_exp_iff)

lemma bit_of_zero: "bit_of d j = 0 \<longleftrightarrow> \<not> used d j"
proof -
  have "bit (bit_of d j) i \<longleftrightarrow> i = j mod 8 \<and> used d j" for i
    by (auto simp: bit_of_def used_def bit_and_iff bit_single)
  then show ?thesis by (metis bit_0_eq bit_eq_iff bot_apply bot_bool_def)
qed

lemma used_mark:
  assumes "length d = BSIZE" and "j < BPB"
  shows "used (mark j d) i \<longleftrightarrow> used d i \<or> i = j"
proof (cases "i div 8 = j div 8")
  case True
  then have "i mod 8 = j mod 8 \<longleftrightarrow> i = j" by (metis mult_div_mod_eq)
  then show ?thesis using assms True by (simp add: used_def mark_def bit_or_iff bit_single)
next
  case False
  then show ?thesis by (auto simp: used_def mark_def)
qed

lemma unmark_mark: "\<not> used d j \<Longrightarrow> unmark j (mark j d) = d"
proof (cases "j div 8 < length d")
  case True
  assume u: "\<not> used d j"
  have "(d ! (j div 8) OR push_bit (j mod 8) 1) AND NOT (push_bit (j mod 8) 1) = d ! (j div 8)"
  proof (rule bit_eqI)
    fix i
    have "\<not> bit (d ! (j div 8)) (j mod 8)" using u by (simp add: used_def)
    then show "bit ((d ! (j div 8) OR push_bit (j mod 8) 1) AND NOT (push_bit (j mod 8) 1)) i = bit (d ! (j div 8)) i"
      by (auto simp: bit_and_iff bit_or_iff bit_not_iff bit_single dest: bit_imp_le_length)
  qed
  then show ?thesis using True by (simp add: unmark_def mark_def)
qed (simp add: unmark_def mark_def list_update_beyond)

section \<open>Allocation\<close>

text \<open>What the routines rely on: one map block, itself in range and marked as used.\<close>

definition map_ok :: "superblock \<Rightarrow> (u32 \<Rightarrow> u8 list) \<Rightarrow> u32 \<Rightarrow> bool" where
  "map_ok b c D \<longleftrightarrow> 0 < sb_size b \<and> unat (sb_size b) \<le> BPB \<and> sb_size b \<le> D \<and> sb_bmapstart b < D \<and>
     length (c (sb_bmapstart b)) = BSIZE \<and> used (c (sb_bmapstart b)) (unat (sb_bmapstart b))"

lemma first_free:
  assumes "b < n" and "\<not> used d b" and "\<forall>j<b. used d j"
  shows "find (\<lambda>bi. bit_of d bi = 0) [0..<n] = Some b"
  using assms by (auto simp: find_Some_iff bit_of_zero intro!: exI [of _ b])

lemma BBLOCK_small: "unat b < BPB \<Longrightarrow> BBLOCK b x = sb_bmapstart x"
  by (simp add: BBLOCK_def word_arith_nat_div)

lemma bzero_ok:
  assumes g: "open_log st B z s" and r: "brep i s c (set B) Map.empty" and n: "n < disksize s" and q: "in_log_range st s"
    and l: "length B < 30" "int (length B) < z - 1" and k: "0 < e_fuel k"
  shows "\<exists>t. bzero k 1 n s = Inr t \<and> brep i t (c(n := replicate BSIZE 0)) (set (note_block n B)) Map.empty \<and>
     open_log st (note_block n B) z t \<and> beside s t []"
proof -
  obtain b t u v where "bread k 1 n s = Inr (b, t)" "log_write b (set_buf b (\<lambda>x. x\<lparr>b_data := replicate BSIZE 0\<rparr>) t) = Inr u"
      "brelse b u = Inr v" "brep i v (c(n := replicate BSIZE 0)) (set (note_block n B)) Map.empty"
      "open_log st (note_block n B) z v" "beside s v []"
    using log_step [OF assms, of "replicate BSIZE 0"] by blast
  then show ?thesis by (auto simp: bzero_def Let_def simp del: fun_upd_apply)
qed

lemma balloc_ok:
  assumes g: "open_log st B z s" and r: "brep i s c (set B) Map.empty" and q: "in_log_range st s" and k: "0 < e_fuel k"
    and m: "map_ok (sb s) c (disksize s)" and l: "length B < 29" "int (length B) < z - 2"
    and b: "b < unat (sb_size (sb s))" "\<not> used (c (sb_bmapstart (sb s))) b" "\<forall>j<b. used (c (sb_bmapstart (sb s))) j"
  shows "\<exists>t B'. balloc k 1 s = Inr (of_nat b, t) \<and>
     brep i t (c(sb_bmapstart (sb s) := mark b (c (sb_bmapstart (sb s))), of_nat b := replicate BSIZE 0)) (set B') Map.empty \<and>
     open_log st B' z t \<and> beside s t [] \<and> B' = note_block (of_nat b) (note_block (sb_bmapstart (sb s)) B)"
proof -
  let ?x = "sb s" and ?m = "sb_bmapstart (sb s)" and ?N = "unat (sb_size (sb s))"
  have M: "?m < disksize s" "length (c ?m) = BSIZE" "?N \<le> BPB" "0 < ?N" "sb_size ?x \<le> disksize s" "used (c ?m) (unat ?m)"
    using m by (auto simp: map_ok_def word_less_nat_alt)
  let ?d = "mark b (c ?m)"
  obtain p t u v where 1: "bread k 1 ?m s = Inr (p, t)" "same s t []" "b_data (bufs t ! p) = c ?m"
      "log_write p (set_buf p (\<lambda>x. x\<lparr>b_data := ?d\<rparr>) t) = Inr u" "brelse p u = Inr v"
      "brep i v (c(?m := ?d)) (set (note_block ?m B)) Map.empty" "open_log st (note_block ?m B) z v" "beside s v []"
    using log_step [OF g r M(1) q _ _ k, of ?d] l by auto
  have v: "disksize v = disksize s" "in_log_range st v" "sb v = sb s"
    using besideD(2) [OF 1(8)] q beside_inodes(2) [OF 1(8)] by (simp_all add: in_log_range_def)
  have "unat (of_nat b :: u32) = b" using b(1) M(3) by simp
  then have n: "of_nat b < disksize v" using b(1) M(5) v(1) by (simp add: word_less_nat_alt word_le_nat_alt)
  obtain w where 2: "bzero k 1 (of_nat b) v = Inr w"
      "brep i w (c(?m := ?d, of_nat b := replicate BSIZE 0)) (set (note_block (of_nat b) (note_block ?m B))) Map.empty"
      "open_log st (note_block (of_nat b) (note_block ?m B)) z w" "beside v w []"
    using bzero_ok [OF 1(7,6) n v(2) _ _ k] l length_note_block [of ?m B] by fastforce
  have f: "find (\<lambda>bi. bit_of (c ?m) bi = 0) [0..<min BPB (?N - 0)] = Some b"
    using b M(3) by (intro first_free) auto
  have st: "sb t = sb s" by (rule same_inodes(2) [OF 1(2)])
  have lw: "log_write p (set_buf p (\<lambda>x. x\<lparr>b_data := (b_data x)[b div 8 := b_data x ! (b div 8) OR push_bit (b mod 8) 1]\<rparr>) t) = Inr u"
    using 1(4) set_buf_data [OF 1(3), of "mark b"] by (simp add: mark_def)
  have "balloc_block k 1 0 s = Inr (Some (of_nat b), w)"
    using 1(1,3,5) 2(1) f lw st by (simp add: balloc_block_def BBLOCK_small Let_def)
  moreover have "(?N + (BPB - 1)) div BPB = 1" using M(3,4) by (simp add: div_nat_eqI)
  ultimately have "balloc k 1 s = Inr (of_nat b, w)" by (simp add: balloc_def)
  moreover have "beside s w []" using beside_trans [OF 1(8) 2(4)] by simp
  ultimately show ?thesis using 2(2,3) by (auto simp del: fun_upd_apply)
qed

section \<open>Release\<close>

lemma bfree_ok:
  assumes g: "open_log st B z s" and r: "brep i s c (set B) Map.empty" and q: "in_log_range st s" and k: "0 < e_fuel k"
    and m: "map_ok (sb s) c (disksize s)" and l: "length B < 30" "int (length B) < z - 1" and b: "b < BPB"
  shows "used (c (sb_bmapstart (sb s))) b \<Longrightarrow> \<exists>t. bfree k 1 (of_nat b) s = Inr t \<and>
       brep i t (c(sb_bmapstart (sb s) := unmark b (c (sb_bmapstart (sb s))))) (set (note_block (sb_bmapstart (sb s)) B)) Map.empty \<and>
       open_log st (note_block (sb_bmapstart (sb s)) B) z t \<and> beside s t []"
    and "\<not> used (c (sb_bmapstart (sb s))) b \<Longrightarrow> bfree k 1 (of_nat b) s = Inl (Panic ''freeing free block'')"
proof -
  let ?m = "sb_bmapstart (sb s)"
  have M: "?m < disksize s" using m by (simp add: map_ok_def)
  have u: "unat (of_nat b :: u32) = b" "BBLOCK (of_nat b) (sb s) = ?m" using b by (simp_all add: BBLOCK_small)
  obtain p t u v where 1: "bread k 1 ?m s = Inr (p, t)" "same s t []" "b_data (bufs t ! p) = c ?m"
      "log_write p (set_buf p (\<lambda>x. x\<lparr>b_data := unmark b (c ?m)\<rparr>) t) = Inr u" "brelse p u = Inr v"
      "brep i v (c(?m := unmark b (c ?m))) (set (note_block ?m B)) Map.empty" "open_log st (note_block ?m B) z v" "beside s v []"
    using log_step [OF g r M q l k, of "unmark b (c ?m)"] by auto
  have lw: "log_write p (set_buf p (\<lambda>x. x\<lparr>b_data := (b_data x)[b div 8 := b_data x ! (b div 8) AND NOT (push_bit (b mod 8) 1)]\<rparr>) t) = Inr u"
    using 1(4) set_buf_data [OF 1(3), of "unmark b"] by (simp add: unmark_def)
  show "\<exists>t. bfree k 1 (of_nat b) s = Inr t \<and> brep i t (c(?m := unmark b (c ?m))) (set (note_block ?m B)) Map.empty \<and>
       open_log st (note_block ?m B) z t \<and> beside s t []" if "used (c ?m) b"
    using 1 lw u b that by (simp add: bfree_def Let_def bit_of_zero del: fun_upd_apply)
  show "bfree k 1 (of_nat b) s = Inl (Panic ''freeing free block'')" if "\<not> used (c ?m) b"
    using 1 u b that by (simp add: bfree_def Let_def bit_of_zero)
qed

text \<open>
  C20: The free map. Inside of a transaction \<open>balloc\<close> returns the first block that the map
  shows as free, marks this block and no other, fills it with zeros, and leaves every block
  but these two alone. \<open>bfree\<close> of that block restores the map exactly, and a second \<open>bfree\<close>
  of it panics.
\<close>

theorem balloc_bfree:
  fixes s :: "'a fs_state_scheme"
  defines "fm \<equiv> sb_bmapstart (sb s)"
  assumes g: "open_log st B z s" and r: "brep i s c (set B) Map.empty" and q: "in_log_range st s" and k: "0 < e_fuel k"
    and m: "map_ok (sb s) c (disksize s)" and l: "length B < 28" "int (length B) < z - 3"
    and b: "b < unat (sb_size (sb s))" "\<not> used (c fm) b" "\<forall>j<b. used (c fm) j"
  shows "\<exists>t u c1 c2 P1 P2. balloc k 1 s = Inr (of_nat b, t) \<and> brep i t c1 P1 Map.empty \<and>
     (\<forall>j. used (c1 fm) j \<longleftrightarrow> used (c fm) j \<or> j = b) \<and> c1 (of_nat b) = replicate BSIZE 0 \<and>
     (\<forall>n. n \<noteq> fm \<and> n \<noteq> of_nat b \<longrightarrow> c1 n = c n) \<and>
     bfree k 1 (of_nat b) t = Inr u \<and> brep i u c2 P2 Map.empty \<and> c2 fm = c fm \<and>
     bfree k 1 (of_nat b) u = Inl (Panic ''freeing free block'')"
proof -
  have M: "unat (sb_size (sb s)) \<le> BPB" "used (c fm) (unat fm)" "length (c fm) = BSIZE" using m by (auto simp: map_ok_def fm_def)
  have bb: "b < BPB" using b(1) M(1) by simp
  then have ub: "unat (of_nat b :: u32) = b" by simp
  then have ne: "fm \<noteq> of_nat b" using M(2) b(2) by auto
  define E where "E = note_block (of_nat b) (note_block fm B)"
  define C where "C = c(fm := mark b (c fm), of_nat b := replicate BSIZE 0)"
  have C: "C fm = mark b (c fm)" "C (of_nat b) = replicate BSIZE 0" "\<And>n. n \<noteq> fm \<Longrightarrow> n \<noteq> of_nat b \<Longrightarrow> C n = c n"
    using ne by (simp_all add: C_def)
  obtain t where t: "balloc k 1 s = Inr (of_nat b, t)" "brep i t C (set E) Map.empty" "open_log st E z t" "beside s t []"
    using balloc_ok [OF g r q k m _ _ b(1)] l b(2,3) unfolding fm_def E_def C_def by auto
  have f: "sb t = sb s" "disksize t = disksize s" "in_log_range st t"
    using beside_inodes(2) [OF t(4)] besideD(2) [OF t(4)] q by (simp_all add: in_log_range_def)
  have len: "length E \<le> length B + 2"
    using length_note_block [of "of_nat b" "note_block fm B"] length_note_block [of fm B] unfolding E_def by linarith
  have U: "used (mark b (c fm)) j \<longleftrightarrow> used (c fm) j \<or> j = b" for j by (rule used_mark [OF M(3) bb])
  have mt: "map_ok (sb t) C (disksize t)" using m f C(1) U M by (auto simp: map_ok_def mark_def fm_def)
  have um: "used (C (sb_bmapstart (sb t))) b" using f C(1) U by (simp add: fm_def)
  have l1: "length E < 30" "int (length E) < z - 1" using len l by auto
  obtain u where u: "bfree k 1 (of_nat b) t = Inr u" "brep i u (C(fm := unmark b (C fm))) (set (note_block fm E)) Map.empty"
      "open_log st (note_block fm E) z u" "beside t u []"
    using bfree_ok(1) [OF t(3,2) f(3) k mt l1 bb um] f(1) unfolding fm_def by (auto simp del: fun_upd_apply)
  have fu: "sb u = sb s" "disksize u = disksize s" "in_log_range st u"
    using beside_inodes(2) [OF u(4)] besideD(2) [OF u(4)] f by (simp_all add: in_log_range_def)
  have c2: "(C(fm := unmark b (C fm))) fm = c fm" using C(1) unmark_mark [OF b(2)] by simp
  have mu: "map_ok (sb u) (C(fm := unmark b (C fm))) (disksize u)" using m fu c2 by (simp add: map_ok_def fm_def)
  have "note_block fm E = E" by (simp add: note_block_def [of fm E]) (simp add: E_def)
  then have "bfree k 1 (of_nat b) u = Inl (Panic ''freeing free block'')"
    using bfree_ok(2) [OF u(3,2) fu(3) k mu _ _ bb] l1 b(2) c2 fu(1) by (simp add: fm_def del: fun_upd_apply)
  then show ?thesis using t(1,2) u(1,2) c2 U C by (intro exI conjI) (assumption | simp)+
qed

text \<open>A disk with the blocks up to 63 in use.\<close>

definition sample_map :: "u32 \<Rightarrow> u8 list" where
  "sample_map n = (if n = 58 then replicate 8 255 @ replicate 504 0 else replicate 512 7)"

lemma sample_map_used: "used (sample_map 58) j \<longleftrightarrow> j < 64" if "j < 4096"
proof -
  have e: "(255 :: u8) = - 1" by simp
  have "bit (255 :: u8) (j mod 8)" unfolding e by (simp only: bit_minus_1_iff) simp
  moreover have "j div 8 < 8 \<longleftrightarrow> j < 64" "j div 8 < 512" using that by auto
  ultimately show ?thesis by (auto simp: used_def sample_map_def nth_append)
qed

abbreviation (input) "sample_open \<equiv>
  set_log (\<lambda>g. g\<lparr>lg_outstanding := 1\<rparr>) (sample_kernel sample_map [] [] (\<lambda>_. sample_pipe 0))"

theorem balloc_bfree_witness:
  "\<exists>t u. balloc sample_env 1 sample_open = Inr (64, t) \<and> bfree sample_env 1 64 t = Inr u \<and>
     bfree sample_env 1 64 u = Inl (Panic ''freeing free block'')"
proof -
  have s: "sb sample_open = sample_sb" by (simp add: set_log_def)
  have "open_log 2 [] 30 sample_open"
    using sample_kernel_idle [of sample_map "[]" "[]" "\<lambda>_. sample_pipe 0"]
    by (simp add: open_log_def logged_def idle_log_def at_boot_def sample_klog_def)
  moreover have "in_log_range 2 sample_open" by (simp add: in_log_range_def sample_log_slots)
  moreover have "map_ok sample_sb sample_map 1000"
    using sample_map_used [of 58] by (simp add: map_ok_def sample_sb_def) (simp add: sample_map_def)
  moreover have "brep 1 sample_open sample_map (set []) Map.empty" by (intro brep_set_log) simp
  ultimately show ?thesis
    using balloc_bfree [where s = sample_open and st = 2 and B = "[]" and z = 30 and i = 1 and c = sample_map and k = sample_env and b = 64]
      sample_map_used s by (simp add: sample_sb_def) blast
qed

end
