(* ===== verification/Paging.thy ===== *)
theory Paging
  imports Core
begin

text \<open>
  What \<open>walkpgdir\<close> and \<open>mappages\<close> of \<open>src/vm.c\<close> do to the translation of addresses. A page
  directory is well formed when its page tables are pages different from it and from each
  other; mapping a page then changes the translation of this page only, whether its page
  table exists already or comes from the page allocator.
\<close>

unbundle bit_operations_syntax

section \<open>Bits of an address\<close>

lemma aligned_bits: "(w :: u32) mod 0x1000 = 0 \<longleftrightarrow> (\<forall>i<12. \<not> bit w i)"
proof -
  have "w mod 0x1000 = take_bit 12 w" by (simp add: take_bit_eq_mod)
  also have "\<dots> = 0 \<longleftrightarrow> (\<forall>i<12. \<not> bit w i)" by (auto simp: bit_eq_iff bit_take_bit_iff)
  finally show ?thesis .
qed

lemma low_mask: "(0xFFF :: u32) = mask 12"
  by (simp add: mask_eq_exp_minus_1)

lemma bit_PTE_ADDR: "bit (PTE_ADDR w) i \<longleftrightarrow> 12 \<le> i \<and> bit w i"
  unfolding PTE_ADDR_def low_mask by (auto simp: bit_simps dest: bit_imp_le_length)

lemma PTE_ADDR_or: "w mod 0x1000 = 0 \<Longrightarrow> f AND NOT 0xFFF = 0 \<Longrightarrow> PTE_ADDR (w OR f) = w"
proof (rule bit_eqI)
  fix i
  assume "w mod 0x1000 = 0" "f AND NOT 0xFFF = 0"
  then have "\<not> bit w i" if "i < 12" using that by (simp add: aligned_bits)
  moreover have "\<not> bit f i" if "12 \<le> i"
  proof -
    have "\<not> bit (PTE_ADDR f) i" using \<open>f AND NOT 0xFFF = 0\<close> by (simp add: PTE_ADDR_def)
    then show ?thesis using that by (simp add: bit_PTE_ADDR)
  qed
  ultimately show "bit (PTE_ADDR (w OR f)) i = bit w i"
    by (cases "i < 12") (auto simp: bit_PTE_ADDR bit_or_iff)
qed

lemma PTE_ADDR_aligned: "PTE_ADDR w mod 0x1000 = 0"
  by (simp add: aligned_bits bit_PTE_ADDR)

lemma P2V_aligned: "P2V w mod 0x1000 = 0 \<longleftrightarrow> w mod 0x1000 = 0" "V2P w mod 0x1000 = 0 \<longleftrightarrow> w mod 0x1000 = 0"
proof -
  have "(w + 0x80000000) mod 0x1000 = w mod 0x1000" for w :: u32
    by (simp add: word_unat_eq_iff unat_mod unat_word_ariths mod_mod_cancel) (simp add: mod_add_eq [symmetric])
  from this [of w] this [of "w - 0x80000000"]
  show "P2V w mod 0x1000 = 0 \<longleftrightarrow> w mod 0x1000 = 0" "V2P w mod 0x1000 = 0 \<longleftrightarrow> w mod 0x1000 = 0"
    by (simp_all add: P2V_def V2P_def)
qed

lemma P2V_V2P [simp]: "P2V (V2P w) = w"
  by (simp add: P2V_def V2P_def)

text \<open>The page of an address is given by its two table indices.\<close>

lemma bit_index: "bit (drop_bit n a AND 0x3FF :: u32) i \<longleftrightarrow> i < 10 \<and> bit a (n + i)"
proof -
  have M: "(0x3FF :: u32) = mask 10" by (simp add: mask_eq_exp_minus_1)
  show ?thesis unfolding M by (auto simp: bit_simps)
qed

lemma same_page: "PDX a = PDX b \<and> PTX a = PTX b \<longleftrightarrow> PTE_ADDR a = PTE_ADDR b"
proof
  assume I: "PDX a = PDX b \<and> PTX a = PTX b"
  show "PTE_ADDR a = PTE_ADDR b"
  proof (rule bit_eqI)
    fix i assume "possible_bit TYPE(32 word) i"
    then have "i < 32" by simp
    have "bit a i = bit b i" if "22 \<le> i"
    proof -
      have "i - 22 < 10" using \<open>i < 32\<close> that by arith
      then show ?thesis using I that bit_index [of 22 a "i - 22"] bit_index [of 22 b "i - 22"] by (simp add: PDX_def)
    qed
    moreover have "bit a i = bit b i" if "12 \<le> i" "i < 22"
    proof -
      have "i - 12 < 10" using that by arith
      then show ?thesis using I that bit_index [of 12 a "i - 12"] bit_index [of 12 b "i - 12"] by (simp add: PTX_def)
    qed
    ultimately show "bit (PTE_ADDR a) i = bit (PTE_ADDR b) i" by (cases "i < 22") (auto simp: bit_PTE_ADDR)
  qed
next
  assume "PTE_ADDR a = PTE_ADDR b"
  then have "bit a i = bit b i" if "12 \<le> i" for i using that bit_PTE_ADDR [of a i] bit_PTE_ADDR [of b i] by simp
  then show "PDX a = PDX b \<and> PTX a = PTX b"
    unfolding PDX_def PTX_def bit_eq_iff bit_index by simp
qed

section \<open>Entries of a page\<close>

lemma index_less: "PDX a < 1024" "PTX a < 1024"
proof -
  have "x AND 0x3FF < (1024 :: u32)" for x
    using word_and_le1 [of x "0x3FF"] by (simp add: word_le_nat_alt word_less_nat_alt)
  then show "PDX a < 1024" "PTX a < 1024" by (simp_all add: PDX_def PTX_def)
qed

lemma entry_offset:
  assumes "i < 1024" and "in_range (p + 4 * i) 4 a"
  shows "unat (a - p) div 4 = unat i" and "unat (a - p) < 4096"
proof -
  have i: "unat (4 * i) = 4 * unat i" using assms(1) by (simp add: unat_word_ariths word_less_nat_alt)
  define r where "r = a - (p + 4 * i)"
  have r: "unat r < 4" using assms(2) by (simp add: in_range_def r_def)
  have "a - p = 4 * i + r" by (simp add: r_def)
  moreover have "unat (4 * i + r) = 4 * unat i + unat r"
    unfolding unat_plus_if' using i r assms(1) by (simp add: word_less_nat_alt)
  ultimately have "unat (a - p) = 4 * unat i + unat r" by simp
  then show "unat (a - p) div 4 = unat i" "unat (a - p) < 4096" using r assms(1) by (simp_all add: word_less_nat_alt)
qed

lemma entry_in_page: "i < 1024 \<Longrightarrow> in_range (p + 4 * i) 4 a \<Longrightarrow> in_range p 4096 a"
  using entry_offset(2) by (simp add: in_range_def)

lemma entries_disjoint:
  "i < 1024 \<Longrightarrow> j < 1024 \<Longrightarrow> in_range (p + 4 * i) 4 a \<Longrightarrow> in_range (p + 4 * j) 4 a \<Longrightarrow> i = j"
  using entry_offset(1) [of i p a] entry_offset(1) [of j p a] by (simp add: word_unat_eq_iff)

lemma load_entry_other:
  assumes "p mod 0x1000 = 0" and "q mod 0x1000 = 0" and "i < 1024" and "j < 1024" and "p \<noteq> q \<or> i \<noteq> j"
    and "\<And>a. \<not> in_range (p + 4 * i) 4 a \<Longrightarrow> m' a = m a"
  shows "load32 m' (q + 4 * j) = load32 m (q + 4 * j)"
proof (rule load32_other)
  fix n :: nat assume "n < 4"
  then have a: "in_range (q + 4 * j) 4 (q + 4 * j + of_nat n)" by (intro in_range_offset) simp_all
  have "\<not> in_range (p + 4 * i) 4 (q + 4 * j + of_nat n)"
  proof
    assume b: "in_range (p + 4 * i) 4 (q + 4 * j + of_nat n)"
    have "p = q" by (rule ccontr) (use pages_disjoint [OF assms(1,2) _ entry_in_page [OF assms(3) b]] entry_in_page [OF assms(4) a] in blast)
    then have "i = j" using entries_disjoint [OF assms(3,4) b] a by blast
    with \<open>p = q\<close> assms(5) show False by blast
  qed
  then show "m' (q + 4 * j + of_nat n) = m (q + 4 * j + of_nat n)" by (rule assms(6))
qed

lemma store_entry_other:
  "p mod 0x1000 = 0 \<Longrightarrow> q mod 0x1000 = 0 \<Longrightarrow> i < 1024 \<Longrightarrow> j < 1024 \<Longrightarrow> p \<noteq> q \<or> i \<noteq> j \<Longrightarrow>
     load32 (store32 m (p + 4 * i) v) (q + 4 * j) = load32 m (q + 4 * j)"
  by (rule load_entry_other) (auto simp: store32_apply)

section \<open>Page tables\<close>

definition dir_entry :: "memory \<Rightarrow> u32 \<Rightarrow> u32 \<Rightarrow> u32" where
  "dir_entry m d a = load32 m (d + 4 * PDX a)"

definition table :: "memory \<Rightarrow> u32 \<Rightarrow> u32 \<Rightarrow> u32" where
  "table m d a = P2V (PTE_ADDR (dir_entry m d a))"

definition table_entry :: "memory \<Rightarrow> u32 \<Rightarrow> u32 \<Rightarrow> u32" where
  "table_entry m d a = load32 m (table m d a + 4 * PTX a)"

definition present :: "memory \<Rightarrow> u32 \<Rightarrow> u32 \<Rightarrow> bool" where
  "present m d a \<longleftrightarrow> dir_entry m d a AND PTE_P \<noteq> 0"

text \<open>
  A well-formed directory: the tables allow what their entries allow, are pages of their
  own, and neither the directory nor a table is in the pool of free pages.
\<close>

definition paging :: "memory \<Rightarrow> u32 \<Rightarrow> u32 list \<Rightarrow> bool" where
  "paging m d vs \<longleftrightarrow> d mod PGSIZE = 0 \<and> d \<notin> set vs \<and>
     (\<forall>a. present m d a \<longrightarrow> PTE_FLAGS (dir_entry m d a) = 7 \<and> table m d a \<notin> {0, d} \<union> set vs \<and>
        (\<forall>b. present m d b \<and> table m d b = table m d a \<longrightarrow> PDX b = PDX a))"

lemma pagingD:
  assumes "paging m d vs"
  shows "d mod PGSIZE = 0" and "d \<notin> set vs"
    and "present m d a \<Longrightarrow> PTE_FLAGS (dir_entry m d a) = 7"
    and "present m d a \<Longrightarrow> table m d a \<noteq> 0 \<and> table m d a \<noteq> d \<and> table m d a \<notin> set vs"
    and "present m d a \<Longrightarrow> present m d b \<Longrightarrow> table m d b = table m d a \<Longrightarrow> PDX b = PDX a"
  using assms unfolding paging_def by blast+

lemma table_aligned: "table m d a mod PGSIZE = 0"
  by (simp add: table_def P2V_aligned PTE_ADDR_aligned)

lemma xlate_entries:
  "xlate m (V2P d) a =
     (if present m d a \<and> table_entry m d a AND PTE_P \<noteq> 0
      then Some (P2V (PTE_ADDR (table_entry m d a)) + (a AND 0xFFF),
                 PTE_FLAGS (dir_entry m d a) AND PTE_FLAGS (table_entry m d a))
      else None)"
  by (simp add: xlate_def present_def table_entry_def table_def dir_entry_def Let_def)

lemma set_table_entry:
  fixes v :: u32
  assumes p: "paging m d vs" and a: "present m d a"
  defines "m' \<equiv> store32 m (table m d a + 4 * PTX a) v"
  shows "dir_entry m' d x = dir_entry m d x" and "paging m' d vs"
    and "present m d x \<Longrightarrow> table_entry m' d x = (if PTE_ADDR x = PTE_ADDR a then v else table_entry m d x)"
proof -
  have e: "dir_entry m' d x = dir_entry m d x" for x
    unfolding dir_entry_def m'_def
    by (rule store_entry_other [OF table_aligned pagingD(1) [OF p] index_less(2,1)]) (simp only: pagingD(4) [OF p a] simp_thms)
  then show "dir_entry m' d x = dir_entry m d x" .
  have f: "present m' d = present m d" "table m' d = table m d" by (simp_all add: fun_eq_iff present_def table_def e)
  show "paging m' d vs" using p unfolding paging_def f e .
  assume x: "present m d x"
  show "table_entry m' d x = (if PTE_ADDR x = PTE_ADDR a then v else table_entry m d x)"
  proof (cases "PTE_ADDR x = PTE_ADDR a")
    case True
    note i = same_page [THEN iffD2, OF True]
    have "table_entry m' d x = table_entry m' d a" unfolding table_entry_def table_def dir_entry_def by (simp only: i)
    also have "\<dots> = v" unfolding table_entry_def f(2) unfolding m'_def by (rule load32_store32)
    finally show ?thesis by (simp only: True simp_thms if_True)
  next
    case False
    then have "\<not> (PDX x = PDX a \<and> PTX x = PTX a)" by (simp only: same_page simp_thms)
    then have "table m d a \<noteq> table m d x \<or> PTX a \<noteq> PTX x" using pagingD(5) [OF p x a] by metis
    then have "load32 m' (table m d x + 4 * PTX x) = load32 m (table m d x + 4 * PTX x)"
      unfolding m'_def by (rule store_entry_other [OF table_aligned table_aligned index_less(2,2)])
    then show ?thesis unfolding table_entry_def f by (simp only: False if_False simp_thms)
  qed
qed

lemma zeroed_entry:
  assumes "i < 1024"
  shows "load32 (memset p 0 PGSIZE m) (p + 4 * i) = 0"
proof -
  have "memset p 0 PGSIZE m (p + 4 * i + of_nat n) = 0" if "n < 4" for n :: nat
  proof -
    have "in_range (p + 4 * i) 4 (p + 4 * i + of_nat n)" using that by (intro in_range_offset) simp_all
    then show ?thesis using entry_in_page [OF assms] by (simp add: memset_apply)
  qed
  from this [of 0] this [of 1] this [of 2] this [of 3] show ?thesis by (simp add: load32_def)
qed

lemma zeroed_other:
  assumes "p mod PGSIZE = 0" and "q mod PGSIZE = 0" and "p \<noteq> q" and "i < 1024"
  shows "load32 (memset p 0 PGSIZE m) (q + 4 * i) = load32 m (q + 4 * i)"
proof (rule load32_other)
  fix n :: nat assume "n < 4"
  then have "in_range (q + 4 * i) 4 (q + 4 * i + of_nat n)" by (intro in_range_offset) simp_all
  then have "in_range q 4096 (q + 4 * i + of_nat n)" by (rule entry_in_page [OF assms(4)])
  then have "\<not> in_range p 4096 (q + 4 * i + of_nat n)" using pages_disjoint [OF assms(2,1)] assms(3) by blast
  then show "memset p 0 PGSIZE m (q + 4 * i + of_nat n) = m (q + 4 * i + of_nat n)" by (simp add: memset_apply)
qed

lemma low_bit: "(w :: u32) AND PTE_P \<noteq> 0 \<longleftrightarrow> bit w 0"
  by (simp add: and_one_eq bit_0 mod_2_eq_odd)

lemma PTE_ADDR_V2P: "v mod PGSIZE = 0 \<Longrightarrow> PTE_ADDR (V2P v OR 7) = V2P v"
  by (rule PTE_ADDR_or) (simp_all add: P2V_aligned)

lemma PTE_FLAGS_or: "w mod PGSIZE = 0 \<Longrightarrow> f AND NOT 7 = 0 \<Longrightarrow> PTE_FLAGS (w OR f) = f"
proof (rule bit_eqI)
  fix i
  assume "w mod PGSIZE = 0" and f: "f AND NOT 7 = 0"
  then have w: "\<not> bit w i" if "i < 12" using that by (simp add: aligned_bits)
  have M: "(7 :: u32) = mask 3" by (simp add: mask_eq_exp_minus_1)
  have "bit (f AND NOT 7) i \<longleftrightarrow> bit f i \<and> 3 \<le> i" unfolding M by (auto simp: bit_simps dest: bit_imp_le_length)
  then have "i < 3" if "bit f i" using f that by auto
  then show "bit (PTE_FLAGS (w OR f)) i = bit f i"
    using w unfolding PTE_FLAGS_def low_mask by (auto simp: bit_simps dest: bit_imp_le_length)
qed

lemma add_table:
  fixes v d a :: u32
  assumes p: "paging m d (v # vs)" and a: "\<not> present m d a"
    and v: "v mod PGSIZE = 0" "v \<noteq> 0" "v \<notin> set vs"
  defines "m' \<equiv> store32 (memset v 0 PGSIZE m) (d + 4 * PDX a) (V2P v OR 7)"
  shows "dir_entry m' d x = (if PDX x = PDX a then V2P v OR 7 else dir_entry m d x)"
    and "paging m' d vs" and "present m' d a" and "table m' d a = v"
    and "present m' d x \<Longrightarrow> table_entry m' d x = (if PDX x = PDX a then 0 else table_entry m d x)"
proof -
  have dv: "v \<noteq> d" using pagingD(2) [OF p] by auto
  have e: "dir_entry m' d x = (if PDX x = PDX a then V2P v OR 7 else dir_entry m d x)" for x
  proof (cases "PDX x = PDX a")
    case True
    then show ?thesis unfolding dir_entry_def m'_def by (simp only: load32_store32 simp_thms if_True)
  next
    case False
    have "dir_entry m' d x = load32 (memset v 0 PGSIZE m) (d + 4 * PDX x)"
      unfolding dir_entry_def m'_def
      by (rule store_entry_other [OF pagingD(1) [OF p] pagingD(1) [OF p] index_less(1,1)]) (use False in auto)
    also have "\<dots> = dir_entry m d x"
      unfolding dir_entry_def by (rule zeroed_other [OF v(1) pagingD(1) [OF p] dv index_less(1)])
    finally show ?thesis using False by simp
  qed
  then show "dir_entry m' d x = (if PDX x = PDX a then V2P v OR 7 else dir_entry m d x)" .
  have pr: "present m' d x \<longleftrightarrow> PDX x = PDX a \<or> present m d x" for x
    unfolding present_def low_bit e by (simp add: bit_or_iff)
  have t: "table m' d x = (if PDX x = PDX a then v else table m d x)" for x
    unfolding table_def e by (simp add: PTE_ADDR_V2P v(1))
  show "present m' d a" "table m' d a = v" unfolding pr t by simp_all
  have old: "PDX x \<noteq> PDX a" if "present m d x" for x using that a by (auto simp: present_def dir_entry_def)
  have fl: "PTE_FLAGS (V2P v OR 7) = 7" by (rule PTE_FLAGS_or) (simp_all add: P2V_aligned v)
  show "paging m' d vs"
    unfolding paging_def
  proof (intro conjI allI impI)
    fix x y
    assume x: "present m' d x"
    show "PTE_FLAGS (dir_entry m' d x) = 7" unfolding e using fl pagingD(3) [OF p, of x] x pr by auto
    show "table m' d x \<notin> {0, d} \<union> set vs" unfolding t using pagingD(4) [OF p, of x] x pr v dv by auto
    assume y: "present m' d y \<and> table m' d y = table m' d x"
    show "PDX y = PDX x"
    proof (rule ccontr)
      assume n: "PDX y \<noteq> PDX x"
      have "PDX y \<noteq> PDX a" using y n x pagingD(4) [OF p, of x] by (auto simp: t pr split: if_splits)
      moreover have "PDX x \<noteq> PDX a" using y n pagingD(4) [OF p, of y] by (auto simp: t pr split: if_splits)
      ultimately show False using n x y pagingD(5) [OF p, of x y] by (auto simp: t pr)
    qed
  qed (use pagingD(1,2) [OF p] in auto)
  assume x: "present m' d x"
  show "table_entry m' d x = (if PDX x = PDX a then 0 else table_entry m d x)"
  proof (cases "PDX x = PDX a")
    case True
    have "table_entry m' d x = load32 (memset v 0 PGSIZE m) (v + 4 * PTX x)"
      unfolding table_entry_def t if_P [OF True] unfolding m'_def
      by (rule store_entry_other [OF pagingD(1) [OF p] v(1) index_less]) (use dv in auto)
    then show ?thesis using True by (simp only: zeroed_entry [OF index_less(2)] simp_thms if_True)
  next
    case False
    then have o: "present m d x" using x pr by blast
    note T = pagingD(4) [OF p o]
    have "table_entry m' d x = load32 (memset v 0 PGSIZE m) (table m d x + 4 * PTX x)"
      unfolding table_entry_def t if_not_P [OF False] unfolding m'_def
      by (rule store_entry_other [OF pagingD(1) [OF p] table_aligned index_less]) (use T in auto)
    also have "\<dots> = table_entry m d x"
      unfolding table_entry_def by (rule zeroed_other [OF v(1) table_aligned _ index_less(2)]) (use T in auto)
    finally show ?thesis using False by simp
  qed
qed

section \<open>One page\<close>

lemma kmem_rep_mem:
  assumes r: "kmem_rep s vs" and q: "q mod PGSIZE = 0" "q \<notin> set vs"
    and m: "\<And>a. \<not> in_range q 4096 a \<Longrightarrow> m a = mem s a"
  shows "kmem_rep (s\<lparr>mem := m\<rparr>) vs"
proof -
  have "load32 m u = load32 (mem s) u" if "u \<in> set vs" for u
  proof (rule load32_page_frame [OF q(1) _ _ m])
    show "u mod PGSIZE = 0" using r that unfolding kmem_rep_def page_ok_def by blast
    show "q \<noteq> u" using q(2) that by blast
  qed
  then have "flist m (freelist s) vs" using r unfolding kmem_rep_def by (blast intro: flist_frame)
  moreover have "page_ok (s\<lparr>mem := m\<rparr>) = page_ok s" by (rule page_ok_cong) simp
  ultimately show ?thesis using r by (simp add: kmem_rep_def)
qed

lemma store_in_page: "i < 1024 \<Longrightarrow> \<not> in_range q 4096 a \<Longrightarrow> store32 m (q + 4 * i) v a = m a"
  using entry_in_page [of i q a] by (auto simp: store32_apply)

lemma kalloc_page_mem:
  assumes "kmem_rep s (v # vs)"
  shows "\<exists>t. kalloc s = Inr (v, t) \<and> kmem_rep t vs \<and> mem t = mem s"
  using kalloc_rep [OF assms] assms by (auto simp: kmem_rep_def kalloc_ok)

lemma walkpgdir_present:
  "present (mem s) d a \<Longrightarrow> walkpgdir d a al s = Inr (table (mem s) d a + 4 * PTX a, s)"
  by (simp add: walkpgdir_def present_def table_def dir_entry_def Let_def)

lemma walkpgdir_table:
  assumes r: "kmem_rep s vs" and p: "paging (mem s) d vs" and n: "vs \<noteq> []"
  shows "\<exists>t vs'. walkpgdir d a True s = Inr (table (mem t) d a + 4 * PTX a, t) \<and> present (mem t) d a \<and>
     kmem_rep t vs' \<and> paging (mem t) d vs' \<and> length vs \<le> Suc (length vs') \<and>
     xlate (mem t) (V2P d) = xlate (mem s) (V2P d)"
proof (cases "present (mem s) d a")
  case True
  then show ?thesis using r p walkpgdir_present by fastforce
next
  case False
  obtain v ws where vs: "vs = v # ws" using n by (cases vs) auto
  obtain u where u: "kalloc s = Inr (v, u)" "kmem_rep u ws" "mem u = mem s"
    using kalloc_page_mem r vs by blast
  have v: "v mod PGSIZE = 0" "v \<noteq> 0" "v \<notin> set ws"
    using r vs kpool.rep_pages [OF r] by (auto simp: kmem_rep_def page_ok_def)
  define m where "m = store32 (memset v 0 PGSIZE (mem s)) (d + 4 * PDX a) (V2P v OR 7)"
  note A = add_table [OF p [unfolded vs] False v, folded m_def]
  have "kmem_rep (u\<lparr>mem := memset v 0 PGSIZE (mem s)\<rparr>) ws"
    by (rule kmem_rep_mem [OF u(2) v(1,3)]) (simp add: memset_apply u(3))
  then have "kmem_rep (u\<lparr>mem := memset v 0 PGSIZE (mem s), mem := m\<rparr>) ws"
    by (rule kmem_rep_mem [OF _ pagingD(1) [OF p]]) (use pagingD(2) [OF p] vs in \<open>auto simp: m_def store_in_page index_less\<close>)
  then have k: "kmem_rep (u\<lparr>mem := m\<rparr>) ws" by simp
  have w: "walkpgdir d a True s = Inr (v + 4 * PTX a, u\<lparr>mem := m\<rparr>)"
    using False u v by (simp add: walkpgdir_def present_def dir_entry_def Let_def m_def or.assoc)
  have "xlate m (V2P d) x = xlate (mem s) (V2P d) x" for x
  proof (cases "PDX x = PDX a")
    case True
    then have "\<not> present (mem s) d x" using False by (simp add: present_def dir_entry_def)
    then show ?thesis using True A(5) [of x] by (auto simp: xlate_entries)
  next
    case N: False
    then have "present m d x = present (mem s) d x" by (simp add: present_def A(1))
    then show ?thesis using N A(1,5) [of x] by (cases "present (mem s) d x") (simp_all add: xlate_entries)
  qed
  then show ?thesis using w k A(2,3,4) vs by (intro exI [of _ "u\<lparr>mem := m\<rparr>"] exI [of _ ws]) (auto simp: fun_eq_iff)
qed

definition map_range ::
    "u32 \<Rightarrow> nat \<Rightarrow> u32 \<Rightarrow> u32 \<Rightarrow> (u32 \<Rightarrow> (u32 \<times> u32) option) \<Rightarrow> u32 \<Rightarrow> (u32 \<times> u32) option" where
  "map_range va n pa perm f x =
     (if in_range va n x then Some (P2V (pa + (x - va)), perm OR PTE_P) else f x)"

lemma page_split: "x = PTE_ADDR x + (x AND 0xFFF)" "unat (x AND 0xFFF) < 4096"
proof -
  have "PTE_ADDR x + (x AND 0xFFF) = PTE_ADDR x OR (x AND 0xFFF)"
    unfolding PTE_ADDR_def by (rule disjunctive_add) (simp add: bit_simps)
  also have "\<dots> = x" unfolding PTE_ADDR_def by (rule bit_eqI) (auto simp: bit_simps)
  finally show "x = PTE_ADDR x + (x AND 0xFFF)" by simp
  show "unat (x AND 0xFFF) < 4096"
    using word_and_le1 [of x "0xFFF"] by (simp add: word_le_nat_alt)
qed

lemma in_own_page: "in_range (PTE_ADDR x) 4096 x"
proof -
  have "x - PTE_ADDR x = x AND 0xFFF" using page_split(1) [of x] by (simp add: diff_eq_eq add.commute)
  then show ?thesis using page_split(2) by (simp add: in_range_def)
qed

lemma page_of: "a mod PGSIZE = 0 \<Longrightarrow> PTE_ADDR x = a \<longleftrightarrow> in_range a 4096 x"
  using in_own_page [of x] pages_disjoint [OF PTE_ADDR_aligned, of a x x] by (cases "PTE_ADDR x = a") auto

lemma no_high_flags: "(f :: u32) AND NOT 7 = 0 \<Longrightarrow> f AND NOT 0xFFF = 0"
proof -
  assume "f AND NOT 7 = 0"
  then have "(f AND NOT 7) AND NOT 0xFFF = 0" by simp
  then show ?thesis by (simp add: and.assoc)
qed

lemma only_flags: "(f :: u32) AND NOT 7 = 0 \<Longrightarrow> 7 AND f = f"
proof -
  assume "f AND NOT 7 = 0"
  then have "f AND (7 OR NOT 7) = f AND 7" by (simp only: bit.conj_disj_distrib or.right_neutral)
  then show ?thesis by (simp add: and.commute)
qed

lemma map_page:
  assumes r: "kmem_rep s vs" and p: "paging (mem s) d vs" and n: "vs \<noteq> []"
    and a: "a mod PGSIZE = 0" "xlate (mem s) (V2P d) a = None"
    and pa: "pa mod PGSIZE = 0" "perm AND NOT 7 = 0"
  shows "\<exists>pte t vs'. walkpgdir d a True s = Inr (pte, t) \<and> pte \<noteq> 0 \<and> load32 (mem t) pte AND PTE_P = 0 \<and>
     kmem_rep (t\<lparr>mem := store32 (mem t) pte (pa OR perm OR PTE_P)\<rparr>) vs' \<and>
     paging (store32 (mem t) pte (pa OR perm OR PTE_P)) d vs' \<and> length vs \<le> Suc (length vs') \<and>
     xlate (store32 (mem t) pte (pa OR perm OR PTE_P)) (V2P d) = map_range a 4096 pa perm (xlate (mem s) (V2P d))"
proof -
  obtain t vs' where t: "walkpgdir d a True s = Inr (table (mem t) d a + 4 * PTX a, t)" "present (mem t) d a"
      "kmem_rep t vs'" "paging (mem t) d vs'" "length vs \<le> Suc (length vs')"
      "xlate (mem t) (V2P d) = xlate (mem s) (V2P d)"
    using walkpgdir_table [OF r p n] by blast
  define pte where "pte = table (mem t) d a + 4 * PTX a"
  define v where "v = pa OR perm OR PTE_P"
  define m where "m = store32 (mem t) pte v"
  note T = pagingD(4) [OF t(4,2)]
  note M = set_table_entry [OF t(4,2), where v = v, folded pte_def m_def]
  have "table_entry (mem t) d a AND PTE_P = 0" using a(2) t(2) by (simp add: xlate_entries t(6) [symmetric] split: if_splits)
  then have 1: "load32 (mem t) pte AND PTE_P = 0" by (simp add: table_entry_def pte_def)
  have "in_range (table (mem t) d a) 4096 pte" unfolding pte_def by (rule entry_in_page [OF index_less(2) [of a]]) (simp only: in_range_self zero_less_numeral)
  then have 2: "pte \<noteq> 0" using pages_disjoint [OF table_aligned, of 0 "mem t" d a pte] T by auto
  have 3: "kmem_rep (t\<lparr>mem := m\<rparr>) vs'"
    by (rule kmem_rep_mem [OF t(3) table_aligned [of "mem t" d a]]) (use T in \<open>auto simp: m_def pte_def store_in_page index_less\<close>)
  have q: "(perm OR PTE_P) AND NOT 7 = 0" using pa(2) by (simp add: bit.conj_disj_distrib2)
  have f: "PTE_FLAGS v = perm OR PTE_P" "PTE_ADDR v = pa" "v AND PTE_P \<noteq> 0"
    unfolding v_def by (rule PTE_FLAGS_or [OF pa(1) q], rule PTE_ADDR_or [OF pa(1) no_high_flags [OF q]])
      (simp only: low_bit bit_or_iff, simp)
  have self: "PTE_ADDR a = a" using page_of [OF a(1), of a] in_range_self [of a 4096] by simp
  have 4: "xlate m (V2P d) x = map_range a 4096 pa perm (xlate (mem s) (V2P d)) x" for x
  proof (cases "PTE_ADDR x = a")
    case True
    then have e: "PTE_ADDR x = PTE_ADDR a" using self by simp
    then have d: "dir_entry m d x = dir_entry (mem t) d a" using same_page [of x a] by (simp add: M(1)) (simp add: dir_entry_def)
    then have x: "present (mem t) d x" "present m d x" using t(2) M(1) by (simp_all add: present_def)
    have "x - a = x AND 0xFFF" using page_split(1) [of x] True by (simp add: diff_eq_eq add.commute)
    then show ?thesis
      using M(3) [OF x(1)] x(2) f e d pagingD(3) [OF t(4,2)] True page_of [OF a(1)] only_flags [OF q]
      by (simp add: xlate_entries map_range_def P2V_def algebra_simps)
  next
    case False
    then have e: "PTE_ADDR x \<noteq> PTE_ADDR a" using self by simp
    have "present m d x = present (mem t) d x" by (simp add: present_def M(1))
    then have "xlate m (V2P d) x = xlate (mem t) (V2P d) x"
      using M(1,3) [of x] e by (cases "present (mem t) d x") (simp_all add: xlate_entries)
    then show ?thesis using False page_of [OF a(1)] by (simp add: map_range_def t(6))
  qed
  show ?thesis using t(1,5) 1 2 3 M(2) 4 unfolding m_def v_def pte_def [symmetric]
    by (intro exI [of _ pte] exI [of _ t] exI [of _ vs']) (simp add: fun_eq_iff)
qed

section \<open>A range of pages\<close>

lemma range_step:
  assumes "4096 + n \<le> 4294967296"
  shows "map_range (a + PGSIZE) n (pa + PGSIZE) perm (map_range a 4096 pa perm f) = map_range a (4096 + n) pa perm f"
    and "in_range (a + PGSIZE) n x \<Longrightarrow> \<not> in_range a 4096 x"
    and "in_range (a + PGSIZE) n x \<Longrightarrow> in_range a (4096 + n) x"
proof -
  have r: "in_range a (4096 + n) x \<longleftrightarrow> in_range a 4096 x \<or> in_range (a + PGSIZE) n x" for x
    using in_range_add [OF assms, of a x] by simp
  then show "in_range (a + PGSIZE) n x \<Longrightarrow> in_range a (4096 + n) x" by blast
  show "map_range (a + PGSIZE) n (pa + PGSIZE) perm (map_range a 4096 pa perm f) = map_range a (4096 + n) pa perm f"
    by (rule ext) (simp add: map_range_def r)
  assume x: "in_range (a + PGSIZE) n x"
  show "\<not> in_range a 4096 x"
  proof
    assume "in_range a 4096 x"
    then have "unat (x - a) < 4096" by (simp add: in_range_def)
    then have "unat (x - a - PGSIZE) = unat (x - a) + 4294967296 - 4096" by (simp add: unat_sub_if')
    moreover have "x - a - PGSIZE = x - (a + PGSIZE)" by simp
    ultimately show False using x assms by (simp add: in_range_def)
  qed
qed

lemma aligned_add:
  assumes "a mod PGSIZE = 0" and "b mod PGSIZE = 0"
  shows "(a + b) mod PGSIZE = 0"
proof -
  have "unat (a + b) mod 4096 = (unat a + unat b) mod 4096" by (simp add: unat_word_ariths mod_mod_cancel)
  also have "\<dots> = 0" using page_aligned_unat [OF assms(1)] page_aligned_unat [OF assms(2)] by (simp add: mod_add_eq [symmetric])
  finally show ?thesis by (simp add: word_unat_eq_iff unat_mod)
qed

lemma aligned_next: "a mod PGSIZE = 0 \<Longrightarrow> (a + PGSIZE) mod PGSIZE = 0"
  by (rule aligned_add) simp_all

lemma unat_small: "n < 4294967296 \<Longrightarrow> unat (of_nat n :: u32) = n"
  by (simp add: unat_of_nat)

lemma mappages_loop_ok:
  assumes "kmem_rep s vs" and "paging (mem s) d vs" and "n < length vs" and "n < k"
    and "a mod PGSIZE = 0" and "pa mod PGSIZE = 0" and "perm AND NOT 7 = 0" and "4096 * Suc n \<le> 4294967296"
    and "\<And>x. in_range a (4096 * Suc n) x \<Longrightarrow> xlate (mem s) (V2P d) x = None"
  shows "\<exists>t vs'. mappages_loop k d a (a + of_nat (4096 * n)) pa perm s = Inr (0, t) \<and> kmem_rep t vs' \<and>
     paging (mem t) d vs' \<and> xlate (mem t) (V2P d) = map_range a (4096 * Suc n) pa perm (xlate (mem s) (V2P d))"
  using assms
proof (induction n arbitrary: s vs k a pa)
  case n: (0 s vs k a pa)
  obtain k' where k: "k = Suc k'" using n(4) by (cases k) auto
  have "xlate (mem s) (V2P d) a = None" using n(9) [of a] by simp
  then show ?case using map_page [OF n(1,2) _ n(5) _ n(6,7)] n(3) by (fastforce simp: k Let_def)
next
  case (Suc n s vs k a pa)
  note p = Suc.prems
  obtain k' where k: "k = Suc k'" using p(4) by (cases k) auto
  have "xlate (mem s) (V2P d) a = None" using p(9) [of a] by simp
  then obtain pte t vs' where w: "walkpgdir d a True s = Inr (pte, t)" "pte \<noteq> 0" "load32 (mem t) pte AND PTE_P = 0"
      "length vs \<le> Suc (length vs')" and
    t: "kmem_rep (t\<lparr>mem := store32 (mem t) pte (pa OR perm OR PTE_P)\<rparr>) vs'"
      "paging (store32 (mem t) pte (pa OR perm OR PTE_P)) d vs'"
      "xlate (store32 (mem t) pte (pa OR perm OR PTE_P)) (V2P d) = map_range a 4096 pa perm (xlate (mem s) (V2P d))"
    using map_page [OF p(1,2) _ p(5) _ p(6,7)] p(3) by force
  define u where "u = t\<lparr>mem := store32 (mem t) pte (pa OR perm OR PTE_P)\<rparr>"
  have u: "kmem_rep u vs'" "paging (mem u) d vs'" "xlate (mem u) (V2P d) = map_range a 4096 pa perm (xlate (mem s) (V2P d))"
    using t by (simp_all add: u_def)
  have b: "4096 + 4096 * Suc n \<le> 4294967296" using p(8) by simp
  have "unat (of_nat (4096 * Suc n) :: u32) = 4096 * Suc n" using p(8) unat_small [of "4096 * Suc n"] by simp
  then have "(of_nat (4096 * Suc n) :: u32) \<noteq> 0" by (metis Zero_not_Suc mult_is_0 unat_0 zero_neq_numeral)
  then have ne: "a \<noteq> a + of_nat (4096 * Suc n)" by simp
  have l: "a + of_nat (4096 * Suc n) = a + PGSIZE + of_nat (4096 * n)" by (simp add: algebra_simps)
  have "xlate (mem u) (V2P d) x = None" if "in_range (a + PGSIZE) (4096 * Suc n) x" for x
    using range_step(2,3) [OF b that] p(9) [of x] by (simp add: u(3) map_range_def)
  from Suc.IH [OF u(1,2) _ _ aligned_next [OF p(5)] aligned_next [OF p(6)] p(7) _ this, of k'] p(3,4,8) w(4) k
  obtain v vs'' where v: "mappages_loop k' d (a + PGSIZE) (a + PGSIZE + of_nat (4096 * n)) (pa + PGSIZE) perm u = Inr (0, v)"
      "kmem_rep v vs''" "paging (mem v) d vs''"
      "xlate (mem v) (V2P d) = map_range (a + PGSIZE) (4096 * Suc n) (pa + PGSIZE) perm (xlate (mem u) (V2P d))"
    by auto
  have "mappages_loop k d a (a + of_nat (4096 * Suc n)) pa perm s = Inr (0, v)"
    using w ne v(1) unfolding k l [symmetric] by (simp add: Let_def u_def [symmetric] del: of_nat_mult of_nat_Suc)
  then show ?case using v(2,3,4) unfolding u(3) range_step(1) [OF b] by auto
qed

lemma PGROUNDDOWN_PTE_ADDR: "PGROUNDDOWN = PTE_ADDR"
  by (simp add: fun_eq_iff PGROUNDDOWN_def PTE_ADDR_def)

lemma PTE_ADDR_self: "a mod PGSIZE = 0 \<Longrightarrow> PTE_ADDR a = a"
  by (simp add: page_of)

lemma mappages_pages:
  assumes "va mod PGSIZE = 0" and "n < 1048576"
  shows "mappages d va (of_nat (4096 * Suc n)) pa perm s =
     mappages_loop (Suc n) d va (va + of_nat (4096 * n)) pa perm s"
proof -
  let ?b = "of_nat (4096 * n) :: u32"
  have u: "unat ?b = 4096 * n" using assms(2) by (intro unat_small) simp
  have b: "?b mod PGSIZE = 0" unfolding word_unat_eq_iff unat_mod u by simp
  have l: "va + of_nat (4096 * Suc n) - 1 = va + ?b + 0xFFF" by (simp add: algebra_simps)
  have "in_range (va + ?b) 4096 (va + ?b + 0xFFF)" by (simp add: in_range_def)
  then have "PTE_ADDR (va + ?b + 0xFFF) = va + ?b" using page_of [OF aligned_add [OF assms(1) b]] by blast
  moreover have "unat (?b div PGSIZE) = n" unfolding unat_div u by simp
  ultimately show ?thesis
    unfolding mappages_def Let_def PGROUNDDOWN_PTE_ADDR l PTE_ADDR_self [OF assms(1)] by simp
qed

lemma mappages_remap:
  assumes "va mod PGSIZE = 0" and "n < 1048576" and p: "paging (mem s) d vs" and x: "xlate (mem s) (V2P d) va \<noteq> None"
  shows "mappages d va (of_nat (4096 * Suc n)) pa perm s = Inl (Panic ''remap'')"
proof -
  have e: "present (mem s) d va" "table_entry (mem s) d va AND PTE_P \<noteq> 0" using x by (auto simp: xlate_entries split: if_splits)
  let ?p = "table (mem s) d va + 4 * PTX va"
  have "in_range (table (mem s) d va) 4096 ?p" by (rule entry_in_page [OF index_less(2) [of va]]) (simp only: in_range_self zero_less_numeral)
  then have "?p \<noteq> 0" using pages_disjoint [OF table_aligned, of 0 "mem s" d va ?p] pagingD(4) [OF p e(1)] by auto
  then show ?thesis using e walkpgdir_present [OF e(1), of True] unfolding mappages_pages [OF assms(1,2)] by (simp add: table_entry_def)
qed

text \<open>
  C27: Mapping pages. On a well-formed page directory, with enough pages for new page tables
  in the pool, \<open>mappages\<close> succeeds on any range of unmapped pages: afterwards the hardware
  translates each address of the range to the physical range with the given permissions, and
  every other address as before; directory and pool stay well formed. Mapping the range a
  second time panics.
\<close>

theorem mappages_maps:
  assumes r: "kmem_rep s vs" and p: "paging (mem s) d vs" and n: "0 < n" "n \<le> length vs" "n \<le> 1048576"
    and a: "va mod PGSIZE = 0" "pa mod PGSIZE = 0" "perm AND NOT 7 = 0"
    and free: "\<And>x. in_range va (4096 * n) x \<Longrightarrow> xlate (mem s) (V2P d) x = None"
  shows "\<exists>t vs'. mappages d va (of_nat (4096 * n)) pa perm s = Inr (0, t) \<and> kmem_rep t vs' \<and> paging (mem t) d vs' \<and>
     (\<forall>x. xlate (mem t) (V2P d) x =
        (if in_range va (4096 * n) x then Some (P2V (pa + (x - va)), perm OR PTE_P) else xlate (mem s) (V2P d) x)) \<and>
     mappages d va (of_nat (4096 * n)) pa perm t = Inl (Panic ''remap'')"
proof -
  obtain k where k: "n = Suc k" using n(1) by (cases n) auto
  have b: "k < 1048576" "k < length vs" "4096 * Suc k \<le> 4294967296" using n k by simp_all
  obtain t vs' where t: "mappages_loop (Suc k) d va (va + of_nat (4096 * k)) pa perm s = Inr (0, t)" "kmem_rep t vs'"
      "paging (mem t) d vs'" "xlate (mem t) (V2P d) = map_range va (4096 * n) pa perm (xlate (mem s) (V2P d))"
    using mappages_loop_ok [OF r p b(2) lessI a b(3) free] unfolding k by blast
  have "xlate (mem t) (V2P d) va \<noteq> None" unfolding t(4) using n(1) by (simp add: map_range_def)
  then have "mappages d va (of_nat (4096 * n)) pa perm t = Inl (Panic ''remap'')"
    unfolding k by (rule mappages_remap [OF a(1) b(1) t(3)])
  moreover have "mappages d va (of_nat (4096 * n)) pa perm s = Inr (0, t)"
    unfolding k mappages_pages [OF a(1) b(1)] by (rule t(1))
  ultimately show ?thesis using t(2,3,4) by (auto simp: map_range_def)
qed

lemma sample_entries:
  assumes "i < 1024"
  shows "load32 sample_mem (0x80400000 + 4 * i) = (if i = 0 then 0x401007 else 0)"
    and "load32 sample_mem (0x80401000 + 4 * i) = (if i = 1 then 0x402007 else 0)"
proof -
  have z: "load32 (\<lambda>_. 0) a = 0" for a by (simp add: load32_def)
  note o = store_entry_other [OF _ _ _ assms]
  have far: "load32 (store32 m 0x80403000 w) (0x80400000 + 4 * i) = load32 m (0x80400000 + 4 * i)"
      "load32 (store32 m 0x80404000 w) (0x80400000 + 4 * i) = load32 m (0x80400000 + 4 * i)"
      "load32 (store32 m 0x80401004 w) (0x80400000 + 4 * i) = load32 m (0x80400000 + 4 * i)"
      "load32 (store32 m 0x80403000 w) (0x80401000 + 4 * i) = load32 m (0x80401000 + 4 * i)"
      "load32 (store32 m 0x80404000 w) (0x80401000 + 4 * i) = load32 m (0x80401000 + 4 * i)"
      "load32 (store32 m 0x80400000 w) (0x80401000 + 4 * i) = load32 m (0x80401000 + 4 * i)" for m w
    using o [where p = "0x80403000" and i = 0 and m = m and v = w] o [where p = "0x80404000" and i = 0 and m = m and v = w]
      o [where p = "0x80401000" and q = "0x80400000" and i = 1 and m = m and v = w]
      o [where p = "0x80400000" and q = "0x80401000" and i = 0 and m = m and v = w] by simp_all
  have near: "i \<noteq> 0 \<Longrightarrow> load32 (store32 m 0x80400000 w) (0x80400000 + 4 * i) = load32 m (0x80400000 + 4 * i)"
      "i \<noteq> 1 \<Longrightarrow> load32 (store32 m 0x80401004 w) (0x80401000 + 4 * i) = load32 m (0x80401000 + 4 * i)" for m w
    using o [where p = "0x80400000" and q = "0x80400000" and i = 0 and m = m and v = w]
      o [where p = "0x80401000" and q = "0x80401000" and i = 1 and m = m and v = w] by simp_all
  show "load32 sample_mem (0x80400000 + 4 * i) = (if i = 0 then 0x401007 else 0)"
    unfolding sample_mem_def far by (cases "i = 0") (simp_all add: near z)
  show "load32 sample_mem (0x80401000 + 4 * i) = (if i = 1 then 0x402007 else 0)"
    unfolding sample_mem_def far by (cases "i = 1") (simp_all add: near far z)
qed

lemma sample_dir_entry: "dir_entry sample_mem 0x80400000 a = (if PDX a = 0 then 0x401007 else 0)"
  by (simp add: dir_entry_def sample_entries(1) index_less)

lemma sample_paging: "paging sample_mem 0x80400000 [0x80403000, 0x80404000]"
  by (auto simp: paging_def present_def table_def sample_dir_entry PTE_FLAGS_def PTE_ADDR_def P2V_def split: if_splits)

lemma sample_unmapped:
  assumes "\<not> in_range 0x1000 4096 x"
  shows "xlate sample_mem (V2P 0x80400000) x = None"
proof (cases "PDX x = 0")
  case True
  then have t: "table_entry sample_mem 0x80400000 x = (if PTX x = 1 then 0x402007 else 0)"
    by (simp add: table_entry_def table_def sample_dir_entry PTE_ADDR_def P2V_def sample_entries(2) index_less)
  have "PTE_ADDR x \<noteq> PTE_ADDR 0x1000" using assms page_of [of "0x1000" x] by (simp add: PTE_ADDR_self)
  then have "PTX x \<noteq> 1" using True same_page [of x "0x1000"] by (auto simp: PDX_def PTX_def)
  then show ?thesis using t by (simp add: xlate_entries)
qed (simp add: xlate_entries present_def sample_dir_entry)

theorem mappages_maps_witness:
  "\<exists>t vs'. mappages 0x80400000 0x3FF000 0x2000 0x600000 6 sample = Inr (0, t) \<and> kmem_rep t vs' \<and>
     xlate (mem t) 0x400000 0x400123 = Some (0x80601123, 7) \<and>
     xlate (mem t) 0x400000 0x1FB4 = Some (0x80402FB4, 7)"
proof -
  have x: "xlate (mem sample) (V2P 0x80400000) x = None" if "in_range 0x3FF000 (4096 * 2) x" for x
  proof -
    have "\<not> in_range 0x1000 4096 x" using that by (simp add: in_range_def unat_sub_if' split: if_splits)
    then show ?thesis using sample_unmapped by simp
  qed
  obtain t vs' where t: "mappages 0x80400000 0x3FF000 0x2000 0x600000 6 sample = Inr (0, t)" "kmem_rep t vs'"
      "\<forall>x. xlate (mem t) 0x400000 x = (if in_range 0x3FF000 0x2000 x then Some (P2V (0x600000 + (x - 0x3FF000)), 7) else
         xlate sample_mem 0x400000 x)"
    using mappages_maps [where s = sample and d = "0x80400000" and n = 2 and va = "0x3FF000" and pa = "0x600000" and perm = 6,
        OF sample_pool _ _ _ _ _ _ _ x] sample_paging by (auto simp: V2P_def)
  have "xlate sample_mem 0x400000 0x1FB4 = Some (0x80402FB4, 7)" using sample_xlate(1) [of 0] by (simp add: sample_ka_def)
  then show ?thesis using t by (auto simp: in_range_def P2V_def)
qed

end
