(* ===== verification/Mkfs.thy ===== *)
theory Mkfs
  imports Balloc Dir "HOL-Library.Disjoint_Sets"
begin

text \<open>
  The program that builds the file system image, \<open>src/mkfs.c\<close>.

  The image file is the list of its sectors. The host's file operations are not part of the
  repository: writing the image succeeds, and an input file is given by its name and either
  the chunks that \<open>read\<close> returns or nothing when it cannot be opened. A call of \<open>exit(1)\<close>
  and a failed assertion are the end of the run, \<open>Inl (Panic m)\<close> with the argument of
  \<open>perror\<close> or the assertion; the messages that \<open>printf\<close> writes are left out.
\<close>

unbundle bit_operations_syntax

section \<open>The program\<close>

record mkfs_state =
  mk_img :: "u8 list list"
  mk_sb :: superblock
  mk_freeinode :: u32
  mk_freeblock :: u32

record dinode =
  d_type :: u16
  d_major :: u16
  d_minor :: u16
  d_nlink :: u16
  d_size :: u32
  d_addrs :: "u32 list"

abbreviation (input) FSSIZE :: nat where "FSSIZE \<equiv> 1000"
abbreviation (input) NINODES :: nat where "NINODES \<equiv> 200"
abbreviation (input) nbitmap :: nat where "nbitmap \<equiv> 1"
abbreviation (input) ninodeblocks :: nat where "ninodeblocks \<equiv> 26"
abbreviation (input) nlog :: nat where "nlog \<equiv> 30"

definition zeroes :: "u8 list" where "zeroes = replicate BSIZE 0"

definition xshort :: "u16 \<Rightarrow> u16" where "xshort x = get16 (bytes16 x) 0"
definition xint :: "u32 \<Rightarrow> u32" where "xint x = get32 (bytes32 x) 0"

text \<open>The sector at the offset \<open>sec * BSIZE\<close>, a product of 32 bits.\<close>

definition sector :: "u32 \<Rightarrow> nat" where
  "sector sec = unat (sec * 512) div BSIZE"

definition wsect :: "u32 \<Rightarrow> u8 list \<Rightarrow> mkfs_state \<Rightarrow> mkfs_state" where
  "wsect sec buf s =
     s\<lparr>mk_img := (mk_img s @ replicate (sector sec + 1 - length (mk_img s)) zeroes)[sector sec := buf]\<rparr>"

definition rsect :: "u32 \<Rightarrow> mkfs_state \<Rightarrow> (u8 list) outcome" where
  "rsect sec s =
     (if sector sec < length (mk_img s) then Inr (mk_img s ! sector sec) else Inl (Panic ''read''))"

definition dinode_bytes :: "dinode \<Rightarrow> u8 list" where
  "dinode_bytes d =
     bytes16 (d_type d) @ bytes16 (d_major d) @ bytes16 (d_minor d) @ bytes16 (d_nlink d) @
     bytes32 (d_size d) @ concat (map bytes32 (d_addrs d))"

definition dinode_of :: "u8 list \<Rightarrow> nat \<Rightarrow> dinode" where
  "dinode_of b k =
     \<lparr>d_type = get16 b k, d_major = get16 b (k + 2), d_minor = get16 b (k + 4), d_nlink = get16 b (k + 6),
      d_size = get32 b (k + 8), d_addrs = map (\<lambda>j. get32 b (k + 12 + 4 * j)) [0..<NDIRECT + 1]\<rparr>"

definition winode :: "u32 \<Rightarrow> dinode \<Rightarrow> mkfs_state \<Rightarrow> mkfs_state outcome" where
  "winode inum ip s =
     (let bn = IBLOCK inum (mk_sb s) in
      and_then (rsect bn s) (\<lambda>buf.
        Inr (wsect bn (overwrite buf (ioff inum) (dinode_bytes ip)) s)))"

definition rinode :: "u32 \<Rightarrow> mkfs_state \<Rightarrow> dinode outcome" where
  "rinode inum s =
     (let bn = IBLOCK inum (mk_sb s) in
      and_then (rsect bn s) (\<lambda>buf. Inr (dinode_of buf (ioff inum))))"

definition mkfs_ialloc :: "u16 \<Rightarrow> mkfs_state \<Rightarrow> (u32 \<times> mkfs_state) outcome" where
  "mkfs_ialloc type s =
     (let inum = mk_freeinode s;
          s = s\<lparr>mk_freeinode := mk_freeinode s + 1\<rparr>;
          din = \<lparr>d_type = xshort type, d_major = 0, d_minor = 0, d_nlink = xshort 1, d_size = xint 0,
                 d_addrs = replicate (NDIRECT + 1) 0\<rparr>
      in and_then (winode inum din s) (\<lambda>s. Inr (inum, s)))"

definition mkfs_balloc :: "int \<Rightarrow> mkfs_state \<Rightarrow> mkfs_state outcome" where
  "mkfs_balloc n s =
     (if \<not> n < 4096 then Inl (Panic ''used < BSIZE*8'')
      else
        let buf = fold (\<lambda>i b. b[i div 8 := b ! (i div 8) OR push_bit (i mod 8) 1]) [0..<nat n] zeroes
        in Inr (wsect (sb_bmapstart (mk_sb s)) buf s))"

text \<open>The block that holds block \<open>fbn\<close> of the file, allocated when there is none.\<close>

definition iappend_block :: "nat \<Rightarrow> dinode \<Rightarrow> mkfs_state \<Rightarrow> (u32 \<times> dinode \<times> mkfs_state) outcome" where
  "iappend_block fbn din s =
     (if fbn < NDIRECT then
        let (din, s) = (if xint (d_addrs din ! fbn) = 0
                        then (din\<lparr>d_addrs := (d_addrs din)[fbn := xint (mk_freeblock s)]\<rparr>,
                              s\<lparr>mk_freeblock := mk_freeblock s + 1\<rparr>)
                        else (din, s))
        in Inr (xint (d_addrs din ! fbn), din, s)
      else
        let (din, s) = (if xint (d_addrs din ! NDIRECT) = 0
                        then (din\<lparr>d_addrs := (d_addrs din)[NDIRECT := xint (mk_freeblock s)]\<rparr>,
                              s\<lparr>mk_freeblock := mk_freeblock s + 1\<rparr>)
                        else (din, s));
            k = 4 * (fbn - NDIRECT)
        in and_then (rsect (xint (d_addrs din ! NDIRECT)) s) (\<lambda>ind.
             let (ind, s) = (if get32 ind k = 0
                             then let ind = put32 ind k (xint (mk_freeblock s));
                                      s = s\<lparr>mk_freeblock := mk_freeblock s + 1\<rparr>
                                  in (ind, wsect (xint (d_addrs din ! NDIRECT)) ind s)
                             else (ind, s))
             in Inr (xint (get32 ind k), din, s)))"

function iappend_loop :: "u8 list \<Rightarrow> u32 \<Rightarrow> dinode \<Rightarrow> mkfs_state \<Rightarrow> (u32 \<times> dinode \<times> mkfs_state) outcome" where
  "iappend_loop p off din s =
     (if p = [] then Inr (off, din, s)
      else
        let fbn = unat off div BSIZE in
        if \<not> fbn < MAXFILE then Inl (Panic ''fbn < MAXFILE'')
        else and_then (iappend_block fbn din s) (\<lambda>(x, din, s).
          let n1 = min (length p) ((fbn + 1) * BSIZE - unat off) in
          and_then (rsect x s) (\<lambda>buf.
            let s = wsect x (overwrite buf (unat off - fbn * BSIZE) (take n1 p)) s
            in iappend_loop (drop n1 p) (off + of_nat n1) din s)))"
  by pat_completeness auto
termination
  by (relation "measure (\<lambda>(p, _). length p)") (auto simp: dividend_less_div_times)

definition iappend :: "u32 \<Rightarrow> u8 list \<Rightarrow> mkfs_state \<Rightarrow> mkfs_state outcome" where
  "iappend inum p s =
     and_then (rinode inum s) (\<lambda>din.
     and_then (iappend_loop p (xint (d_size din)) din s) (\<lambda>(off, din, s).
       winode inum (din\<lparr>d_size := xint off\<rparr>) s))"

definition dirent_bytes :: "u16 \<Rightarrow> u8 list \<Rightarrow> u8 list" where
  "dirent_bytes inum name = bytes16 inum @ name"

text \<open>\<open>strncpy\<close> into the zeroed name of a directory entry.\<close>

definition entry_name :: "u8 list \<Rightarrow> u8 list" where
  "entry_name name = take DIRSIZ name @ replicate (DIRSIZ - length name) 0"

definition mkfs_file ::
    "u32 \<Rightarrow> u8 list \<times> u8 list list option \<Rightarrow> mkfs_state \<Rightarrow> mkfs_state outcome" where
  "mkfs_file rootino f s =
     (case f of (arg, data) \<Rightarrow>
       if 47 \<in> set arg then Inl (Panic ''index(argv[i], / ) == 0'')
       else case data of None \<Rightarrow> Inl (Panic ''open'')
       | Some chunks \<Rightarrow>
           let arg = (if arg \<noteq> [] \<and> hd arg = 95 then tl arg else arg) in
           and_then (mkfs_ialloc T_FILE s) (\<lambda>(inum, s).
           and_then (iappend rootino (dirent_bytes (xshort (ucast inum)) (entry_name arg)) s) (\<lambda>s.
             for_each (iappend inum) chunks s)))"

definition mkfs_start :: mkfs_state where
  "mkfs_start =
     (let nmeta = 2 + nlog + ninodeblocks + nbitmap;
          b = \<lparr>sb_size = xint (of_nat FSSIZE), sb_nblocks = xint (of_nat (FSSIZE - nmeta)),
               sb_ninodes = xint (of_nat NINODES), sb_nlog = xint (of_nat nlog), sb_logstart = xint 2,
               sb_inodestart = xint (of_nat (2 + nlog)), sb_bmapstart = xint (of_nat (2 + nlog + ninodeblocks))\<rparr>;
          s = \<lparr>mk_img = [], mk_sb = b, mk_freeinode = 1, mk_freeblock = of_nat nmeta\<rparr>;
          s = fold (\<lambda>i. wsect (of_nat i) zeroes) [0..<FSSIZE] s;
          buf = overwrite zeroes 0 (concat (map bytes32 [sb_size b, sb_nblocks b, sb_ninodes b, sb_nlog b,
                  sb_logstart b, sb_inodestart b, sb_bmapstart b]))
      in wsect 1 buf s)"

definition mkfs_main ::
    "bool option \<Rightarrow> (u8 list \<times> u8 list list option) list \<Rightarrow> mkfs_state outcome" where
  "mkfs_main img args =
     (if img = None then Inl (Panic ''Usage: mkfs fs.img files...'')
      else if img = Some False then Inl (Panic ''open'')
      else
        and_then (mkfs_ialloc T_DIR mkfs_start) (\<lambda>(rootino, s).
        if rootino \<noteq> 1 then Inl (Panic ''rootino == ROOTINO'')
        else
        and_then (iappend rootino (dirent_bytes (xshort (ucast rootino)) (overwrite (replicate DIRSIZ 0) 0 [46, 0])) s) (\<lambda>s.
        and_then (iappend rootino (dirent_bytes (xshort (ucast rootino)) (overwrite (replicate DIRSIZ 0) 0 [46, 46, 0])) s) (\<lambda>s.
        and_then (for_each (mkfs_file rootino) args s) (\<lambda>s.
        and_then (rinode rootino s) (\<lambda>din.
          let off = xint (d_size din);
              off = (off div 512 + 1) * 512
          in and_then (winode rootino (din\<lparr>d_size := xint off\<rparr>) s) (\<lambda>s.
               mkfs_balloc (sint (mk_freeblock s)) s)))))))"

section \<open>Sectors\<close>

declare iappend_loop.simps [simp del]

lemma xint [simp]: "xint x = x"
proof -
  have "bytes32 x = put32 (replicate 4 0) 0 x" by (simp add: put32_def overwrite_def)
  then show ?thesis by (simp add: xint_def)
qed

lemma xshort [simp]: "xshort x = x"
proof -
  have "bytes16 x = put16 (replicate 2 0) 0 x" by (simp add: put16_def overwrite_def)
  then show ?thesis by (simp add: xshort_def)
qed

definition sec :: "mkfs_state \<Rightarrow> u32 \<Rightarrow> u8 list" where
  "sec s b = mk_img s ! unat b"

definition whole :: "mkfs_state \<Rightarrow> bool" where
  "whole s \<longleftrightarrow> length (mk_img s) = FSSIZE \<and> (\<forall>d \<in> set (mk_img s). length d = BSIZE)"

lemma length_zeroes [simp]: "length zeroes = BSIZE"
  by (simp add: zeroes_def)

lemma sector_small: "unat b < FSSIZE \<Longrightarrow> sector b = unat b"
  by (simp add: sector_def unat_word_ariths)

lemma rsect_ok: "whole s \<Longrightarrow> unat b < FSSIZE \<Longrightarrow> rsect b s = Inr (sec s b)"
  by (simp add: rsect_def sector_small whole_def sec_def)

lemma length_sec: "whole s \<Longrightarrow> unat b < FSSIZE \<Longrightarrow> length (sec s b) = BSIZE"
  by (simp add: whole_def sec_def)

lemma wsect_ok:
  assumes "whole s" and "unat b < FSSIZE" and "length d = BSIZE"
  shows "whole (wsect b d s)" "sec (wsect b d s) = (sec s)(b := d)"
  using assms by (auto simp: whole_def wsect_def sector_small sec_def fun_eq_iff word_unat_eq_iff
      dest!: set_update_subset_insert [THEN subsetD])

lemma wsect_fields [simp]:
  "mk_sb (wsect b d s) = mk_sb s" "mk_freeinode (wsect b d s) = mk_freeinode s"
  "mk_freeblock (wsect b d s) = mk_freeblock s"
  by (simp_all add: wsect_def)

lemma sec_updates [simp]:
  "sec (s\<lparr>mk_freeblock := v\<rparr>) = sec s" "sec (s\<lparr>mk_freeinode := v\<rparr>) = sec s"
  "whole (s\<lparr>mk_freeblock := v\<rparr>) = whole s" "whole (s\<lparr>mk_freeinode := v\<rparr>) = whole s"
  by (simp_all add: sec_def whole_def fun_eq_iff)

section \<open>Blocks of a file\<close>

text \<open>
  \<open>slot\<close> is the address of a block of the file, 0 when there is none. \<open>blocks_ok\<close> says that the
  blocks of the file are those of a list, that they are different, in use and none of them the
  indirect block.
\<close>

definition slot :: "(u32 \<Rightarrow> u8 list) \<Rightarrow> u32 list \<Rightarrow> nat \<Rightarrow> u32" where
  "slot c A j = (if j < NDIRECT then A ! j else if A ! NDIRECT = 0 then 0 else get32 (c (A ! NDIRECT)) (4 * (j - NDIRECT)))"

definition owned :: "u32 list \<Rightarrow> u32 list \<Rightarrow> u32 list" where
  "owned A bs = bs @ (if A ! NDIRECT = 0 then [] else [A ! NDIRECT])"

definition blocks_ok :: "(u32 \<Rightarrow> u8 list) \<Rightarrow> u32 list \<Rightarrow> u32 \<Rightarrow> u32 list \<Rightarrow> bool" where
  "blocks_ok c A fb bs \<longleftrightarrow> length A = NDIRECT + 1 \<and> length bs \<le> MAXFILE \<and>
     (\<forall>j < MAXFILE. slot c A j = (if j < length bs then bs ! j else 0)) \<and>
     (A ! NDIRECT \<noteq> 0 \<longleftrightarrow> NDIRECT < length bs) \<and> distinct (owned A bs) \<and> (\<forall>b \<in> set (owned A bs). 59 \<le> b \<and> b < fb)"

lemma blocks_okD:
  assumes "blocks_ok c A fb bs"
  shows "length A = NDIRECT + 1" "length bs \<le> MAXFILE" "j < MAXFILE \<Longrightarrow> slot c A j = (if j < length bs then bs ! j else 0)"
    "A ! NDIRECT \<noteq> 0 \<longleftrightarrow> NDIRECT < length bs" "distinct bs" "j < length bs \<Longrightarrow> 59 \<le> bs ! j \<and> bs ! j < fb"
    "NDIRECT < length bs \<Longrightarrow> A ! NDIRECT \<notin> set bs \<and> 59 \<le> A ! NDIRECT \<and> A ! NDIRECT < fb"
  using assms by (auto simp: blocks_ok_def owned_def split: if_splits)

lemma blocks_ok_frame:
  assumes "blocks_ok c A fb bs" and "fb \<le> fb'" and "NDIRECT < length bs \<Longrightarrow> c' (A ! NDIRECT) = c (A ! NDIRECT)"
  shows "blocks_ok c' A fb' bs"
proof -
  have "slot c' A j = slot c A j" for j using assms blocks_okD(4) [OF assms(1)] by (auto simp: slot_def)
  then show ?thesis using assms(1,2) by (auto simp: blocks_ok_def)
qed

lemma old_block:
  assumes w: "whole s" and b: "blocks_ok (sec s) (d_addrs din) (mk_freeblock s) bs" and j: "j < length bs"
    and f: "unat (mk_freeblock s) \<le> FSSIZE"
  shows "iappend_block j din s = Inr (bs ! j, din, s)"
proof -
  let ?A = "d_addrs din"
  have s: "slot (sec s) ?A j = bs ! j" "bs ! j \<noteq> 0" using blocks_okD(2) [OF b] blocks_okD(3,6) [OF b, of j] j by auto
  show ?thesis
  proof (cases "j < NDIRECT")
    case True
    then show ?thesis using s by (simp add: iappend_block_def slot_def)
  next
    case False
    then have i: "?A ! NDIRECT \<noteq> 0" "?A ! NDIRECT < mk_freeblock s" using j blocks_okD(4,7) [OF b] by auto
    then have "rsect (?A ! NDIRECT) s = Inr (sec s (?A ! NDIRECT))"
      using f by (intro rsect_ok w) (simp add: word_less_nat_alt)
    then show ?thesis using s False i by (simp add: iappend_block_def slot_def)
  qed
qed

definition fresh :: "mkfs_state \<Rightarrow> bool" where
  "fresh s \<longleftrightarrow> unat (mk_freeblock s) \<le> FSSIZE \<and> 59 \<le> mk_freeblock s \<and>
     (\<forall>b. mk_freeblock s \<le> b \<and> unat b < FSSIZE \<longrightarrow> sec s b = zeroes)"

text \<open>The number of new blocks the file needs for one more block of data.\<close>

definition need :: "nat \<Rightarrow> nat" where
  "need j = (if j = NDIRECT then 2 else 1)"

definition grown :: "dinode \<Rightarrow> mkfs_state \<Rightarrow> u32 list \<Rightarrow> dinode \<Rightarrow> mkfs_state \<Rightarrow> u32 list \<Rightarrow> bool" where
  "grown din s bs din' s' bs' \<longleftrightarrow> whole s' \<and> mk_sb s' = mk_sb s \<and> mk_freeinode s' = mk_freeinode s \<and>
     din'\<lparr>d_addrs := d_addrs din\<rparr> = din \<and> mk_freeblock s \<le> mk_freeblock s' \<and> fresh s' \<and>
     blocks_ok (sec s') (d_addrs din') (mk_freeblock s') bs' \<and>
     set (owned (d_addrs din') bs') = set (owned (d_addrs din) bs) \<union> {mk_freeblock s..<mk_freeblock s'} \<and>
     (\<forall>b. b \<notin> set (owned (d_addrs din') bs') \<longrightarrow> sec s' b = sec s b)"

lemma get32_zeroes: "k + 4 \<le> BSIZE \<Longrightarrow> get32 zeroes k = 0"
  by (simp add: get32_def zeroes_def)

lemma next_block:
  assumes "unat (fb :: u32) + n \<le> FSSIZE"
  shows "unat (fb + of_nat n) = unat fb + n" "fb \<le> fb + of_nat n"
  using assms by (simp_all add: unat_word_ariths word_le_nat_alt)

lemma block_range:
  assumes "unat (fb :: u32) + n \<le> FSSIZE" and "0 < n" and "n \<le> 2"
  shows "{fb..<fb + of_nat n} = (if n = 1 then {fb} else {fb, fb + 1})"
proof (rule set_eqI)
  fix b
  have "b \<in> {fb..<fb + of_nat n} \<longleftrightarrow> unat fb \<le> unat b \<and> unat b < unat fb + n"
    using next_block(1) [OF assms(1)] by (simp add: word_le_nat_alt word_less_nat_alt)
  also have "\<dots> \<longleftrightarrow> unat b = unat fb \<or> n = 2 \<and> unat b = unat fb + 1" using assms by auto
  also have "\<dots> \<longleftrightarrow> b \<in> (if n = 1 then {fb} else {fb, fb + 1})"
    using next_block(1) [of fb 1] assms by (auto simp: word_unat_eq_iff)
  finally show "b \<in> {fb..<fb + of_nat n} \<longleftrightarrow> b \<in> (if n = 1 then {fb} else {fb, fb + 1})" .
qed

lemma blocks_ok_snoc:
  assumes b: "blocks_ok c A fb bs" and fb: "59 \<le> fb" "fb < fb'" and j: "length bs < MAXFILE" and A: "length A' = NDIRECT + 1"
    and s: "\<And>i. i < MAXFILE \<Longrightarrow> slot c' A' i = (if i = length bs then x else slot c A i)"
    and I: "A' ! NDIRECT \<noteq> 0 \<longleftrightarrow> NDIRECT < Suc (length bs)" "A' ! NDIRECT = A ! NDIRECT \<or> fb \<le> A' ! NDIRECT \<and> A' ! NDIRECT < fb'"
    and x: "fb \<le> x" "x < fb'" "A' ! NDIRECT \<noteq> x"
  shows "blocks_ok c' A' fb' (bs @ [x])"
proof -
  have old: "b \<noteq> x \<and> 59 \<le> b \<and> b < fb'" if "b \<in> set (owned A bs)" for b
    using that b fb x(1) by (auto simp: blocks_ok_def)
  have o: "set bs \<subseteq> set (owned A bs)" by (simp add: owned_def)
  have i: "A' ! NDIRECT \<notin> set bs \<and> 59 \<le> A' ! NDIRECT \<and> A' ! NDIRECT < fb'" if "A' ! NDIRECT \<noteq> 0"
    using I(2)
  proof
    assume e: "A' ! NDIRECT = A ! NDIRECT"
    then have "NDIRECT < length bs" using that blocks_okD(4) [OF b] by simp
    then show ?thesis using blocks_okD(7) [OF b] e fb by auto
  next
    assume e: "fb \<le> A' ! NDIRECT \<and> A' ! NDIRECT < fb'"
    then have "A' ! NDIRECT \<notin> set bs" using blocks_okD(6) [OF b] by (metis in_set_conv_nth leD)
    then show ?thesis using e fb by auto
  qed
  have "slot c' A' i = (if i < length (bs @ [x]) then (bs @ [x]) ! i else 0)" if "i < MAXFILE" for i
    using s [OF that] blocks_okD(3) [OF b that] by (auto simp: nth_append)
  moreover have "distinct (owned A' (bs @ [x]))" using blocks_okD(5) [OF b] i x(3) old o by (auto simp: owned_def)
  moreover have "59 \<le> x" using x(1) fb(1) by simp
  ultimately show ?thesis using A j I(1) i x old o by (auto simp: blocks_ok_def owned_def)
qed

lemma new_direct:
  assumes w: "whole s" and b: "blocks_ok (sec s) (d_addrs din) (mk_freeblock s) bs" and f: "fresh s"
    and j: "length bs < NDIRECT" and r: "unat (mk_freeblock s) + 1 \<le> FSSIZE"
  shows "\<exists>x din' s'. iappend_block (length bs) din s = Inr (x, din', s') \<and> grown din s bs din' s' (bs @ [x]) \<and>
     mk_freeblock s' = mk_freeblock s + 1 \<and> (\<forall>b \<in> set bs. sec s' b = sec s b)"
proof -
  let ?A = "d_addrs din" and ?fb = "mk_freeblock s" and ?j = "length bs"
  let ?d = "din\<lparr>d_addrs := ?A[?j := ?fb]\<rparr>" and ?s = "s\<lparr>mk_freeblock := ?fb + 1\<rparr>"
  have A: "length ?A = NDIRECT + 1" "?A ! ?j = 0" "?A ! NDIRECT = 0"
    using blocks_okD(1) [OF b] blocks_okD(3) [OF b, of ?j] blocks_okD(4) [OF b] j by (simp_all add: slot_def)
  have n: "unat (?fb + 1) = unat ?fb + 1" "?fb \<le> ?fb + 1" "?fb < ?fb + 1" "{?fb..<?fb + 1} = {?fb}"
    using next_block [of ?fb 1] block_range [of ?fb 1] r by (simp_all add: word_less_nat_alt)
  have F: "59 \<le> ?fb" using f by (simp add: fresh_def)
  then have "?fb \<noteq> 0" by auto
  have bl: "blocks_ok (sec s) (?A[?j := ?fb]) (?fb + 1) (bs @ [?fb])"
    by (rule blocks_ok_snoc [OF b F n(3)]) (use A j n(3) \<open>?fb \<noteq> 0\<close> in \<open>auto simp: slot_def nth_list_update\<close>)
  have "fresh ?s" using f n r by (auto simp: fresh_def)
  moreover have "set (owned (?A[?j := ?fb]) (bs @ [?fb])) = set (owned ?A bs) \<union> {?fb..<?fb + 1}"
    using A j n(4) by (auto simp: owned_def)
  ultimately have "grown din s bs ?d ?s (bs @ [?fb])" using w bl n(2) by (simp add: grown_def)
  moreover have "iappend_block ?j din s = Inr (?fb, ?d, ?s)" using A j by (simp add: iappend_block_def)
  ultimately show ?thesis by auto
qed

lemma put_entry:
  assumes "length d = BSIZE" and "i < NINDIRECT" and "j < NINDIRECT"
  shows "get32 (put32 d (4 * i) v) (4 * j) = (if i = j then v else get32 d (4 * j))"
proof (cases "i = j")
  case False
  have "get32 (overwrite d (4 * i) (bytes32 v)) (4 * j) = get32 d (4 * j)"
    by (rule get32_overwrite) (use assms False in auto)
  then show ?thesis using False by (simp add: put32_def)
qed (use assms in simp)

lemma new_indirect:
  assumes w: "whole s" and b: "blocks_ok (sec s) (d_addrs din) (mk_freeblock s) bs" and f: "fresh s"
    and j: "NDIRECT < length bs" "length bs < MAXFILE" and r: "unat (mk_freeblock s) + 1 \<le> FSSIZE"
  shows "\<exists>x din' s'. iappend_block (length bs) din s = Inr (x, din', s') \<and> grown din s bs din' s' (bs @ [x]) \<and>
     mk_freeblock s' = mk_freeblock s + 1 \<and> (\<forall>b \<in> set bs. sec s' b = sec s b)"
proof -
  let ?A = "d_addrs din" and ?fb = "mk_freeblock s" and ?j = "length bs"
  let ?I = "?A ! NDIRECT" and ?k = "?j - NDIRECT"
  let ?ind = "put32 (sec s ?I) (4 * ?k) ?fb"
  let ?s = "wsect ?I ?ind (s\<lparr>mk_freeblock := ?fb + 1\<rparr>)"
  have I: "?I \<noteq> 0" "?I \<notin> set bs" "59 \<le> ?I" "?I < ?fb" using blocks_okD(4,7) [OF b] j(1) by auto
  have u: "unat ?I < FSSIZE" using I(4) r by (simp add: word_less_nat_alt)
  have L: "length (sec s ?I) = BSIZE" "length ?ind = BSIZE" using length_sec [OF w u] j by simp_all
  have W: "whole ?s" "sec ?s = (sec s)(?I := ?ind)" using wsect_ok [OF _ u L(2)] w by simp_all
  have z: "get32 (sec s ?I) (4 * ?k) = 0" using blocks_okD(3) [OF b, of ?j] I(1) j by (simp add: slot_def)
  have n: "unat (?fb + 1) = unat ?fb + 1" "?fb \<le> ?fb + 1" "?fb < ?fb + 1" "{?fb..<?fb + 1} = {?fb}"
    using next_block [of ?fb 1] block_range [of ?fb 1] r by (simp_all add: word_less_nat_alt)
  have F: "59 \<le> ?fb" using f by (simp add: fresh_def)
  have bl: "blocks_ok (sec ?s) ?A (?fb + 1) (bs @ [?fb])"
  proof (rule blocks_ok_snoc [OF b F n(3) j(2) blocks_okD(1) [OF b]])
    fix i :: nat assume i: "i < MAXFILE"
    then show "slot (sec ?s) ?A i = (if i = ?j then ?fb else slot (sec s) ?A i)"
      using put_entry [OF L(1), of ?k "i - NDIRECT" ?fb] I(1) j unfolding slot_def W(2) by (cases "i < NDIRECT") auto
  next
    show "?I \<noteq> ?fb" using I(4) by auto
  qed (use I j n(3) in simp_all)
  have "((sec s)(?I := ?ind)) b = zeroes" if "?fb + 1 \<le> b" "unat b < FSSIZE" for b
  proof -
    have "?fb \<le> b" "b \<noteq> ?I" using that(1) n(2) I(4) by auto
    then show ?thesis using f that(2) by (simp add: fresh_def)
  qed
  then have "fresh ?s" using F n r unfolding fresh_def W(2) by simp
  moreover have "set (owned ?A (bs @ [?fb])) = set (owned ?A bs) \<union> {?fb..<?fb + 1}"
    using n(4) by (auto simp: owned_def)
  moreover have "sec ?s b = sec s b" if "b \<notin> set (owned ?A (bs @ [?fb]))" for b
    unfolding W(2) using that I(1) by (auto simp: owned_def)
  ultimately have "grown din s bs din ?s (bs @ [?fb])" using W(1) bl n(2) by (simp add: grown_def)
  moreover have "iappend_block ?j din s = Inr (?fb, din, ?s)"
    using I(1) j rsect_ok [OF w u] z L by (simp add: iappend_block_def Let_def)
  moreover have "\<forall>b \<in> set bs. sec ?s b = sec s b" unfolding W(2) using I(2) by auto
  ultimately show ?thesis by auto
qed

lemma first_indirect:
  assumes w: "whole s" and b: "blocks_ok (sec s) (d_addrs din) (mk_freeblock s) bs" and f: "fresh s"
    and j: "length bs = NDIRECT" and r: "unat (mk_freeblock s) + 2 \<le> FSSIZE"
  shows "\<exists>x din' s'. iappend_block (length bs) din s = Inr (x, din', s') \<and> grown din s bs din' s' (bs @ [x]) \<and>
     mk_freeblock s' = mk_freeblock s + 2 \<and> (\<forall>b \<in> set bs. sec s' b = sec s b)"
proof -
  let ?A = "d_addrs din" and ?fb = "mk_freeblock s"
  let ?d = "din\<lparr>d_addrs := ?A[NDIRECT := ?fb]\<rparr>" and ?ind = "put32 zeroes 0 (?fb + 1)"
  let ?s = "wsect ?fb ?ind (s\<lparr>mk_freeblock := ?fb + 2\<rparr>)"
  have A: "length ?A = NDIRECT + 1" "?A ! NDIRECT = 0" using blocks_okD(1,4) [OF b] j by simp_all
  have u: "unat ?fb < FSSIZE" using r by simp
  have L: "length ?ind = BSIZE" by simp
  have W: "whole ?s" "sec ?s = (sec s)(?fb := ?ind)" using wsect_ok [OF _ u L] w by simp_all
  have n: "unat (?fb + 1) = unat ?fb + 1" "unat (?fb + 2) = unat ?fb + 2" "{?fb..<?fb + 2} = {?fb, ?fb + 1}"
    using next_block [of ?fb 1] next_block [of ?fb 2] block_range [of ?fb 2] r by simp_all
  then have m: "?fb \<le> ?fb + 2" "?fb < ?fb + 2" "?fb \<le> ?fb + 1" "?fb + 1 < ?fb + 2" "?fb \<noteq> ?fb + 1"
    by (simp_all add: word_less_nat_alt word_le_nat_alt)
  have F: "59 \<le> ?fb" "sec s ?fb = zeroes" using f u by (simp_all add: fresh_def)
  then have "?fb \<noteq> 0" by auto
  have new: "?fb \<notin> set bs" using blocks_okD(6) [OF b] by (metis in_set_conv_nth less_irrefl)
  have bl: "blocks_ok (sec ?s) (?A[NDIRECT := ?fb]) (?fb + 2) (bs @ [?fb + 1])"
  proof (rule blocks_ok_snoc [OF b F(1) m(2)])
    fix i :: nat assume i: "i < MAXFILE"
    then show "slot (sec ?s) (?A[NDIRECT := ?fb]) i = (if i = length bs then ?fb + 1 else slot (sec s) ?A i)"
      using put_entry [of zeroes 0 "i - NDIRECT" "?fb + 1"] A j \<open>?fb \<noteq> 0\<close> get32_zeroes unfolding slot_def W(2) by (cases "i < NDIRECT") auto
  qed (use A j m \<open>?fb \<noteq> 0\<close> in simp_all)
  have "((sec s)(?fb := ?ind)) b = zeroes" if "?fb + 2 \<le> b" "unat b < FSSIZE" for b
  proof -
    have "?fb \<le> b" "b \<noteq> ?fb" using that(1) m by auto
    then show ?thesis using f that(2) by (simp add: fresh_def)
  qed
  then have "fresh ?s" using F m n r order_trans [OF F(1) m(1)] unfolding fresh_def W(2) by simp
  moreover have "set (owned (?A[NDIRECT := ?fb]) (bs @ [?fb + 1])) = set (owned ?A bs) \<union> {?fb..<?fb + 2}"
    using n(3) A \<open>?fb \<noteq> 0\<close> by (auto simp: owned_def)
  moreover have "sec ?s b = sec s b" if "b \<notin> set (owned (?A[NDIRECT := ?fb]) (bs @ [?fb + 1]))" for b
    unfolding W(2) using that A \<open>?fb \<noteq> 0\<close> by (auto simp: owned_def)
  ultimately have "grown din s bs ?d ?s (bs @ [?fb + 1])" using W(1) bl m by (simp add: grown_def)
  moreover have "iappend_block (length bs) din s = Inr (?fb + 1, ?d, ?s)"
    using A j rsect_ok [of "s\<lparr>mk_freeblock := ?fb + 1\<rparr>" ?fb] w u F(2) get32_zeroes [of 0] by (simp add: iappend_block_def Let_def add.commute)
  moreover have "\<forall>b \<in> set bs. sec ?s b = sec s b" unfolding W(2) using new by auto
  ultimately show ?thesis by auto
qed

section \<open>Appending to a file\<close>

definition data_ok :: "(u32 \<Rightarrow> u8 list) \<Rightarrow> u32 list \<Rightarrow> u8 list \<Rightarrow> bool" where
  "data_ok c bs xs \<longleftrightarrow> length bs = (length xs + 511) div 512 \<and>
     (\<forall>q < length xs. c (bs ! (q div 512)) ! (q mod 512) = xs ! q)"

text \<open>The number of blocks a file of this length takes.\<close>

definition cost :: "nat \<Rightarrow> nat" where
  "cost n = (n + 511) div 512 + (if NDIRECT < (n + 511) div 512 then 1 else 0)"

lemma grown_trans:
  assumes "grown din s bs din1 s1 bs1" and "grown din1 s1 bs1 din2 s2 bs2"
  shows "grown din s bs din2 s2 bs2"
proof -
  have "{mk_freeblock s..<mk_freeblock s1} \<union> {mk_freeblock s1..<mk_freeblock s2} = {mk_freeblock s..<mk_freeblock s2}"
    using assms by (intro ivl_disj_un_two(3)) (simp_all add: grown_def)
  moreover have "din2\<lparr>d_addrs := d_addrs din\<rparr> = (din2\<lparr>d_addrs := d_addrs din1\<rparr>)\<lparr>d_addrs := d_addrs din\<rparr>" by simp
  ultimately show ?thesis using assms unfolding grown_def by (auto simp del: dinode.update_convs)
qed

lemma grown_refl:
  "whole s \<Longrightarrow> fresh s \<Longrightarrow> blocks_ok (sec s) (d_addrs din) (mk_freeblock s) bs \<Longrightarrow> grown din s bs din s bs"
  by (simp add: grown_def)

lemma write_block:
  assumes g: "grown din s bs din' s' bs'" and j: "j < length bs'" and d: "length d = BSIZE"
  shows "grown din s bs din' (wsect (bs' ! j) d s') bs'" "sec (wsect (bs' ! j) d s') = (sec s')(bs' ! j := d)"
proof -
  let ?x = "bs' ! j" and ?A = "d_addrs din'"
  have G: "whole s'" "fresh s'" "blocks_ok (sec s') ?A (mk_freeblock s') bs'" using g by (simp_all add: grown_def)
  have x: "59 \<le> ?x" "?x < mk_freeblock s'" using blocks_okD(6) [OF G(3) j] by simp_all
  then have u: "unat ?x < FSSIZE" using G(2) by (simp add: fresh_def word_less_nat_alt)
  note W = wsect_ok [OF G(1) u d]
  show "sec (wsect ?x d s') = (sec s')(?x := d)" by (rule W(2))
  have o: "?x \<in> set (owned ?A bs')" using j by (simp add: owned_def)
  have "?A ! NDIRECT \<noteq> ?x" if "NDIRECT < length bs'" using blocks_okD(7) [OF G(3) that] j by auto
  then have b: "blocks_ok (sec (wsect ?x d s')) ?A (mk_freeblock s') bs'"
    by (intro blocks_ok_frame [OF G(3)]) (auto simp: W(2))
  have "((sec s')(?x := d)) b = zeroes" if "mk_freeblock s' \<le> b" "unat b < FSSIZE" for b
  proof -
    have "b \<noteq> ?x" using that(1) x(2) by auto
    then show ?thesis using G(2) that by (simp add: fresh_def)
  qed
  then have "fresh (wsect ?x d s')" using G(2) unfolding fresh_def W(2) by simp
  moreover have "((sec s')(?x := d)) b = sec s b" if "b \<notin> set (owned ?A bs')" for b
  proof -
    have "b \<noteq> ?x" using that o by auto
    then show ?thesis using g that by (simp add: grown_def)
  qed
  ultimately show "grown din s bs din' (wsect ?x d s') bs'"
    using g W(1) b unfolding grown_def W(2) wsect_fields by blast
qed

lemma get_block:
  assumes w: "whole s" and f: "fresh s" and b: "blocks_ok (sec s) (d_addrs din) (mk_freeblock s) bs"
    and j: "j = length bs \<or> Suc j = length bs" "j < MAXFILE"
    and r: "j = length bs \<Longrightarrow> unat (mk_freeblock s) + need j \<le> FSSIZE"
  shows "\<exists>din' s' bs'. iappend_block j din s = Inr (bs' ! j, din', s') \<and> grown din s bs din' s' bs' \<and>
     length bs' = Suc j \<and> (\<forall>i < length bs. bs' ! i = bs ! i) \<and> (\<forall>b \<in> set bs. sec s' b = sec s b) \<and>
     mk_freeblock s' = mk_freeblock s + of_nat (if j = length bs then need j else 0)"
proof (cases "j = length bs")
  case True
  have "\<exists>x din' s'. iappend_block (length bs) din s = Inr (x, din', s') \<and> grown din s bs din' s' (bs @ [x]) \<and>
     mk_freeblock s' = mk_freeblock s + of_nat (need (length bs)) \<and> (\<forall>b \<in> set bs. sec s' b = sec s b)"
    using new_direct [OF w b f] new_indirect [OF w b f] first_indirect [OF w b f] j(2) r [OF True] True
    by (cases "length bs < NDIRECT"; cases "length bs = NDIRECT") (simp_all add: need_def)
  then obtain x din' s' where "iappend_block (length bs) din s = Inr (x, din', s')" "grown din s bs din' s' (bs @ [x])"
     "mk_freeblock s' = mk_freeblock s + of_nat (need (length bs))" "\<forall>b \<in> set bs. sec s' b = sec s b" by blast
  then show ?thesis using True by (intro exI [of _ din'] exI [of _ s'] exI [of _ "bs @ [x]"]) (auto simp: nth_append)
next
  case False
  then show ?thesis using j old_block [OF w b, of j] grown_refl [OF w f b] f by (auto simp: fresh_def)
qed

lemma blocks_of_length:
  fixes L n :: nat
  assumes "0 < n" and "n \<le> 512 - L mod 512"
  shows "(L + n + 511) div 512 = Suc (L div 512)" "(L + 511) div 512 = L div 512 + (if L mod 512 = 0 then 0 else 1)"
proof -
  obtain j r where L: "L = 512 * j + r" "r < 512" by (metis mod_less_divisor mult_div_mod_eq zero_less_numeral)
  then have "n \<le> 512 - r" using assms(2) by simp
  then show "(L + n + 511) div 512 = Suc (L div 512)" using assms(1) L by (simp add: div_nat_eqI)
  show "(L + 511) div 512 = L div 512 + (if L mod 512 = 0 then 0 else 1)"
    using L by (cases "r = 0") (simp_all add: div_nat_eqI)
qed

lemma append_data:
  assumes d: "data_ok c bs xs" and bs': "length bs' = Suc (length xs div 512)" "\<forall>i < length bs. bs' ! i = bs ! i" "distinct bs'"
    and c': "\<forall>b \<in> set bs. c' b = c b" and l: "length (c' x) = 512" and x: "x = bs' ! (length xs div 512)"
    and ys: "ys \<noteq> []" "length ys \<le> 512 - length xs mod 512"
  shows "data_ok (c'(x := overwrite (c' x) (length xs mod 512) ys)) bs' (xs @ ys)"
proof -
  define L where "L = length xs"
  obtain j r where L: "L = 512 * j + r" "r < 512" by (metis mod_less_divisor mult_div_mod_eq zero_less_numeral)
  have jr: "L div 512 = j" "L mod 512 = r" using L by simp_all
  have n: "0 < length ys" "r + length ys \<le> 512" using ys L jr by (auto simp: L_def [symmetric])
  have len: "length bs' = (length (xs @ ys) + 511) div 512"
    using blocks_of_length(1) [of "length ys" "length xs"] ys bs'(1) by simp
  have lb: "length bs = j + (if r = 0 then 0 else 1)"
    using d blocks_of_length(2) [of 1 L] L(2) jr by (simp add: data_ok_def L_def [symmetric])
  have "(c'(x := overwrite (c' x) r ys)) (bs' ! (q div 512)) ! (q mod 512) = (xs @ ys) ! q" if q: "q < L + length ys" for q
  proof -
    obtain a t where at: "q = 512 * a + t" "t < 512" by (metis mod_less_divisor mult_div_mod_eq zero_less_numeral)
    have dm: "q div 512 = a" "q mod 512 = t" using at by simp_all
    have a: "a \<le> j" using q L n(2) at by simp
    show ?thesis
    proof (cases "L \<le> q")
      case True
      then have aj: "a = j" and rt: "r \<le> t" using a at L by simp_all
      have "bs' ! (q div 512) = x" using x jr dm(1) aj by (simp add: L_def [symmetric])
      moreover have "q - L = t - r" "t < r + length ys" using True q at L aj by simp_all
      ultimately show ?thesis
        using True q at(2) rt n l by (simp add: dm(2) nth_overwrite nth_append L_def [symmetric])
    next
      case False
      then have "c (bs ! (q div 512)) ! (q mod 512) = xs ! q" using d by (simp add: data_ok_def L_def [symmetric])
      then have "c (bs ! a) ! t = xs ! q" by (simp only: dm)
      moreover have ab: "a < length bs" using False lb at L a by (cases "a = j") auto
      then have "c' (bs' ! a) = c (bs ! a)" using c' bs'(2) by simp
      moreover have "bs' ! a = x \<longleftrightarrow> a = j" using bs'(1,3) a x jr by (simp add: nth_eq_iff_index_eq L_def [symmetric])
      moreover have "a = j \<Longrightarrow> t < r" using False at L by simp
      ultimately show ?thesis
        using False at l n by (auto simp: dm nth_overwrite nth_append L_def [symmetric])
    qed
  qed
  then show ?thesis using len by (simp add: data_ok_def jr L_def [symmetric])
qed

lemma cost_step:
  assumes "0 < n" and "n \<le> 512 - L mod 512"
  shows "cost (L + n) = cost L + (if L mod 512 = 0 then need (L div 512) else 0)"
  using blocks_of_length [OF assms] by (simp add: cost_def need_def)

lemma cost_mono: "m \<le> n \<Longrightarrow> cost m \<le> cost n"
proof -
  assume "m \<le> n"
  then have "(m + 511) div 512 \<le> (n + 511) div 512" by (intro div_le_mono) simp
  then show ?thesis by (simp add: cost_def)
qed

lemma iappend_loop_ok:
  assumes "whole s" and "fresh s" and "blocks_ok (sec s) (d_addrs din) (mk_freeblock s) bs" and "data_ok (sec s) bs xs"
    and "length xs + length p \<le> MAXFILE * BSIZE"
    and "unat (mk_freeblock s) + cost (length xs + length p) \<le> FSSIZE + cost (length xs)"
  shows "\<exists>din' s' bs'. iappend_loop p (of_nat (length xs)) din s = Inr (of_nat (length (xs @ p)), din', s') \<and>
     grown din s bs din' s' bs' \<and> data_ok (sec s') bs' (xs @ p) \<and>
     unat (mk_freeblock s') + cost (length xs) = unat (mk_freeblock s) + cost (length (xs @ p))"
  using assms
proof (induction "length p" arbitrary: p xs din s bs rule: less_induct)
  case less
  note P = less.prems
  show ?case
  proof (cases "p = []")
    case True
    then show ?thesis using grown_refl [OF P(1,2,3)] P(4) by (auto simp: iappend_loop.simps [of "[]"])
  next
    case False
    let ?L = "length xs" and ?j = "length xs div 512" and ?r = "length xs mod 512"
    define n where "n = min (length p) (512 - ?r)"
    have n: "0 < n" "n \<le> 512 - ?r" "n \<le> length p" "length (take n p) = n" using False by (auto simp: n_def)
    have j: "?j < MAXFILE" using P(5) False by (cases p) (auto simp: less_mult_imp_div_less)
    have u: "unat (of_nat ?L :: u32) = ?L" using P(5) by (simp add: unat_of_nat)
    have lb: "length bs = ?j + (if ?r = 0 then 0 else 1)" using P(4) blocks_of_length(2) [OF n(1,2)] by (simp add: data_ok_def)
    have cs: "cost (?L + n) = cost ?L + (if ?j = length bs then need ?j else 0)" using cost_step [OF n(1,2)] lb by simp
    have cm: "cost (?L + n) \<le> cost (?L + length p)" using n(3) by (intro cost_mono) simp
    have "?j = length bs \<or> Suc ?j = length bs" using lb by simp
    moreover have "unat (mk_freeblock s) + need ?j \<le> FSSIZE" if "?j = length bs" using cs cm P(6) that by simp
    ultimately obtain din1 s1 bs1 where
      b: "iappend_block ?j din s = Inr (bs1 ! ?j, din1, s1)" "grown din s bs din1 s1 bs1" "length bs1 = Suc ?j"
        "\<forall>i < length bs. bs1 ! i = bs ! i" "\<forall>b \<in> set bs. sec s1 b = sec s b"
        "mk_freeblock s1 = mk_freeblock s + of_nat (if ?j = length bs then need ?j else 0)"
      using get_block [OF P(1,2,3) _ j] by blast
    let ?x = "bs1 ! ?j" and ?buf = "sec s1 (bs1 ! ?j)"
    have G: "whole s1" "fresh s1" "blocks_ok (sec s1) (d_addrs din1) (mk_freeblock s1) bs1" using b(2) by (simp_all add: grown_def)
    have "unat ?x < FSSIZE" using blocks_okD(6) [OF G(3), of ?j] G(2) b(3) by (simp add: fresh_def word_less_nat_alt)
    then have x: "rsect ?x s1 = Inr ?buf" "length ?buf = 512" using rsect_ok [OF G(1)] length_sec [OF G(1)] by simp_all
    define d where "d = overwrite ?buf ?r (take n p)"
    define s2 where "s2 = wsect ?x d s1"
    have ld: "length d = 512" using x(2) n unfolding d_def by (subst length_overwrite) auto
    have W: "grown din s bs din1 s2 bs1" "sec s2 = (sec s1)(?x := d)" unfolding s2_def by (rule write_block [OF b(2) _ ld], simp add: b(3))+
    have D: "data_ok (sec s2) bs1 (xs @ take n p)"
      unfolding W(2) d_def using append_data [OF P(4) b(3,4) blocks_okD(5) [OF G(3)] b(5) x(2) refl, of "take n p"] n False by simp
    have fb: "unat (mk_freeblock s2) + cost ?L = unat (mk_freeblock s) + cost (?L + n)"
      using b(6) cs cm P(6) next_block(1) [of "mk_freeblock s" "if ?j = length bs then need ?j else 0"] by (simp add: s2_def)
    have H: "whole s2" "fresh s2" "blocks_ok (sec s2) (d_addrs din1) (mk_freeblock s2) bs1" using W(1) by (simp_all add: grown_def)
    have "length (drop n p) < length p" using n False by simp
    from less.hyps [OF this H D] P(5,6) n fb obtain din3 s3 bs3 where
      t: "iappend_loop (drop n p) (of_nat (?L + n)) din1 s2 = Inr (of_nat (?L + length p), din3, s3)"
        "grown din1 s2 bs1 din3 s3 bs3" "data_ok (sec s3) bs3 (xs @ p)"
        "unat (mk_freeblock s3) + cost (?L + n) = unat (mk_freeblock s2) + cost (?L + length p)" by auto
    have "iappend_loop p (of_nat ?L) din s = iappend_loop (drop n p) (of_nat (?L + n)) din1 s2"
    proof -
      have e: "(j + 1) * 512 - (j * 512 + r) = 512 - r" "j * 512 + r - j * 512 = r" for j r :: nat by simp_all
      have e: "(?j + 1) * 512 - ?L = 512 - ?r" "?L - ?j * 512 = ?r" using e [of ?j ?r] by (simp_all only: div_mult_mod_eq)
      show ?thesis
        unfolding iappend_loop.simps [of p] using False j b(1) x(1)
        by (simp only: u e n_def [symmetric] d_def [symmetric] s2_def [symmetric] Let_def if_False if_True simp_thms
            and_then_Inr prod.case of_nat_add)
    qed
    then show ?thesis using t grown_trans [OF W(1) t(2)] fb by auto
  qed
qed

section \<open>Inodes of the image\<close>

lemma get_overwrite_same:
  "k + length ys \<le> length xs \<Longrightarrow> i + 2 \<le> length ys \<Longrightarrow> get16 (overwrite xs k ys) (k + i) = get16 ys i"
  "k + length ys \<le> length xs \<Longrightarrow> i + 4 \<le> length ys \<Longrightarrow> get32 (overwrite xs k ys) (k + i) = get32 ys i"
  by (simp_all add: get16_def get32_def nth_overwrite add.assoc)

lemma get_bytes: "get16 (bytes16 v @ xs) 0 = v" "get32 (bytes32 w @ xs) 0 = w"
proof -
  have "get16 (bytes16 v) 0 = v" "get32 (bytes32 w) 0 = w" using xshort [of v] xint [of w] by (simp_all only: xshort_def xint_def)
  then show "get16 (bytes16 v @ xs) 0 = v" "get32 (bytes32 w @ xs) 0 = w" by (simp_all add: get16_def get32_def nth_append)
qed

lemma get_skip: "k = length ys + j \<Longrightarrow> get16 (ys @ xs) k = get16 xs j" "k = length ys + j \<Longrightarrow> get32 (ys @ xs) k = get32 xs j"
  by (simp_all add: get16_def get32_def nth_append)

lemma get32_concat: "j < length A \<Longrightarrow> get32 (concat (map bytes32 A)) (4 * j) = A ! j"
proof (induction A arbitrary: j)
  case (Cons a A)
  then show ?case by (cases j) (auto simp: get_bytes get_skip(2) [of _ "bytes32 a" "4 * (j - 1)"])
qed simp

lemma length_dinode_bytes: "length (d_addrs d) = NDIRECT + 1 \<Longrightarrow> length (dinode_bytes d) = 64"
  by (simp add: dinode_bytes_def length_concat comp_def sum_list_triv)

lemma dinode_roundtrip:
  assumes "k + 64 \<le> length buf" and A: "length (d_addrs d) = NDIRECT + 1"
  shows "dinode_of (overwrite buf k (dinode_bytes d)) k = d"
proof -
  note L = length_dinode_bytes [OF A]
  have g: "get16 (overwrite buf k (dinode_bytes d)) (k + i) = get16 (dinode_bytes d) i" if "i + 2 \<le> 64" for i
    using get_overwrite_same(1) [of k "dinode_bytes d" buf i] assms(1) L that by simp
  have h: "get32 (overwrite buf k (dinode_bytes d)) (k + i) = get32 (dinode_bytes d) i" if "i + 4 \<le> 64" for i
    using get_overwrite_same(2) [of k "dinode_bytes d" buf i] assms(1) L that by simp
  have v: "get16 (dinode_bytes d) 0 = d_type d" "get16 (dinode_bytes d) 2 = d_major d" "get16 (dinode_bytes d) 4 = d_minor d"
      "get16 (dinode_bytes d) 6 = d_nlink d" "get32 (dinode_bytes d) 8 = d_size d"
    unfolding dinode_bytes_def by (simp_all add: get_bytes get_skip [of _ "bytes16 _"] get_skip(2) [of _ "bytes32 _"])
  have a: "get32 (dinode_bytes d) (12 + 4 * j) = d_addrs d ! j" if "j < 13" for j
  proof -
    have "get32 (dinode_bytes d) (12 + 4 * j) = get32 (concat (map bytes32 (d_addrs d))) (4 * j)"
      unfolding dinode_bytes_def append_assoc [symmetric] by (rule get_skip) simp
    then show ?thesis using get32_concat [of j "d_addrs d"] that A by simp
  qed
  have "map (\<lambda>j. get32 (overwrite buf k (dinode_bytes d)) (k + 12 + 4 * j)) [0..<NDIRECT + 1] = d_addrs d"
  proof (rule nth_equalityI)
    fix j assume "j < length (map (\<lambda>j. get32 (overwrite buf k (dinode_bytes d)) (k + 12 + 4 * j)) [0..<NDIRECT + 1])"
    then have "j < 13" by simp
    then show "map (\<lambda>j. get32 (overwrite buf k (dinode_bytes d)) (k + 12 + 4 * j)) [0..<NDIRECT + 1] ! j = d_addrs d ! j"
      using h [of "12 + 4 * j"] a [of j] by (simp add: add.assoc del: upt_Suc)
  qed (simp add: A)
  then show ?thesis
    unfolding dinode_of_def using g [of 0] g [of 2] g [of 4] g [of 6] h [of 8] v by simp
qed

lemma dinode_other:
  assumes "k + length ys \<le> length buf" and "j + 64 \<le> length buf" and "j + 64 \<le> k \<or> k + length ys \<le> j"
  shows "dinode_of (overwrite buf k ys) j = dinode_of buf j"
  using assms unfolding dinode_of_def by (auto simp: get16_overwrite get32_overwrite)

definition the_sb :: superblock where
  "the_sb = \<lparr>sb_size = 1000, sb_nblocks = 941, sb_ninodes = 200, sb_nlog = 30, sb_logstart = 2, sb_inodestart = 32,
     sb_bmapstart = 58\<rparr>"

definition dnode :: "mkfs_state \<Rightarrow> nat \<Rightarrow> dinode" where
  "dnode s n = dinode_of (sec s (IBLOCK (of_nat n) (mk_sb s))) (ioff (of_nat n))"

lemma inode_place:
  assumes "n < 208"
  shows "unat (IBLOCK (of_nat n) the_sb) = n div 8 + 32" "ioff (of_nat n) = 64 * (n mod 8)" "ioff (of_nat n) + 64 \<le> BSIZE"
proof -
  have u: "unat (of_nat n :: u32) = n" using assms by (simp add: unat_of_nat)
  have "n div 8 < 26" using assms by (simp add: less_mult_imp_div_less)
  moreover have "unat (of_nat n div 8 :: u32) = n div 8" by (simp add: unat_div u)
  ultimately show "unat (IBLOCK (of_nat n) the_sb) = n div 8 + 32" by (simp add: IBLOCK_def the_sb_def unat_word_ariths)
  have "unat (of_nat n mod 8 :: u32) = n mod 8" by (simp add: unat_mod u)
  then show "ioff (of_nat n) = 64 * (n mod 8)" by (simp add: ioff_def)
  moreover have "n mod 8 < 8" by simp
  ultimately show "ioff (of_nat n) + 64 \<le> BSIZE" by linarith
qed

lemma iblock_range:
  assumes "n < 208"
  shows "unat (IBLOCK (of_nat n) the_sb) < 58" "IBLOCK (of_nat n) the_sb < 59" "unat (IBLOCK (of_nat n) the_sb) < FSSIZE"
proof -
  have "n div 8 < 26" using assms by (simp add: less_mult_imp_div_less)
  then show a: "unat (IBLOCK (of_nat n) the_sb) < 58" using inode_place(1) [OF assms] by simp
  then show "IBLOCK (of_nat n) the_sb < 59" "unat (IBLOCK (of_nat n) the_sb) < FSSIZE" by (simp_all add: word_less_nat_alt)
qed

lemma iblock_low: "n < 208 \<Longrightarrow> 32 \<le> IBLOCK (of_nat n) the_sb"
  using inode_place(1) [of n] by (simp add: word_le_nat_alt)

lemma rinode_ok: "whole s \<Longrightarrow> mk_sb s = the_sb \<Longrightarrow> n < 208 \<Longrightarrow> rinode (of_nat n) s = Inr (dnode s n)"
  using rsect_ok [of s] iblock_range(3) [of n] by (simp add: rinode_def dnode_def Let_def)

lemma winode_ok:
  assumes w: "whole s" and b: "mk_sb s = the_sb" and n: "n < 208" and A: "length (d_addrs d) = NDIRECT + 1"
  shows "\<exists>s'. winode (of_nat n) d s = Inr s' \<and> whole s' \<and> mk_sb s' = the_sb \<and> mk_freeinode s' = mk_freeinode s \<and>
     mk_freeblock s' = mk_freeblock s \<and> (\<forall>b. b \<noteq> IBLOCK (of_nat n) the_sb \<longrightarrow> sec s' b = sec s b) \<and>
     (\<forall>m < 208. dnode s' m = (if m = n then d else dnode s m))"
proof -
  let ?b = "IBLOCK (of_nat n) the_sb" and ?k = "ioff (of_nat n)"
  let ?buf = "overwrite (sec s ?b) ?k (dinode_bytes d)"
  note u = iblock_range(3) [OF n] and k = inode_place(3) [OF n] and L = length_sec [OF w iblock_range(3) [OF n]]
  have D: "length (dinode_bytes d) = 64" by (rule length_dinode_bytes [OF A])
  have l: "length ?buf = BSIZE" using L D k by simp
  note W = wsect_ok [OF w u l]
  have "dnode (wsect ?b ?buf s) m = (if m = n then d else dnode s m)" if m: "m < 208" for m
  proof (cases "IBLOCK (of_nat m) the_sb = ?b")
    case e: True
    show ?thesis
    proof (cases "m = n")
      case True
      then show ?thesis using W(2) dinode_roundtrip [of ?k "sec s ?b" d] k L A by (simp add: dnode_def b)
    next
      case False
      have "m div 8 = n div 8" using e inode_place(1) [OF m] inode_place(1) [OF n] by simp
      then have "m mod 8 \<noteq> n mod 8" using False by (metis div_mult_mod_eq)
      then have "dinode_of ?buf (ioff (of_nat m)) = dinode_of (sec s ?b) (ioff (of_nat m))"
        using inode_place(2,3) [OF m] inode_place(2,3) [OF n] L D by (intro dinode_other) auto
      then show ?thesis using False W(2) e by (simp add: dnode_def b)
    qed
  next
    case False
    then show ?thesis using W(2) by (auto simp: dnode_def b)
  qed
  moreover have "winode (of_nat n) d s = Inr (wsect ?b ?buf s)" using rsect_ok [OF w u] by (simp add: winode_def b Let_def)
  ultimately show ?thesis using W b by auto
qed

section \<open>The image\<close>

text \<open>
  \<open>img_ok s fs\<close>: the inodes from 1 on are those of the list \<open>fs\<close> of types and contents, their
  blocks are the blocks from 59 up to the first free one, and no two of them share a block.
\<close>

definition file_ok :: "mkfs_state \<Rightarrow> nat \<Rightarrow> u16 \<times> u8 list \<Rightarrow> u32 list \<Rightarrow> bool" where
  "file_ok s n f bs \<longleftrightarrow> d_type (dnode s n) = fst f \<and> d_nlink (dnode s n) = 1 \<and>
     d_size (dnode s n) = of_nat (length (snd f)) \<and> length (snd f) \<le> MAXFILE * BSIZE \<and>
     blocks_ok (sec s) (d_addrs (dnode s n)) (mk_freeblock s) bs \<and> data_ok (sec s) bs (snd f)"

definition own :: "mkfs_state \<Rightarrow> u32 list list \<Rightarrow> nat \<Rightarrow> u32 set" where
  "own s Bs i = set (owned (d_addrs (dnode s (Suc i))) (Bs ! i))"

definition img_ok :: "mkfs_state \<Rightarrow> (u16 \<times> u8 list) list \<Rightarrow> u32 list list \<Rightarrow> bool" where
  "img_ok s fs Bs \<longleftrightarrow> whole s \<and> fresh s \<and> mk_sb s = the_sb \<and> length Bs = length fs \<and>
     mk_freeinode s = of_nat (Suc (length fs)) \<and> (\<forall>i < length fs. file_ok s (Suc i) (fs ! i) (Bs ! i)) \<and>
     disjoint_family_on (own s Bs) {..<length fs} \<and> (\<Union>i < length fs. own s Bs i) = {59..<mk_freeblock s} \<and>
     unat (mk_freeblock s) = 59 + (\<Sum>f\<leftarrow>fs. cost (length (snd f))) \<and> (\<forall>b < 32. sec s b = sec mkfs_start b)"

lemma img_okD:
  assumes "img_ok s fs Bs"
  shows "whole s" "fresh s" "mk_sb s = the_sb" "length Bs = length fs" "mk_freeinode s = of_nat (Suc (length fs))"
    "i < length fs \<Longrightarrow> file_ok s (Suc i) (fs ! i) (Bs ! i)"
    "i < length fs \<Longrightarrow> j < length fs \<Longrightarrow> i \<noteq> j \<Longrightarrow> own s Bs i \<inter> own s Bs j = {}"
    "(\<Union>i < length fs. own s Bs i) = {59..<mk_freeblock s}" "i < length fs \<Longrightarrow> own s Bs i \<subseteq> {59..<mk_freeblock s}"
    "unat (mk_freeblock s) = 59 + (\<Sum>f\<leftarrow>fs. cost (length (snd f)))" "b < 32 \<Longrightarrow> sec s b = sec mkfs_start b"
  using assms by (auto simp: img_ok_def disjoint_family_on_def)

lemma file_ok_frame:
  assumes f: "file_ok s n f bs" and d: "dnode s' n = dnode s n" and fb: "mk_freeblock s \<le> mk_freeblock s'"
    and c: "\<And>b. b \<in> set (owned (d_addrs (dnode s n)) bs) \<Longrightarrow> sec s' b = sec s b"
  shows "file_ok s' n f bs"
proof -
  let ?A = "d_addrs (dnode s n)"
  have b: "blocks_ok (sec s) ?A (mk_freeblock s) bs" and D: "data_ok (sec s) bs (snd f)" using f by (simp_all add: file_ok_def)
  have "blocks_ok (sec s') ?A (mk_freeblock s') bs"
    using blocks_okD(4) [OF b] by (intro blocks_ok_frame [OF b fb] c) (simp add: owned_def)
  moreover have "data_ok (sec s') bs (snd f)"
    unfolding data_ok_def
  proof (intro conjI allI impI)
    show lb: "length bs = (length (snd f) + 511) div 512" using D by (simp add: data_ok_def)
    fix q assume q: "q < length (snd f)"
    then have "q div 512 < length bs" unfolding lb by (simp add: div_le_mono less_Suc_eq_le [symmetric] div_less_iff_less_mult)
    then have "sec s' (bs ! (q div 512)) = sec s (bs ! (q div 512))" by (intro c) (simp add: owned_def)
    then show "sec s' (bs ! (q div 512)) ! (q mod 512) = snd f ! q" using D q by (simp add: data_ok_def)
  qed
  ultimately show ?thesis using f d by (simp add: file_ok_def)
qed

lemma sum_list_cost:
  assumes "i < length fs"
  shows "(\<Sum>f\<leftarrow>fs[i := g]. cost (length (snd f))) + cost (length (snd (fs ! i))) =
     (\<Sum>f\<leftarrow>fs. cost (length (snd f))) + cost (length (snd g))"
  using assms
proof (induction fs arbitrary: i)
  case (Cons f fs)
  then show ?case by (cases i) auto
qed simp

lemma grownD:
  assumes "grown din s bs din' s' bs'"
  shows "whole s'" "mk_sb s' = mk_sb s" "mk_freeinode s' = mk_freeinode s" "din'\<lparr>d_addrs := d_addrs din\<rparr> = din"
    "mk_freeblock s \<le> mk_freeblock s'" "fresh s'" "blocks_ok (sec s') (d_addrs din') (mk_freeblock s') bs'"
    "set (owned (d_addrs din') bs') = set (owned (d_addrs din) bs) \<union> {mk_freeblock s..<mk_freeblock s'}"
    "b \<notin> set (owned (d_addrs din') bs') \<Longrightarrow> sec s' b = sec s b"
  using assms by (simp_all add: grown_def)

lemma data_ok_frame:
  assumes D: "data_ok c bs xs" and c: "\<And>b. b \<in> set bs \<Longrightarrow> c' b = c b"
  shows "data_ok c' bs xs"
  unfolding data_ok_def
proof (intro conjI allI impI)
  show lb: "length bs = (length xs + 511) div 512" using D by (simp add: data_ok_def)
  fix q assume q: "q < length xs"
  then have "q div 512 < length bs" unfolding lb by (simp add: div_le_mono less_Suc_eq_le [symmetric] div_less_iff_less_mult)
  then show "c' (bs ! (q div 512)) ! (q mod 512) = xs ! q" using D q c by (simp add: data_ok_def)
qed

lemma dnode_cong: "sec s' (IBLOCK (of_nat n) the_sb) = sec s (IBLOCK (of_nat n) the_sb) \<Longrightarrow> mk_sb s = the_sb \<Longrightarrow>
    mk_sb s' = the_sb \<Longrightarrow> dnode s' n = dnode s n"
  by (simp add: dnode_def)

lemma iappend_ok:
  assumes I: "img_ok s fs Bs" and i: "i < length fs" "length fs < 207" and f: "fs ! i = (type, xs)"
    and l: "length xs + length p \<le> MAXFILE * BSIZE"
    and r: "unat (mk_freeblock s) + cost (length xs + length p) \<le> FSSIZE + cost (length xs)"
  shows "\<exists>s' Bs'. iappend (of_nat (Suc i)) p s = Inr s' \<and> img_ok s' (fs[i := (type, xs @ p)]) Bs'"
proof -
  let ?n = "Suc i" and ?fb = "mk_freeblock s"
  let ?din = "dnode s ?n" and ?bs = "Bs ! i"
  note J = img_okD [OF I]
  have F: "d_type ?din = type" "d_nlink ?din = 1" "d_size ?din = of_nat (length xs)"
      "blocks_ok (sec s) (d_addrs ?din) ?fb ?bs" "data_ok (sec s) ?bs xs"
    using J(6) [OF i(1)] f by (simp_all add: file_ok_def)
  obtain din1 s1 bs1 where g: "iappend_loop p (of_nat (length xs)) ?din s = Inr (of_nat (length (xs @ p)), din1, s1)"
      "grown ?din s ?bs din1 s1 bs1" "data_ok (sec s1) bs1 (xs @ p)"
      "unat (mk_freeblock s1) + cost (length xs) = unat ?fb + cost (length (xs @ p))"
    using iappend_loop_ok [OF J(1,2) F(4,5) l r] by blast
  note G = grownD [OF g(2)]
  define d2 where "d2 = din1\<lparr>d_size := of_nat (length (xs @ p))\<rparr>"
  let ?O = "set (owned (d_addrs din1) bs1)" and ?fb' = "mk_freeblock s1"
  have d: "d_type din1 = type" "d_nlink din1 = 1" using G(4) F(1,2) by (metis dinode.select_convs(1) dinode.surjective dinode.update_convs(6), metis dinode.select_convs(4) dinode.surjective dinode.update_convs(6))
  obtain s2 where w: "winode (of_nat ?n) d2 s1 = Inr s2" "whole s2" "mk_sb s2 = the_sb" "mk_freeinode s2 = mk_freeinode s1"
      "mk_freeblock s2 = ?fb'" "\<And>b. b \<noteq> IBLOCK (of_nat ?n) the_sb \<Longrightarrow> sec s2 b = sec s1 b"
      "\<And>m. m < 208 \<Longrightarrow> dnode s2 m = (if m = ?n then d2 else dnode s1 m)"
    using winode_ok [of s1 ?n d2] G(1,2) J(3) i blocks_okD(1) [OF G(7)] by (auto simp: d2_def)
  have hi: "59 \<le> b \<Longrightarrow> b \<noteq> IBLOCK (of_nat m) the_sb" if "m < 208" for b m using iblock_range(2) [OF that] by auto
  have O: "?O = own s Bs i \<union> {?fb..<?fb'}" "?O \<subseteq> {59..<?fb'}"
    using G(8) G(7) by (auto simp: own_def blocks_ok_def)
  have D: "dnode s2 m = (if m = ?n then d2 else dnode s m)" if "m < 208" for m
    using w(7) [OF that] dnode_cong [of s1 m s] G(2,9) J(3) O(2) iblock_range(2) [OF that] by force
  have s2: "sec s2 b = sec s1 b" if "59 \<le> b" for b using w(6) hi [of ?n] i that by simp
  define Bs2 where "Bs2 = Bs[i := bs1]"
  have own2: "own s2 Bs2 j = (if j = i then ?O else own s Bs j)" if "j < length fs" for j
    using D [of "Suc j"] that i J(4) by (auto simp: own_def Bs2_def d2_def)
  have new: "own s Bs j \<inter> ?O = {}" if "j < length fs" "j \<noteq> i" for j
    using J(7) [OF that(1) i(1) that(2)] J(9) [OF that(1)] unfolding O(1) by (fastforce simp: subset_iff)
  have fl: "file_ok s2 (Suc j) (fs[i := (type, xs @ p)] ! j) (Bs2 ! j)" if j: "j < length fs" for j
  proof (cases "j = i")
    case True
    have b: "blocks_ok (sec s2) (d_addrs din1) ?fb' bs1"
      using blocks_okD(7) [OF G(7)] by (intro blocks_ok_frame [OF G(7)] s2) auto
    have "data_ok (sec s2) bs1 (xs @ p)"
      using O(2) by (intro data_ok_frame [OF g(3)] s2) (auto simp: owned_def)
    then show ?thesis using True i j b d l D [of ?n] w(5) J(4) by (simp add: file_ok_def d2_def Bs2_def)
  next
    case False
    have "file_ok s2 (Suc j) (fs ! j) (Bs ! j)"
    proof (rule file_ok_frame [OF J(6) [OF j]])
      show "dnode s2 (Suc j) = dnode s (Suc j)" using D [of "Suc j"] False j i by simp
      show "?fb \<le> mk_freeblock s2" using G(5) w(5) by simp
      fix b assume "b \<in> set (owned (d_addrs (dnode s (Suc j))) (Bs ! j))"
      then have "b \<in> own s Bs j" by (simp add: own_def)
      then have "59 \<le> b" "b \<notin> ?O" using J(9) [OF j] new [OF j False] by auto
      then show "sec s2 b = sec s b" using s2 G(9) by simp
    qed
    then show ?thesis using False by (simp add: Bs2_def)
  qed
  have fr: "fresh s2" using G(6) s2 unfolding fresh_def w(5) by (metis order_trans)
  have dis: "disjoint_family_on (own s2 Bs2) {..<length fs}"
    unfolding disjoint_family_on_def using own2 J(7) new by (auto simp: Int_commute)
  have "(\<Union>j < length fs. own s2 Bs2 j) = (\<Union>j < length fs. own s Bs j) \<union> {?fb..<?fb'}"
    using own2 i(1) by (auto simp: O(1) split: if_splits)
  also have "\<dots> = {59..<?fb'}"
    unfolding J(8) using G(5) J(2) by (intro ivl_disj_un_two(3)) (simp_all add: fresh_def)
  finally have un: "(\<Union>j < length fs. own s2 Bs2 j) = {59..<mk_freeblock s2}" using w(5) by simp
  have lo: "sec s2 b = sec mkfs_start b" if "b < 32" for b
  proof -
    have "b \<notin> ?O"
    proof
      assume "b \<in> ?O"
      then have "59 \<le> b" using O(2) by auto
      then have "59 < (32 :: u32)" using that by (rule le_less_trans)
      then show False by simp
    qed
    moreover have "b \<noteq> IBLOCK (of_nat ?n) the_sb" using iblock_low [of ?n] i that by auto
    ultimately show ?thesis using w(6) G(9) J(11) that by simp
  qed
  have "img_ok s2 (fs[i := (type, xs @ p)]) Bs2"
    unfolding img_ok_def
    using lo w(2,3,4,5) fr fl dis un G(3) J(4,5,10) g(4) sum_list_cost [OF i(1), of "(type, xs @ p)"] f by (simp add: Bs2_def)
  moreover have "iappend (of_nat ?n) p s = Inr s2"
    using rinode_ok [OF J(1,3), of ?n] i F(3) g(1) w(1) by (simp add: iappend_def d2_def)
  ultimately show ?thesis by blast
qed

lemma cost_0 [simp]: "cost 0 = 0"
  by (simp add: cost_def)

lemma ialloc_ok:
  assumes I: "img_ok s fs Bs" and l: "length fs < 206"
  shows "\<exists>s'. mkfs_ialloc type s = Inr (of_nat (Suc (length fs)), s') \<and> img_ok s' (fs @ [(type, [])]) (Bs @ [[]])"
proof -
  note J = img_okD [OF I]
  let ?n = "Suc (length fs)"
  define din where "din = \<lparr>d_type = type, d_major = 0, d_minor = 0, d_nlink = 1, d_size = 0, d_addrs = replicate (NDIRECT + 1) 0\<rparr>"
  define s1 where "s1 = s\<lparr>mk_freeinode := mk_freeinode s + 1\<rparr>"
  have s1: "whole s1" "mk_sb s1 = the_sb" "sec s1 = sec s" "dnode s1 = dnode s" "mk_freeblock s1 = mk_freeblock s"
      "mk_freeinode s1 = of_nat (Suc ?n)"
    using J(1,3,5) by (simp_all add: s1_def dnode_def fun_eq_iff algebra_simps)
  obtain s2 where w: "winode (of_nat ?n) din s1 = Inr s2" "whole s2" "mk_sb s2 = the_sb" "mk_freeinode s2 = of_nat (Suc ?n)"
      "mk_freeblock s2 = mk_freeblock s" "\<And>b. b \<noteq> IBLOCK (of_nat ?n) the_sb \<Longrightarrow> sec s2 b = sec s b"
      "\<And>m. m < 208 \<Longrightarrow> dnode s2 m = (if m = ?n then din else dnode s m)"
    using winode_ok [OF s1(1,2), of ?n din] l s1 by (auto simp: din_def)
  have n: "?n < 208" using l by simp
  have hi: "sec s2 b = sec s b" if "59 \<le> b" for b
  proof -
    have "b \<noteq> IBLOCK (of_nat ?n) the_sb" using iblock_range(2) [OF n] that by auto
    then show ?thesis by (rule w(6))
  qed
  have D: "dnode s2 (Suc i) = (if i < length fs then dnode s (Suc i) else din)" if "i \<le> length fs" for i
    using w(7) [of "Suc i"] that l by auto
  have own2: "own s2 (Bs @ [[]]) i = (if i < length fs then own s Bs i else {})" if "i \<le> length fs" for i
    using D [OF that] J(4) that by (auto simp: own_def nth_append owned_def din_def)
  have fl: "file_ok s2 (Suc i) ((fs @ [(type, [])]) ! i) ((Bs @ [[]]) ! i)" if i: "i \<le> length fs" for i
  proof (cases "i < length fs")
    case True
    have "file_ok s2 (Suc i) (fs ! i) (Bs ! i)"
      using D [OF i] True w(5) J(9) [OF True] by (intro file_ok_frame [OF J(6) [OF True]] hi) (auto simp: own_def)
    then show ?thesis using True J(4) by (simp add: nth_append)
  next
    case False
    then have "i = length fs" using i by simp
    moreover have "slot (sec s2) (replicate 13 0) j = 0" if "j < MAXFILE" for j by (simp add: slot_def)
    ultimately show ?thesis using D [OF i] J(4)
      by (simp add: file_ok_def din_def nth_append blocks_ok_def owned_def data_ok_def)
  qed
  have fr: "fresh s2" using J(2) hi unfolding fresh_def w(5) by (metis order_trans)
  have lo: "sec s2 b = sec mkfs_start b" if "b < 32" for b
  proof -
    have "b \<noteq> IBLOCK (of_nat ?n) the_sb" using iblock_low [of ?n] l that by auto
    then show ?thesis using w(6) J(11) that by simp
  qed
  have "disjoint_family_on (own s2 (Bs @ [[]])) {..<?n}"
    unfolding disjoint_family_on_def using own2 J(7) by (auto simp: less_Suc_eq_le)
  moreover have "(\<Union>i < ?n. own s2 (Bs @ [[]]) i) = {59..<mk_freeblock s2}"
    unfolding w(5) J(8) [symmetric] lessThan_Suc using own2 by simp
  ultimately have "img_ok s2 (fs @ [(type, [])]) (Bs @ [[]])"
    unfolding img_ok_def using w(2-5) fr fl lo J(4,10) by (simp add: less_Suc_eq_le)
  moreover have "mkfs_ialloc type s = Inr (of_nat ?n, s2)"
    using w(1) J(5) unfolding mkfs_ialloc_def din_def s1_def by (simp add: Let_def)
  ultimately show ?thesis by blast
qed

section \<open>The program as a whole\<close>

definition total :: "(u16 \<times> u8 list) list \<Rightarrow> nat" where
  "total fs = 59 + (\<Sum>f\<leftarrow>fs. cost (length (snd f)))"

lemma iappend_total:
  assumes I: "img_ok s fs Bs" and i: "i < length fs" "length fs < 207" and f: "fs ! i = (type, xs)"
    and l: "length xs + length p \<le> MAXFILE * BSIZE" and r: "total (fs[i := (type, xs @ p)]) \<le> FSSIZE"
  shows "\<exists>s' Bs'. iappend (of_nat (Suc i)) p s = Inr s' \<and> img_ok s' (fs[i := (type, xs @ p)]) Bs'"
proof (rule iappend_ok [OF I i f l])
  show "unat (mk_freeblock s) + cost (length xs + length p) \<le> FSSIZE + cost (length xs)"
    using r sum_list_cost [OF i(1), of "(type, xs @ p)"] f img_okD(10) [OF I] by (simp add: total_def)
qed

lemma total_prefix:
  assumes "i < length fs"
  shows "total (fs[i := (type, xs)]) \<le> total (fs[i := (type, xs @ ys)])"
  using sum_list_cost [OF assms, of "(type, xs)"] sum_list_cost [OF assms, of "(type, xs @ ys)"]
    cost_mono [of "length xs" "length (xs @ ys)"] by (simp add: total_def)

lemma iappend_many:
  assumes "img_ok s fs Bs" and "i < length fs" and "length fs < 207" and "fs ! i = (type, xs)"
    and "length xs + length (concat ps) \<le> MAXFILE * BSIZE" and "total (fs[i := (type, xs @ concat ps)]) \<le> FSSIZE"
  shows "\<exists>s' Bs'. for_each (iappend (of_nat (Suc i))) ps s = Inr s' \<and> img_ok s' (fs[i := (type, xs @ concat ps)]) Bs'"
  using assms
proof (induction ps arbitrary: s fs Bs xs)
  case Nil
  then have "fs[i := (type, xs)] = fs" by (metis list_update_id)
  then show ?case using Nil.prems(1) by auto
next
  case (Cons p ps)
  note P = Cons.prems
  have "total (fs[i := (type, xs @ p)]) \<le> FSSIZE" using P(6) total_prefix [OF P(2), of type "xs @ p" "concat ps"] by simp
  then obtain s1 Bs1 where s1: "iappend (of_nat (Suc i)) p s = Inr s1" "img_ok s1 (fs[i := (type, xs @ p)]) Bs1"
    using iappend_total [OF P(1-4), of p] P(5) by auto
  from Cons.IH [OF s1(2), of "xs @ p"] P s1(1) show ?case by simp
qed

definition strip :: "u8 list \<Rightarrow> u8 list" where
  "strip arg = (if arg \<noteq> [] \<and> hd arg = 95 then tl arg else arg)"

definition entry :: "nat \<Rightarrow> u8 list \<Rightarrow> u8 list" where
  "entry n name = dirent_bytes (of_nat n) (entry_name name)"

lemma length_entry [simp]: "length (entry n name) = 16"
  by (simp add: entry_def dirent_bytes_def entry_name_def)

lemma ucast_small: "(ucast (of_nat n :: u32) :: u16) = of_nat n"
  by (rule bit_eqI) (simp add: bit_simps bit_of_nat_iff)

lemma total_snoc: "total (fs @ [f]) = total fs + cost (length (snd f))"
  by (simp add: total_def)

lemma total_Cons: "total ((type, xs) # fs) = cost (length xs) + total fs"
  by (simp add: total_def)

lemma mkfs_file_ok:
  assumes I: "img_ok s ((T_DIR, root) # fs) Bs" and l: "length fs < 198" and a: "47 \<notin> set arg"
    and m: "length root + 16 \<le> MAXFILE * BSIZE" "length (concat chunks) \<le> MAXFILE * BSIZE"
    and r: "total ((T_DIR, root @ entry (length fs + 2) (strip arg)) # fs @ [(T_FILE, concat chunks)]) \<le> FSSIZE"
  shows "\<exists>s' Bs'. mkfs_file 1 (arg, Some chunks) s = Inr s' \<and>
     img_ok s' ((T_DIR, root @ entry (length fs + 2) (strip arg)) # fs @ [(T_FILE, concat chunks)]) Bs'"
proof -
  let ?n = "length fs + 2" and ?e = "entry (length fs + 2) (strip arg)"
  obtain s1 where s1: "mkfs_ialloc T_FILE s = Inr (of_nat ?n, s1)" "img_ok s1 ((T_DIR, root) # fs @ [(T_FILE, [])]) (Bs @ [[]])"
    using ialloc_ok [OF I, of T_FILE] l by auto
  have r1: "total ((T_DIR, root @ ?e) # fs @ [(T_FILE, [])]) \<le> FSSIZE" using r by (simp add: total_Cons total_snoc)
  obtain s2 Bs2 where s2: "iappend 1 ?e s1 = Inr s2" "img_ok s2 ((T_DIR, root @ ?e) # fs @ [(T_FILE, [])]) Bs2"
    using iappend_total [OF s1(2), of 0 T_DIR root ?e] l m(1) r1 by auto
  have u: "((T_DIR, root @ ?e) # fs @ [(T_FILE, [])])[Suc (length fs) := (T_FILE, y)] = (T_DIR, root @ ?e) # fs @ [(T_FILE, y)]" for y
    by (simp add: list_update_append)
  obtain s3 Bs3 where s3: "for_each (iappend (of_nat ?n)) chunks s2 = Inr s3"
      "img_ok s3 ((T_DIR, root @ ?e) # fs @ [(T_FILE, concat chunks)]) Bs3"
    using iappend_many [OF s2(2), of "Suc (length fs)" T_FILE "[]" chunks] l m(2) r by (auto simp: u nth_append)
  have "mkfs_file 1 (arg, Some chunks) s = Inr s3"
    using a s1(1) s2(1) s3(1) ucast_small [of ?n] by (simp add: mkfs_file_def Let_def strip_def entry_def)
  then show ?thesis using s3(2) by blast
qed

primrec entries :: "nat \<Rightarrow> (u8 list \<times> u8 list list option) list \<Rightarrow> u8 list" where
  "entries n [] = []"
| "entries n (a # as) = entry n (strip (fst a)) @ entries (Suc n) as"

definition contents :: "(u8 list \<times> u8 list list option) list \<Rightarrow> (u16 \<times> u8 list) list" where
  "contents args = map (\<lambda>a. (T_FILE, concat (the (snd a)))) args"

lemma length_entries [simp]: "length (entries n args) = 16 * length args"
  by (induction args arbitrary: n) auto

definition good_arg :: "u8 list \<times> u8 list list option \<Rightarrow> bool" where
  "good_arg a \<longleftrightarrow> 47 \<notin> set (fst a) \<and> (case snd a of None \<Rightarrow> False | Some cs \<Rightarrow> length (concat cs) \<le> MAXFILE * BSIZE)"

lemma total_append: "total (fs @ gs) = total fs + (total gs - 59)"
  by (simp add: total_def)

lemma mkfs_files_ok:
  assumes "img_ok s ((T_DIR, root) # fs) Bs" and "length fs + length args \<le> 198" and "\<forall>a \<in> set args. good_arg a"
    and "length root + 16 * length args \<le> MAXFILE * BSIZE"
    and "total ((T_DIR, root @ entries (length fs + 2) args) # fs @ contents args) \<le> FSSIZE"
  shows "\<exists>s' Bs'. for_each (mkfs_file 1) args s = Inr s' \<and>
     img_ok s' ((T_DIR, root @ entries (length fs + 2) args) # fs @ contents args) Bs'"
  using assms
proof (induction args arbitrary: s root fs Bs)
  case Nil
  then show ?case by (auto simp: contents_def)
next
  case (Cons a args)
  note P = Cons.prems
  obtain arg chunks where a: "a = (arg, Some chunks)" "47 \<notin> set arg" "length (concat chunks) \<le> MAXFILE * BSIZE"
    using P(3) by (cases a) (auto simp: good_arg_def split: option.splits)
  let ?e = "entry (length fs + 2) (strip arg)" and ?f = "(T_FILE, concat chunks)"
  have "total ((T_DIR, root @ ?e) # fs @ [?f]) \<le> total ((T_DIR, root @ entries (length fs + 2) (a # args)) # fs @ contents (a # args))"
    using cost_mono [of "length (root @ ?e)" "length (root @ entries (length fs + 2) (a # args))"]
    by (simp add: a total_Cons total_append contents_def) (simp add: total_def)
  then have r: "total ((T_DIR, root @ ?e) # fs @ [?f]) \<le> FSSIZE" using P(5) by simp
  obtain s1 Bs1 where s1: "mkfs_file 1 a s = Inr s1" "img_ok s1 ((T_DIR, root @ ?e) # (fs @ [?f])) Bs1"
    using mkfs_file_ok [OF P(1) _ a(2) _ a(3) r] P(2,4) a(1) by auto
  have "\<exists>s' Bs'. for_each (mkfs_file 1) args s1 = Inr s' \<and>
      img_ok s' ((T_DIR, (root @ ?e) @ entries (length (fs @ [?f]) + 2) args) # (fs @ [?f]) @ contents args) Bs'"
    by (rule Cons.IH [OF s1(2)]) (use P(2-5) a in \<open>auto simp: contents_def\<close>)
  then show ?case using s1(1) by (simp add: a contents_def)
qed

lemma blank_image:
  assumes "mk_img s = []"
  shows "n \<le> FSSIZE \<Longrightarrow> fold (\<lambda>i. wsect (of_nat i) zeroes) [0..<n] s = s\<lparr>mk_img := replicate n zeroes\<rparr>"
proof (induction n)
  case (Suc n)
  have "unat (of_nat n :: u32) = n" using Suc.prems by (simp add: unat_of_nat)
  then have "sector (of_nat n) = n" using sector_small [of "of_nat n"] Suc.prems by simp
  then have "wsect (of_nat n) zeroes (s\<lparr>mk_img := replicate n zeroes\<rparr>) = s\<lparr>mk_img := replicate n zeroes @ [zeroes]\<rparr>"
    by (simp add: wsect_def list_update_append)
  then show ?case using Suc by (simp add: replicate_append_same)
qed (use assms in simp)

definition sb_sector :: "u8 list" where
  "sb_sector = overwrite zeroes 0 (concat (map bytes32 [1000, 941, 200, 30, 2, 32, 58]))"

lemma start_img: "mkfs_start = \<lparr>mk_img = (replicate FSSIZE zeroes)[1 := sb_sector], mk_sb = the_sb, mk_freeinode = 1, mk_freeblock = 59\<rparr>"
proof -
  have "sector 1 = 1" by (simp add: sector_def)
  then show ?thesis
    unfolding mkfs_start_def Let_def
    by (subst blank_image) (simp_all add: wsect_def the_sb_def sb_sector_def del: upt_rec_numeral)
qed

lemma start_ok: "img_ok mkfs_start [] []"
proof -
  have l: "length sb_sector = BSIZE" unfolding sb_sector_def by (subst length_overwrite) simp_all
  have w: "whole mkfs_start" unfolding whole_def start_img
    using l by (auto dest!: set_update_subset_insert [THEN subsetD])
  have "sec mkfs_start b = zeroes" if "59 \<le> b" "unat b < FSSIZE" for b
    using that by (auto simp: sec_def start_img nth_list_update word_le_nat_alt)
  then have "fresh mkfs_start" by (simp add: fresh_def start_img)
  then show ?thesis using w by (simp add: img_ok_def start_img disjoint_family_on_def)
qed

lemma dots: "dirent_bytes 1 (overwrite (replicate DIRSIZ 0) 0 [46, 0]) = entry 1 [46]"
  "dirent_bytes 1 (overwrite (replicate DIRSIZ 0) 0 [46, 46, 0]) = entry 1 [46, 46]"
  by (simp_all add: overwrite_def entry_def entry_name_def numeral_eq_Suc)

section \<open>The image as the kernel reads it\<close>

definition inode_at :: "mkfs_state \<Rightarrow> nat \<Rightarrow> inode" where
  "inode_at s n =
     get_dinode (sec s (IBLOCK (of_nat n) (decode_sb (sec s 1)))) (ioff (of_nat n))
       \<lparr>i_dev = 1, i_inum = of_nat n, i_ref = 1, i_valid = False, i_type = 0, i_major = 0, i_minor = 0, i_nlink = 0,
        i_size = 0, i_addrs = []\<rparr>"

definition nblk :: "u8 list \<Rightarrow> nat" where
  "nblk xs = (length xs + 511) div 512"

definition stores :: "mkfs_state \<Rightarrow> nat \<Rightarrow> u16 \<times> u8 list \<Rightarrow> bool" where
  "stores s n f \<longleftrightarrow> i_type (inode_at s n) = fst f \<and> i_nlink (inode_at s n) = 1 \<and>
     allocated (sec s) (inode_at s n) 1000 (nblk (snd f)) \<and>
     (\<forall>q < length (snd f). fbyte (sec s) (inode_at s n) q = snd f ! q)"

lemma decode_sb_start: "decode_sb sb_sector = the_sb"
proof -
  let ?ws = "[1000, 941, 200, 30, 2, 32, 58] :: u32 list"
  have "get32 sb_sector (4 * j) = ?ws ! j" if "j < 7" for j
  proof -
    have "get32 sb_sector (0 + 4 * j) = get32 (concat (map bytes32 ?ws)) (4 * j)"
      unfolding sb_sector_def by (rule get_overwrite_same) (use that in simp_all)
    then show ?thesis using get32_concat [of j ?ws] that by simp
  qed
  from this [of 0] this [of 1] this [of 2] this [of 3] this [of 4] this [of 5] this [of 6]
  show ?thesis by (simp add: decode_sb_def the_sb_def)
qed

lemma inode_at_dnode:
  assumes "sec s 1 = sb_sector" and "mk_sb s = the_sb"
  shows "i_type (inode_at s n) = d_type (dnode s n)" "i_nlink (inode_at s n) = d_nlink (dnode s n)"
    "i_size (inode_at s n) = d_size (dnode s n)" "i_addrs (inode_at s n) = d_addrs (dnode s n)" "i_dev (inode_at s n) = 1"
  using assms by (simp_all add: inode_at_def get_dinode_def dnode_def dinode_of_def decode_sb_start del: upt_Suc)

lemma blk_slot:
  assumes b: "blocks_ok c A fb bs" and x: "i_addrs x = A" and j: "j < length bs"
  shows "blk c x j = bs ! j"
  using blocks_okD(2) [OF b] blocks_okD(3) [OF b, of j] blocks_okD(4) [OF b] j x
  by (auto simp: blk_def slot_def split: if_splits)

lemma stores_file:
  assumes w: "whole s" and b: "blocks_ok (sec s) A fb bs" "data_ok (sec s) bs xs" and fb: "unat fb \<le> FSSIZE"
    and x: "i_addrs (inode_at s n) = A" "i_dev (inode_at s n) = 1" "i_type (inode_at s n) = type" "i_nlink (inode_at s n) = 1"
  shows "stores s n (type, xs)"
proof -
  let ?x = "inode_at s n"
  have n: "nblk xs = length bs" using b(2) by (simp add: data_ok_def nblk_def)
  have B: "blk (sec s) ?x j = bs ! j" if "j < length bs" for j by (rule blk_slot [OF b(1) x(1) that])
  have r: "bs ! j \<noteq> 0 \<and> bs ! j < 1000 \<and> length (sec s (bs ! j)) = BSIZE" if "j < length bs" for j
    using blocks_okD(6) [OF b(1) that] fb length_sec [OF w, of "bs ! j"] by (auto simp: word_less_nat_alt)
  have I: "A ! NDIRECT \<noteq> 0 \<and> A ! NDIRECT < 1000 \<and> A ! NDIRECT \<notin> set bs" if "NDIRECT < length bs"
    using blocks_okD(7) [OF b(1) that] fb by (auto simp: word_less_nat_alt)
  have "inj_on (blk (sec s) ?x) {..<length bs}"
    using blocks_okD(5) [OF b(1)] B by (auto simp: inj_on_def nth_eq_iff_index_eq)
  moreover have "blk (sec s) ?x j \<noteq> A ! NDIRECT" if "j < length bs" "NDIRECT < length bs" for j
    using I [OF that(2)] B [OF that(1)] that(1) by (metis nth_mem)
  ultimately have "allocated (sec s) ?x 1000 (nblk xs)"
    unfolding allocated_def n using blocks_okD(2) [OF b(1)] B r I x by auto
  moreover have "fbyte (sec s) ?x q = xs ! q" if q: "q < length xs" for q
  proof -
    have "q div 512 < length bs" using q b(2) by (simp add: data_ok_def div_le_mono less_Suc_eq_le [symmetric] div_less_iff_less_mult)
    then show ?thesis using B b(2) q by (simp add: fbyte_def data_ok_def)
  qed
  ultimately show ?thesis using x by (simp add: stores_def)
qed

lemma free_map:
  assumes "n \<le> BPB"
  shows "length (fold mark [0..<n] zeroes) = BSIZE \<and> (\<forall>j < BPB. used (fold mark [0..<n] zeroes) j \<longleftrightarrow> j < n)"
  using assms
proof (induction n)
  case 0
  have "zeroes ! (j div 8) = 0" if "j < BPB" for j using that by (simp add: zeroes_def less_mult_imp_div_less)
  then show ?case by (simp add: used_def)
next
  case (Suc n)
  let ?d = "fold mark [0..<n] zeroes"
  have l: "length ?d = BSIZE" and u: "\<forall>j < BPB. used ?d j \<longleftrightarrow> j < n" using Suc by simp_all
  have "length (mark n ?d) = BSIZE" using l by (simp add: mark_def)
  moreover have "\<forall>j < BPB. used (mark n ?d) j \<longleftrightarrow> j < Suc n"
    using used_mark [OF l, of n] u Suc.prems by (auto simp: less_Suc_eq)
  ultimately show ?case by simp
qed

lemma balloc_map:
  assumes w: "whole s" and b: "mk_sb s = the_sb" and n: "n \<le> FSSIZE"
  shows "\<exists>s'. mkfs_balloc (int n) s = Inr s' \<and> whole s' \<and> mk_sb s' = the_sb \<and> mk_freeblock s' = mk_freeblock s \<and>
     (\<forall>b. b \<noteq> 58 \<longrightarrow> sec s' b = sec s b) \<and> (\<forall>j < FSSIZE. used (sec s' 58) j \<longleftrightarrow> j < n)"
proof -
  have m: "fold (\<lambda>i b. b[i div 8 := b ! (i div 8) OR push_bit (i mod 8) 1]) = fold mark"
    by (simp add: mark_def [abs_def])
  note M = free_map [of n]
  have u: "unat (58 :: u32) < FSSIZE" by simp
  have l: "length (fold mark [0..<n] zeroes) = BSIZE" using M n by simp
  note W = wsect_ok [OF w u l]
  have "mkfs_balloc (int n) s = Inr (wsect 58 (fold mark [0..<n] zeroes) s)"
    using n unfolding mkfs_balloc_def m by (simp add: b the_sb_def)
  then show ?thesis using W b M n by auto
qed

lemma sint_below:
  assumes "unat (w :: u32) \<le> 1000"
  shows "sint w = int (unat w)"
proof -
  have u: "int (unat w) = uint w" by simp
  have "0 \<le> uint w" by simp
  then have b: "- (2 ^ 31) \<le> uint w" by (rule order_trans [rotated]) simp
  have "uint w \<le> 1000" using assms u by linarith
  then have "signed_take_bit 31 (uint w) = uint w" by (intro signed_take_bit_int_eq_self [OF b]) simp
  then have "sint w = uint w" unfolding sint_uint by simp
  then show ?thesis by (simp only: u)
qed

lemma of_nat_div_512:
  assumes "l < 4294967296"
  shows "(of_nat l :: u32) div 512 = of_nat (l div 512)"
proof -
  have "l div 512 < 4294967296" using assms by (meson div_le_dividend le_less_trans)
  then show ?thesis using assms by (simp add: word_unat_eq_iff unat_div unat_of_nat)
qed

text \<open>The end of \<open>main\<close>: the size of the root directory and the free map.\<close>

definition fixed :: "mkfs_state \<Rightarrow> (u16 \<times> u8 list) list \<Rightarrow> mkfs_state \<Rightarrow> bool" where
  "fixed s fs s' \<longleftrightarrow> whole s' \<and> mk_sb s' = the_sb \<and> sec s' 1 = sb_sector \<and> sec s' 2 = zeroes \<and>
     (\<forall>b. 59 \<le> b \<longrightarrow> sec s' b = sec s b) \<and> (\<forall>j < FSSIZE. used (sec s' 58) j \<longleftrightarrow> j < total fs) \<and>
     (\<forall>i < length fs. dnode s' (Suc i) =
        (if i = 0 then (dnode s 1)\<lparr>d_size := of_nat ((length (snd (fs ! 0)) div 512 + 1) * 512)\<rparr> else dnode s (Suc i)))"

lemma main_end:
  assumes I: "img_ok s fs Bs" and len: "0 < length fs" "length fs < 207" and tot: "total fs \<le> FSSIZE"
    and L: "length (snd (fs ! 0)) < 4294967296"
  shows "\<exists>s'. and_then (rinode 1 s) (\<lambda>din.
       and_then (winode 1 (din\<lparr>d_size := (d_size din div 512 + 1) * 512\<rparr>) s) (\<lambda>s.
         mkfs_balloc (sint (mk_freeblock s)) s)) = Inr s' \<and> fixed s fs s'"
proof -
  note J = img_okD [OF I]
  let ?L = "length (snd (fs ! 0))"
  define d where "d = (dnode s 1)\<lparr>d_size := of_nat ((?L div 512 + 1) * 512)\<rparr>"
  have fb: "unat (mk_freeblock s) = total fs" using J(10) by (simp add: total_def)
  have F: "d_size (dnode s 1) = of_nat ?L" "length (d_addrs d) = NDIRECT + 1"
    using J(6) [OF len(1)] blocks_okD(1) by (auto simp: file_ok_def d_def)
  obtain s5 where s5: "winode 1 d s = Inr s5" "whole s5" "mk_sb s5 = the_sb" "mk_freeblock s5 = mk_freeblock s"
      "\<forall>b. b \<noteq> IBLOCK 1 the_sb \<longrightarrow> sec s5 b = sec s b" "\<forall>m < 208. dnode s5 m = (if m = 1 then d else dnode s m)"
    using winode_ok [OF J(1,3), of 1 d] F(2) by auto
  obtain s6 where s6: "mkfs_balloc (int (total fs)) s5 = Inr s6" "whole s6" "mk_sb s6 = the_sb"
      "\<forall>b. b \<noteq> 58 \<longrightarrow> sec s6 b = sec s5 b" "\<forall>j < FSSIZE. used (sec s6 58) j \<longleftrightarrow> j < total fs"
    using balloc_map [OF s5(2,3) tot] by blast
  have ib: "IBLOCK 1 the_sb < 59" "32 \<le> IBLOCK 1 the_sb" using iblock_range(2) [of 1] iblock_low [of 1] by simp_all
  have hi: "sec s6 b = sec s b" if "59 \<le> b" for b
  proof -
    have "b \<noteq> 58" "b \<noteq> IBLOCK 1 the_sb" using that ib(1) by auto
    then show ?thesis using s5(5) s6(4) by simp
  qed
  have "1 \<noteq> IBLOCK 1 the_sb" "2 \<noteq> IBLOCK 1 the_sb" using ib(2) by (auto simp: word_le_nat_alt)
  then have "sec s6 1 = sec mkfs_start 1" "sec s6 2 = sec mkfs_start 2" using s5(5) s6(4) J(11) by simp_all
  then have lo: "sec s6 1 = sb_sector" "sec s6 2 = zeroes" by (simp_all add: sec_def start_img)
  have D: "dnode s6 (Suc i) = (if i = 0 then d else dnode s (Suc i))" if "i < length fs" for i
  proof -
    have "unat (IBLOCK (of_nat (Suc i)) the_sb) < 58" using that len by (intro iblock_range) simp
    then have "IBLOCK (of_nat (Suc i)) the_sb \<noteq> 58" by auto
    then have "dnode s6 (Suc i) = dnode s5 (Suc i)" using s6(3,4) s5(3) by (intro dnode_cong) auto
    then show ?thesis using s5(6) that len by simp
  qed
  have z: "(d_size (dnode s 1) div 512 + 1) * 512 = of_nat ((?L div 512 + 1) * 512)" using F(1) of_nat_div_512 [OF L] by simp
  have "sint (mk_freeblock s5) = int (total fs)" using sint_below [of "mk_freeblock s"] fb tot s5(4) by simp
  then have "and_then (winode 1 ((dnode s 1)\<lparr>d_size := (d_size (dnode s 1) div 512 + 1) * 512\<rparr>) s) (\<lambda>s.
      mkfs_balloc (sint (mk_freeblock s)) s) = Inr s6" unfolding z d_def [symmetric] by (simp add: s5(1) s6(1))
  then show ?thesis using rinode_ok [OF J(1,3), of 1] s6(2,3,5) lo hi D by (auto simp: fixed_def d_def)
qed

lemma fixed_stores:
  assumes I: "img_ok s fs Bs" and x: "fixed s fs s'" and tot: "total fs \<le> FSSIZE" and i: "i < length fs"
  shows "blocks_ok (sec s') (i_addrs (inode_at s' (Suc i))) (mk_freeblock s) (Bs ! i)" "stores s' (Suc i) (fs ! i)"
    "i_size (inode_at s' (Suc i)) = of_nat (let l = length (snd (fs ! i)) in if i = 0 then (l div 512 + 1) * 512 else l)"
proof -
  note J = img_okD [OF I]
  let ?A = "d_addrs (dnode s (Suc i))"
  have X: "whole s'" "mk_sb s' = the_sb" "sec s' 1 = sb_sector" "\<And>b. 59 \<le> b \<Longrightarrow> sec s' b = sec s b"
      "dnode s' (Suc i) = (if i = 0 then (dnode s 1)\<lparr>d_size := of_nat ((length (snd (fs ! 0)) div 512 + 1) * 512)\<rparr> else dnode s (Suc i))"
    using x i by (simp_all add: fixed_def)
  have F: "d_type (dnode s (Suc i)) = fst (fs ! i)" "d_nlink (dnode s (Suc i)) = 1"
      "d_size (dnode s (Suc i)) = of_nat (length (snd (fs ! i)))"
      "blocks_ok (sec s) ?A (mk_freeblock s) (Bs ! i)" "data_ok (sec s) (Bs ! i) (snd (fs ! i))"
    using J(6) [OF i] by (simp_all add: file_ok_def)
  note A = inode_at_dnode [OF X(3,2), of "Suc i"]
  have a: "i_addrs (inode_at s' (Suc i)) = ?A" "i_type (inode_at s' (Suc i)) = fst (fs ! i)" "i_nlink (inode_at s' (Suc i)) = 1"
    using A F(1,2) X(5) by (cases "i = 0"; simp)+
  show b: "blocks_ok (sec s') (i_addrs (inode_at s' (Suc i))) (mk_freeblock s) (Bs ! i)"
    unfolding a using blocks_okD(7) [OF F(4)] by (intro blocks_ok_frame [OF F(4)] X(4)) auto
  have "data_ok (sec s') (Bs ! i) (snd (fs ! i))"
    using blocks_okD(6) [OF F(4)] by (intro data_ok_frame [OF F(5)] X(4)) (metis in_set_conv_nth)
  then have "stores s' (Suc i) (fst (fs ! i), snd (fs ! i))"
    using a A(5) J(10) tot by (intro stores_file [OF X(1) b]) (simp_all add: total_def)
  then show "stores s' (Suc i) (fs ! i)" by simp
  show "i_size (inode_at s' (Suc i)) = of_nat (let l = length (snd (fs ! i)) in if i = 0 then (l div 512 + 1) * 512 else l)"
    using A(3) F(3) X(5) by simp
qed

lemma fixed_disjoint:
  assumes I: "img_ok s fs Bs" and x: "fixed s fs s'" and tot: "total fs \<le> FSSIZE" and i: "i < length fs" "a < nblk (snd (fs ! i))"
    and j: "j < length fs" "b < nblk (snd (fs ! j))"
    and e: "blk (sec s') (inode_at s' (Suc i)) a = blk (sec s') (inode_at s' (Suc j)) b"
  shows "i = j \<and> a = b"
proof -
  note J = img_okD [OF I] and B = fixed_stores(1) [OF I x tot]
  have l: "a < length (Bs ! i)" "b < length (Bs ! j)"
    using J(6) [OF i(1)] J(6) [OF j(1)] i j by (simp_all add: file_ok_def data_ok_def nblk_def)
  then have q: "Bs ! i ! a = Bs ! j ! b" using blk_slot [OF B [OF i(1)] refl] blk_slot [OF B [OF j(1)] refl] e by simp
  have "Bs ! i ! a \<in> own s Bs i" "Bs ! j ! b \<in> own s Bs j" using l by (simp_all add: own_def owned_def)
  then have "i = j" using J(7) [OF i(1) j(1)] q by auto
  then show ?thesis using q l blocks_okD(5) [OF B [OF i(1)]] by (simp add: nth_eq_iff_index_eq)
qed

text \<open>
  C21: The image that \<open>mkfs\<close> builds. Given files that can be opened, have no slash in their
  names, are not too large each and fit on the disk together, the program ends without an
  error. In the image, read with the kernel's own decoding of superblock and inodes, inode 1
  is the root directory with the entries of all files after its dots, inode \<open>i + 2\<close> is
  a file with the contents of argument \<open>i\<close> and its size, no block belongs to two of them, the log is
  empty, and the free map marks exactly the blocks before the first free one. The size of the root
  directory is that of its entries rounded up to a block.
\<close>

theorem mkfs_image:
  assumes n: "length args \<le> 198" and good: "\<forall>a \<in> set args. good_arg a"
    and room: "cost (16 * (length args + 2)) + (\<Sum>a\<leftarrow>args. cost (length (concat (the (snd a))))) \<le> 941"
  defines "fs \<equiv> (T_DIR, entry 1 [46] @ entry 1 [46, 46] @ entries 2 args) # contents args"
  shows "\<exists>s. mkfs_main (Some True) args = Inr s \<and> length (mk_img s) = FSSIZE \<and>
     decode_sb (sec s 1) = \<lparr>sb_size = 1000, sb_nblocks = 941, sb_ninodes = 200, sb_nlog = 30, sb_logstart = 2,
       sb_inodestart = 32, sb_bmapstart = 58\<rparr> \<and> sec s 2 = zeroes \<and>
     (\<forall>i < length fs. stores s (Suc i) (fs ! i) \<and>
        i_size (inode_at s (Suc i)) = of_nat (let l = length (snd (fs ! i)) in if i = 0 then (l div 512 + 1) * 512 else l)) \<and>
     (\<forall>i < length fs. \<forall>j < length fs. \<forall>a < nblk (snd (fs ! i)). \<forall>b < nblk (snd (fs ! j)).
        blk (sec s) (inode_at s (Suc i)) a = blk (sec s) (inode_at s (Suc j)) b \<longrightarrow> i = j \<and> a = b) \<and>
     (\<forall>j < FSSIZE. used (sec s 58) j \<longleftrightarrow> j < total fs)"
proof -
  let ?d = "entry 1 [46] @ entry 1 [46, 46]"
  have fs: "fs = (T_DIR, ?d @ entries (length ([] :: (u16 \<times> u8 list) list) + 2) args) # [] @ contents args"
    by (simp add: fs_def numeral_2_eq_2)
  have tot: "total fs \<le> FSSIZE" using room by (simp add: fs_def total_def contents_def comp_def algebra_simps)
  have c: "cost 16 \<le> 941" "cost 32 \<le> 941" by (simp_all add: cost_def)
  obtain s1 where s1: "mkfs_ialloc T_DIR mkfs_start = Inr (1, s1)" "img_ok s1 [(T_DIR, [])] [[]]"
    using ialloc_ok [OF start_ok, of T_DIR] by auto
  obtain s2 Bs2 where s2: "iappend 1 (entry 1 [46]) s1 = Inr s2" "img_ok s2 [(T_DIR, entry 1 [46])] Bs2"
    using iappend_total [OF s1(2), of 0 T_DIR "[]" "entry 1 [46]"] c by (auto simp: total_def)
  obtain s3 Bs3 where s3: "iappend 1 (entry 1 [46, 46]) s2 = Inr s3" "img_ok s3 [(T_DIR, ?d)] Bs3"
    using iappend_total [OF s2(2), of 0 T_DIR "entry 1 [46]" "entry 1 [46, 46]"] c by (auto simp: total_def)
  obtain s4 Bs where s4: "for_each (mkfs_file 1) args s3 = Inr s4" "img_ok s4 fs Bs"
    using mkfs_files_ok [OF s3(2), of args] n good tot unfolding fs by auto
  have "length fs < 207" "0 < length fs" "length (snd (fs ! 0)) < 4294967296" using n by (simp_all add: fs_def contents_def)
  then obtain s where s: "and_then (rinode 1 s4) (\<lambda>din. and_then (winode 1 (din\<lparr>d_size := (d_size din div 512 + 1) * 512\<rparr>) s4) (\<lambda>s.
      mkfs_balloc (sint (mk_freeblock s)) s)) = Inr s" "fixed s4 fs s"
    using main_end [OF s4(2)] tot by blast
  have "mkfs_main (Some True) args = Inr s"
    using s1(1) s2(1) s3(1) s4(1) s(1) by (simp add: mkfs_main_def Let_def dots del: distrib_right_numeral)
  moreover have "length (mk_img s) = FSSIZE" "sec s 1 = sb_sector" "sec s 2 = zeroes" "\<forall>j < FSSIZE. used (sec s 58) j \<longleftrightarrow> j < total fs"
    using s(2) by (simp_all add: fixed_def whole_def)
  moreover note fixed_stores(2,3) [OF s4(2) s(2) tot] fixed_disjoint [OF s4(2) s(2) tot]
  ultimately show ?thesis
    using decode_sb_start by (intro exI [of _ s] conjI allI impI) (auto simp: the_sb_def)
qed

theorem mkfs_image_witness:
  "\<exists>s. mkfs_main (Some True) [([95, 97], Some [[1, 2], [3]]), ([98], Some [])] = Inr s \<and>
     stores s 2 (T_FILE, [1, 2, 3]) \<and> stores s 3 (T_FILE, []) \<and> i_size (inode_at s 2) = 3 \<and>
     stores s 1 (T_DIR, entry 1 [46] @ entry 1 [46, 46] @ entry 2 [97] @ entry 3 [98])"
proof -
  let ?args = "[([95, 97], Some [[1, 2], [3]]), ([98], Some [])] :: (u8 list \<times> u8 list list option) list"
  let ?fs = "(T_DIR, entry 1 [46] @ entry 1 [46, 46] @ entries 2 ?args) # contents ?args"
  have e: "?fs = [(T_DIR, entry 1 [46] @ entry 1 [46, 46] @ entry 2 [97] @ entry 3 [98]), (T_FILE, [1, 2, 3]), (T_FILE, [])]"
    by (simp add: contents_def strip_def)
  obtain s where s: "mkfs_main (Some True) ?args = Inr s"
      "\<forall>i < length ?fs. stores s (Suc i) (?fs ! i) \<and>
        i_size (inode_at s (Suc i)) = of_nat (let l = length (snd (?fs ! i)) in if i = 0 then (l div 512 + 1) * 512 else l)"
    using mkfs_image [of ?args] by (auto simp: good_arg_def cost_def)
  note S = s(2) [unfolded e, rule_format]
  have "stores s 1 (T_DIR, entry 1 [46] @ entry 1 [46, 46] @ entry 2 [97] @ entry 3 [98])" using S [of 0] by simp
  moreover have "stores s 2 (T_FILE, [1, 2, 3])" "i_size (inode_at s 2) = 3" using S [of 1] by (simp_all add: numeral_2_eq_2 [symmetric])
  moreover have "stores s 3 (T_FILE, [])" using S [of 2] by simp
  ultimately show ?thesis using s(1) by blast
qed

end
