(* ===== verification/Umalloc.thy ===== *)
theory Umalloc
  imports Xv6_Prelude
begin

text \<open>
  The memory allocator of user programs, \<open>src/umalloc.c\<close>.

  A header is named by its address; \<open>um_ptr\<close> and \<open>um_size\<close> are its two fields. All headers are
  multiples of eight bytes apart, so two of them never overlap in part. What the program
  stores in the blocks it owns is not part of the model. \<open>base\<close> is the address of the static
  header, a parameter, and \<open>sbrk\<close> is the system call on the state \<open>'k\<close> of the kernel. The loops
  of \<open>free\<close> and \<open>malloc\<close> follow pointers and take fuel, the greatest number of rounds; with
  twice the length of the free list and two more they end.
\<close>

record umem =
  um_ptr :: "u32 \<Rightarrow> u32"
  um_size :: "u32 \<Rightarrow> u32"
  um_freep :: u32

definition set_ptr :: "u32 \<Rightarrow> u32 \<Rightarrow> umem \<Rightarrow> umem" where
  "set_ptr p v s = s\<lparr>um_ptr := (um_ptr s)(p := v)\<rparr>"

definition set_size :: "u32 \<Rightarrow> u32 \<Rightarrow> umem \<Rightarrow> umem" where
  "set_size p v s = s\<lparr>um_size := (um_size s)(p := v)\<rparr>"

primrec free_scan :: "nat \<Rightarrow> u32 \<Rightarrow> u32 \<Rightarrow> umem \<Rightarrow> u32 outcome" where
  "free_scan 0 bp p s = Inl OutOfFuel"
| "free_scan (Suc n) bp p s =
     (if p < bp \<and> bp < um_ptr s p then Inr p
      else if um_ptr s p \<le> p \<and> (p < bp \<or> bp < um_ptr s p) then Inr p
      else free_scan n bp (um_ptr s p) s)"

definition free :: "nat \<Rightarrow> u32 \<Rightarrow> umem \<Rightarrow> umem outcome" where
  "free n ap s =
     (let bp = ap - 8 in
      and_then (free_scan n bp (um_freep s) s) (\<lambda>p.
        let s = (if bp + 8 * um_size s bp = um_ptr s p
                 then let s = set_size bp (um_size s bp + um_size s (um_ptr s p)) s
                      in set_ptr bp (um_ptr s (um_ptr s p)) s
                 else set_ptr bp (um_ptr s p) s);
            s = (if p + 8 * um_size s p = bp
                 then let s = set_size p (um_size s p + um_size s bp) s
                      in set_ptr p (um_ptr s bp) s
                 else set_ptr p bp s)
        in Inr (s\<lparr>um_freep := p\<rparr>)))"

definition morecore ::
    "nat \<Rightarrow> (u32 \<Rightarrow> 'k \<Rightarrow> u32 \<times> 'k) \<Rightarrow> u32 \<Rightarrow> umem \<Rightarrow> 'k \<Rightarrow> (u32 \<times> umem \<times> 'k) outcome" where
  "morecore n sbrk nu s k =
     (let nu = (if nu < 4096 then 4096 else nu);
          (p, k) = sbrk (nu * 8) k
      in if p = -1 then Inr (0, s, k)
         else let s = set_size p nu s in
           and_then (free n (p + 8) s) (\<lambda>s. Inr (um_freep s, s, k)))"

primrec malloc_loop ::
    "nat \<Rightarrow> nat \<Rightarrow> (u32 \<Rightarrow> 'k \<Rightarrow> u32 \<times> 'k) \<Rightarrow> u32 \<Rightarrow> u32 \<Rightarrow> u32 \<Rightarrow> umem \<Rightarrow> 'k \<Rightarrow> (u32 \<times> umem \<times> 'k) outcome" where
  "malloc_loop 0 m sbrk nunits prevp p s k = Inl OutOfFuel"
| "malloc_loop (Suc n) m sbrk nunits prevp p s k =
     (if nunits \<le> um_size s p
      then let (p, s) = (if um_size s p = nunits
                         then (p, set_ptr prevp (um_ptr s p) s)
                         else let s = set_size p (um_size s p - nunits) s;
                                  p = p + 8 * um_size s p
                              in (p, set_size p nunits s))
           in Inr (p + 8, s\<lparr>um_freep := prevp\<rparr>, k)
      else if p = um_freep s
      then and_then (morecore m sbrk nunits s k) (\<lambda>(p, s, k).
             if p = 0 then Inr (0, s, k)
             else malloc_loop n m sbrk nunits p (um_ptr s p) s k)
      else malloc_loop n m sbrk nunits p (um_ptr s p) s k)"

definition ready :: "u32 \<Rightarrow> umem \<Rightarrow> umem" where
  "ready base s =
     (if um_freep s = 0
      then let s = set_ptr base base (s\<lparr>um_freep := base\<rparr>) in set_size base 0 s
      else s)"

definition malloc ::
    "nat \<Rightarrow> u32 \<Rightarrow> (u32 \<Rightarrow> 'k \<Rightarrow> u32 \<times> 'k) \<Rightarrow> u32 \<Rightarrow> umem \<Rightarrow> 'k \<Rightarrow> (u32 \<times> umem \<times> 'k) outcome" where
  "malloc n base sbrk nbytes s k =
     (let nunits = (nbytes + 8 - 1) div 8 + 1;
          s = ready base s;
          prevp = um_freep s
      in malloc_loop n n sbrk nunits prevp (um_ptr s prevp) s k)"

section \<open>The ring of free blocks\<close>

lemma set_fields [simp]:
  "um_ptr (set_ptr p v s) = (um_ptr s)(p := v)" "um_size (set_ptr p v s) = um_size s" "um_freep (set_ptr p v s) = um_freep s"
  "um_ptr (set_size p v s) = um_ptr s" "um_size (set_size p v s) = (um_size s)(p := v)" "um_freep (set_size p v s) = um_freep s"
  by (simp_all add: set_ptr_def set_size_def)

text \<open>\<open>path\<close>: following the pointers from \<open>p\<close> visits the headers of the list and ends at \<open>q\<close>.\<close>

primrec path :: "(u32 \<Rightarrow> u32) \<Rightarrow> u32 \<Rightarrow> u32 list \<Rightarrow> u32 \<Rightarrow> bool" where
  "path h p [] q \<longleftrightarrow> p = q"
| "path h p (x # xs) q \<longleftrightarrow> p = x \<and> path h (h x) xs q"

lemma path_append: "path h p (xs @ ys) q \<longleftrightarrow> (\<exists>r. path h p xs r \<and> path h r ys q)"
  by (induction xs arbitrary: p) auto

lemma path_upd [simp]: "x \<notin> set xs \<Longrightarrow> path (h(x := v)) p xs q = path h p xs q"
  by (induction xs arbitrary: p) auto

definition stop :: "umem \<Rightarrow> u32 \<Rightarrow> nat" where
  "stop s p = unat p + 8 * unat (um_size s p)"

definition span :: "umem \<Rightarrow> u32 \<Rightarrow> nat set" where
  "span s p = {unat p..<stop s p}"

definition spans :: "umem \<Rightarrow> u32 list \<Rightarrow> nat set" where
  "spans s ns = (\<Union>p \<in> set ns. span s p)"

text \<open>
  The free list is a ring in the order of the addresses that starts with the static header, and
  between two blocks of it there is memory that is not free.
\<close>

definition heap :: "u32 \<Rightarrow> umem \<Rightarrow> u32 list \<Rightarrow> bool" where
  "heap b s ns \<longleftrightarrow> ns \<noteq> [] \<and> hd ns = b \<and> b \<noteq> 0 \<and> um_size s b = 0 \<and> path (um_ptr s) b ns b \<and> um_freep s \<in> set ns \<and>
     sorted_wrt (\<lambda>x y. stop s x < unat y) ns \<and> (\<forall>x \<in> set ns. stop s x < 4294967296 \<and> (x \<noteq> b \<longrightarrow> 0 < um_size s x))"

lemma heapD:
  assumes "heap b s ns"
  shows "ns \<noteq> []" "hd ns = b" "b \<noteq> 0" "um_size s b = 0" "path (um_ptr s) b ns b" "um_freep s \<in> set ns"
    "sorted_wrt (\<lambda>x y. stop s x < unat y) ns" "x \<in> set ns \<Longrightarrow> stop s x < 4294967296" "b \<in> set ns"
    "x \<in> set ns \<Longrightarrow> x \<noteq> b \<Longrightarrow> 0 < um_size s x"
  using assms by (auto simp: heap_def)

lemma start_le_stop: "unat p \<le> stop s p"
  by (simp add: stop_def)

lemma sorted_less:
  assumes "sorted_wrt (\<lambda>x y. stop s x < unat y) ns"
  shows "sorted_wrt (<) ns" "distinct ns"
proof -
  have "x < y" if "stop s x < unat y" for x y using that start_le_stop [of x s] by (simp add: word_less_nat_alt)
  then show "sorted_wrt (<) ns" using sorted_wrt_mono_rel [OF _ assms, of "(<)"] by blast
  then show "distinct ns" by (simp add: strict_sorted_iff)
qed

text \<open>A block that is not free: above the static header, in no free block, and of some size.\<close>

definition taken :: "u32 \<Rightarrow> umem \<Rightarrow> u32 list \<Rightarrow> u32 \<Rightarrow> bool" where
  "taken b s ns p \<longleftrightarrow> b < p \<and> 0 < um_size s p \<and> stop s p < 4294967296 \<and> p \<notin> set ns \<and> span s p \<inter> spans s ns = {}"

lemma taken_split:
  assumes h: "heap b s ns" and t: "taken b s ns bp"
  shows "\<exists>A p B. ns = A @ p # B \<and> (\<forall>x \<in> set (A @ [p]). x < bp \<and> stop s x \<le> unat bp) \<and>
     (\<forall>y \<in> set B. bp < y \<and> stop s bp \<le> unat y)"
proof -
  note H = heapD [OF h] and S = sorted_less [OF heapD(7) [OF h]]
  define L where "L = takeWhile (\<lambda>x. x < bp) ns"
  define B where "B = dropWhile (\<lambda>x. x < bp) ns"
  have ns: "ns = L @ B" by (simp add: L_def B_def)
  have "L \<noteq> []" using H(1,2) t by (cases ns) (auto simp: L_def taken_def)
  then obtain A p where L: "L = A @ [p]" by (metis rev_exhaust)
  have l: "x < bp" if "x \<in> set L" for x using that set_takeWhileD unfolding L_def by fast
  have b: "bp < y" if y: "y \<in> set B" for y
  proof -
    obtain z zs where B: "B = z # zs" using y by (cases B) auto
    then have "\<not> z < bp" unfolding B_def by (metis dropWhile_eq_Cons_conv)
    moreover have "z \<noteq> bp" using t ns B by (auto simp: taken_def)
    ultimately have "bp < z" by simp
    moreover have "z \<le> y" using y S(1) ns B by (auto simp: sorted_wrt_append)
    ultimately show ?thesis by simp
  qed
  have dis: "unat q \<notin> span s x" if "x \<in> set ns" "unat q \<in> span s bp" for x q using t that by (auto simp: taken_def spans_def)
  have self: "unat bp \<in> span s bp" using t by (simp add: span_def stop_def taken_def word_less_nat_alt)
  have "stop s x \<le> unat bp" if "x \<in> set L" for x
    using dis [of x bp] self l [OF that] that ns by (auto simp: span_def word_less_nat_alt)
  moreover have "stop s bp \<le> unat y" if "y \<in> set B" for y
  proof (rule ccontr)
    assume "\<not> stop s bp \<le> unat y"
    then have i: "unat y \<in> span s bp" using b [OF that] by (simp add: span_def word_less_nat_alt)
    have y: "y \<in> set ns" "y \<noteq> b" using that ns b [OF that] t by (auto simp: taken_def)
    then show False using dis [OF y(1) i] H(10) [OF y] by (simp add: span_def stop_def word_less_nat_alt)
  qed
  ultimately show ?thesis using ns L l b by (intro exI [of _ A] exI [of _ p] exI [of _ B]) auto
qed

section \<open>Freeing a block\<close>

definition found :: "u32 \<Rightarrow> u32 \<Rightarrow> u32 \<Rightarrow> bool" where
  "found bp p q \<longleftrightarrow> p < bp \<and> bp < q \<or> q \<le> p \<and> (p < bp \<or> bp < q)"

lemma scan_path:
  "path (um_ptr s) x xs p \<Longrightarrow> \<forall>y \<in> set xs. \<not> found bp y (um_ptr s y) \<Longrightarrow> found bp p (um_ptr s p) \<Longrightarrow> length xs < n \<Longrightarrow>
     free_scan n bp x s = Inr p"
proof (induction xs arbitrary: x n)
  case Nil
  then show ?case by (cases n) (auto simp: found_def)
next
  case (Cons y ys)
  then show ?case by (cases n) (auto simp: found_def)
qed

text \<open>The successor of a header of the ring is the next one of the list, or the first.\<close>

lemma ring_next:
  assumes "path h b (xs @ y # z # zs) b"
  shows "h y = z"
  using assms by (auto simp: path_append)

lemma ring_last: "path h b (xs @ [y]) b \<Longrightarrow> h y = b"
  by (auto simp: path_append)

lemma scan_ok:
  assumes h: "heap b s ns" and t: "b < bp" and ns: "ns = A @ p # B"
    and A: "\<forall>x \<in> set (A @ [p]). x < bp" and B: "\<forall>y \<in> set B. bp < y" and n: "length ns < n"
  shows "free_scan n bp (um_freep s) s = Inr p"
proof -
  note H = heapD [OF h] and S = sorted_less [OF heapD(7) [OF h]]
  have P: "path (um_ptr s) b (A @ p # B) b" using H(5) ns by simp
  have fp: "found bp p (um_ptr s p)"
  proof (cases B)
    case Nil
    then have "um_ptr s p = b" using P ring_last by blast
    then show ?thesis using A t ns Nil S(1) H(2) by (cases A) (auto simp: found_def sorted_wrt_append)
  next
    case (Cons q C)
    then have "um_ptr s p = q" using P ring_next by blast
    then show ?thesis using A B Cons by (simp add: found_def)
  qed
  have fA: "\<not> found bp y (um_ptr s y)" if y: "y \<in> set A" for y
  proof -
    obtain C D where A': "A = C @ y # D" using y by (metis split_list)
    obtain z E where z: "D @ [p] = z # E" by (cases D) auto
    have "A @ p # B = C @ y # (D @ [p]) @ B" using A' by simp
    then have e: "A @ p # B = C @ y # z # E @ B" unfolding z by simp
    have "um_ptr s y = z" using P unfolding e by (rule ring_next)
    moreover have "y < z" using S(1) unfolding ns e by (simp add: sorted_wrt_append)
    moreover have "z \<in> set (D @ [p])" unfolding z by simp
    then have "z < bp" using A A' by auto
    ultimately show ?thesis by (auto simp: found_def)
  qed
  have fB: "\<not> found bp y (um_ptr s y)" if y: "y \<in> set B" for y
  proof -
    obtain C D where B': "B = C @ y # D" using y by (metis split_list)
    have "bp < y" using B y by simp
    show ?thesis
    proof (cases D)
      case Nil
      then have "um_ptr s y = b" using P B' ring_last [of "um_ptr s" b "A @ p # C" y] by simp
      then show ?thesis using t \<open>bp < y\<close> by (auto simp: found_def)
    next
      case (Cons z E)
      then have "um_ptr s y = z" "y < z" using P B' ns S(1) ring_next [of "um_ptr s" b "A @ p # C" y z E] by (auto simp: sorted_wrt_append)
      then show ?thesis using \<open>bp < y\<close> by (auto simp: found_def)
    qed
  qed
  let ?f = "um_freep s"
  have "\<exists>xs. path (um_ptr s) ?f xs p \<and> set xs \<subseteq> set A \<union> set B \<and> length xs \<le> length ns"
  proof -
    from H(6) ns consider "?f = p" | "?f \<in> set A" | "?f \<in> set B" by auto
    then show ?thesis
    proof cases
      case 1
      then show ?thesis by (intro exI [of _ "[]"]) simp
    next
      case 2
      then obtain C D where "A = C @ ?f # D" by (metis split_list)
      then show ?thesis using P ns by (intro exI [of _ "?f # D"]) (auto simp: path_append)
    next
      case 3
      then obtain C D where "B = C @ ?f # D" by (metis split_list)
      then show ?thesis using P ns by (intro exI [of _ "?f # D @ A"]) (auto simp: path_append)
    qed
  qed
  then obtain xs where xs: "path (um_ptr s) ?f xs p" "set xs \<subseteq> set A \<union> set B" "length xs \<le> length ns" by blast
  then show ?thesis using fA fB fp n by (intro scan_path [OF xs(1)]) auto
qed

lemma stop_word:
  assumes "stop s p < 4294967296"
  shows "unat (p + 8 * um_size s p) = stop s p"
  using assms by (simp add: stop_def unat_word_ariths)

lemma join_size:
  assumes "unat x + 8 * unat z = unat q" and "unat q + 8 * unat w < 4294967296"
  shows "unat (z + w :: u32) = unat z + unat w" and "unat (x :: u32) + 8 * unat (z + w) = unat q + 8 * unat w"
proof -
  show u: "unat (z + w) = unat z + unat w" using assms by (simp add: unat_word_ariths)
  show "unat x + 8 * unat (z + w) = unat q + 8 * unat w" using assms(1) by (simp add: u)
qed

definition join_right :: "u32 \<Rightarrow> u32 \<Rightarrow> umem \<Rightarrow> umem" where
  "join_right bp p s =
     (if bp + 8 * um_size s bp = um_ptr s p
      then let s = set_size bp (um_size s bp + um_size s (um_ptr s p)) s
           in set_ptr bp (um_ptr s (um_ptr s p)) s
      else set_ptr bp (um_ptr s p) s)"

lemma join_right_ok:
  assumes h: "heap b s ns" and t: "taken b s ns bp" and ns: "ns = A @ p # B"
    and B: "\<forall>y \<in> set B. bp < y \<and> stop s bp \<le> unat y"
  shows "\<exists>z r C. join_right bp p s = set_ptr bp r (set_size bp z s) \<and> path (um_ptr s) r C b \<and> set C \<subseteq> set B \<and>
     sorted_wrt (\<lambda>x y. stop s x < unat y) C \<and> (\<forall>y \<in> set C. unat bp + 8 * unat z < unat y) \<and>
     unat (um_size s bp) \<le> unat z \<and> unat bp + 8 * unat z < 4294967296 \<and> length C \<le> length B \<and>
     {unat bp..<unat bp + 8 * unat z} \<union> spans s C = span s bp \<union> spans s B"
proof -
  note H = heapD [OF h]
  let ?e = "bp + 8 * um_size s bp"
  have e: "unat ?e = stop s bp" using t by (intro stop_word) (simp add: taken_def)
  have same: "set_size bp (um_size s bp) s = s" by (simp add: set_size_def)
  have S: "sorted_wrt (\<lambda>x y. stop s x < unat y) B" using H(7) ns by (simp add: sorted_wrt_append)
  have P: "path (um_ptr s) (um_ptr s p) B b" using H(5) ns by (auto simp: path_append)
  have st: "stop s bp = unat bp + 8 * unat (um_size s bp)" by (simp add: stop_def)
  show ?thesis
  proof (cases "?e = um_ptr s p")
    case True
    have "B \<noteq> []"
    proof
      assume "B = []"
      then have "unat b = stop s bp" using P e True by simp
      then show False using start_le_stop [of bp s] t by (simp add: taken_def word_less_nat_alt)
    qed
    then obtain q C where C: "B = q # C" "um_ptr s p = q" using P by (cases B) auto
    have q: "stop s q < 4294967296" "unat q = stop s bp" using H(8) ns C e True by auto
    let ?z = "um_size s bp + um_size s q"
    have z: "unat bp + 8 * unat ?z = stop s q" "unat (um_size s bp) \<le> unat ?z"
      using join_size [of bp "um_size s bp" q "um_size s q"] q by (simp_all add: stop_def)
    have "{unat bp..<stop s q} = span s bp \<union> span s q"
      using q(2) start_le_stop [of q s] start_le_stop [of bp s] by (auto simp: span_def)
    then have "{unat bp..<unat bp + 8 * unat ?z} \<union> spans s C = span s bp \<union> spans s B" using z C by (auto simp: spans_def)
    moreover have "join_right bp p s = set_ptr bp (um_ptr s q) (set_size bp ?z s)" using True C by (simp add: join_right_def Let_def)
    ultimately show ?thesis
      using P S C z q by (intro exI [of _ ?z] exI [of _ "um_ptr s q"] exI [of _ C]) auto
  next
    case False
    have "stop s bp < unat y" if y: "y \<in> set B" for y
    proof -
      obtain q C where C: "B = q # C" "um_ptr s p = q" using P y by (cases B) auto
      have "unat q \<noteq> stop s bp" using False C e by (metis word_unat_eq_iff)
      then have "stop s bp < unat q" using B C by (simp add: order.strict_iff_order)
      moreover have "unat q \<le> unat y" using S C y start_le_stop [of q s] by auto
      ultimately show ?thesis by simp
    qed
    then show ?thesis
      using P S t False st by (intro exI [of _ "um_size s bp"] exI [of _ "um_ptr s p"] exI [of _ B])
        (simp add: join_right_def same taken_def span_def)
  qed
qed

lemma spans_cong: "(\<And>x. x \<in> set ns \<Longrightarrow> um_size s' x = um_size s x) \<Longrightarrow> spans s' ns = spans s ns"
  by (simp add: spans_def span_def stop_def)

lemma spans_append: "spans s (xs @ ys) = spans s xs \<union> spans s ys"
  by (auto simp: spans_def)

lemma spans_Cons: "spans s (x # xs) = span s x \<union> spans s xs"
  by (auto simp: spans_def)

lemma sorted_cong:
  "sorted_wrt (\<lambda>x y. stop s x < unat y) ns \<Longrightarrow> (\<And>x. x \<in> set ns \<Longrightarrow> um_size s' x = um_size s x) \<Longrightarrow>
     sorted_wrt (\<lambda>x y. stop s' x < unat y) ns"
  by (rule sorted_wrt_mono_rel [rotated]) (auto simp: stop_def)

text \<open>The second half of \<open>free\<close>, when the block and its successor are joined to the rest \<open>C\<close> of the ring.\<close>

definition join_left :: "u32 \<Rightarrow> u32 \<Rightarrow> umem \<Rightarrow> umem" where
  "join_left bp p s =
     (if p + 8 * um_size s p = bp
      then let s = set_size p (um_size s p + um_size s bp) s
           in set_ptr p (um_ptr s bp) s
      else set_ptr p bp s)\<lparr>um_freep := p\<rparr>"

definition between :: "u32 \<Rightarrow> umem \<Rightarrow> u32 list \<Rightarrow> u32 \<Rightarrow> u32 list \<Rightarrow> u32 \<Rightarrow> u32 \<Rightarrow> u32 \<Rightarrow> bool" where
  "between b s A p C bp z r \<longleftrightarrow> path (um_ptr s) b A p \<and> path (um_ptr s) r C b \<and> bp \<notin> set (A @ p # C) \<and>
     sorted_wrt (\<lambda>x y. stop s x < unat y) (A @ p # C) \<and>
     (\<forall>x \<in> set (A @ p # C). stop s x < 4294967296 \<and> (x \<noteq> b \<longrightarrow> 0 < um_size s x)) \<and>
     hd (A @ p # C) = b \<and> b \<noteq> 0 \<and> um_size s b = 0 \<and> b < bp \<and> stop s p \<le> unat bp \<and>
     (\<forall>y \<in> set C. unat bp + 8 * unat z < unat y) \<and> 0 < z \<and> unat bp + 8 * unat z < 4294967296"

definition joined :: "u32 \<Rightarrow> umem \<Rightarrow> u32 list \<Rightarrow> u32 \<Rightarrow> u32 \<Rightarrow> umem \<Rightarrow> u32 list \<Rightarrow> bool" where
  "joined b s xs bp z s' ns' \<longleftrightarrow> heap b s' ns' \<and> spans s' ns' = spans s xs \<union> {unat bp..<unat bp + 8 * unat z} \<and>
     length ns' \<le> Suc (length xs) \<and> set ns' \<subseteq> insert bp (set xs) \<and>
     (\<forall>x. x \<notin> insert bp (set xs) \<longrightarrow> um_size s' x = um_size s x) \<and> (\<exists>x \<in> set ns'. z \<le> um_size s' x)"

lemma joinedD:
  assumes "joined b s xs bp z s' ns'"
  shows "heap b s' ns'" "spans s' ns' = spans s xs \<union> {unat bp..<unat bp + 8 * unat z}"
    "length xs \<le> n \<Longrightarrow> length ns' \<le> Suc n" "set xs \<subseteq> N \<Longrightarrow> set ns' \<subseteq> insert bp N"
    "set xs \<subseteq> N \<Longrightarrow> \<forall>x. x \<notin> insert bp N \<longrightarrow> um_size s' x = um_size s x" "w \<le> z \<Longrightarrow> \<exists>x \<in> set ns'. w \<le> um_size s' x"
  using assms by (auto simp: joined_def intro: order_trans)

lemma join_left_merge:
  assumes m: "between b s A p C bp z r" and e: "stop s p = unat bp"
  shows "joined b s (A @ p # C) bp z (join_left bp p (set_ptr bp r (set_size bp z s))) (A @ p # C)"
proof -
  note M = m [unfolded between_def]
  have d: "distinct (A @ p # C)" using sorted_less(2) M by blast
  have pb: "p \<noteq> b" "p \<noteq> bp" using M e by (auto simp: stop_def word_less_nat_alt)
  have w: "p + 8 * um_size s p = bp" using stop_word [of s p] M e by (simp add: word_unat_eq_iff)
  define s' where "s' = join_left bp p (set_ptr bp r (set_size bp z s))"
  have f: "um_ptr s' = (um_ptr s)(bp := r, p := r)" "um_size s' = (um_size s)(bp := z, p := um_size s p + z)" "um_freep s' = p"
    using pb w by (simp_all add: s'_def join_left_def Let_def)
  have jz: "unat (um_size s p + z) = unat (um_size s p) + unat z" "stop s' p = unat bp + 8 * unat z"
    using join_size [of p "um_size s p" bp z] e M by (simp_all add: stop_def f)
  have sz: "um_size s' x = um_size s x" if "x \<in> set A \<union> set C" for x using that d M by (auto simp: f)
  have st: "stop s' x = stop s x" if "x \<in> set A \<union> set C" for x using sz [OF that] by (simp add: stop_def)
  have "path (um_ptr s') b (A @ p # C) b" using M d by (auto simp: path_append f)
  moreover have "sorted_wrt (\<lambda>x y. stop s' x < unat y) A" "sorted_wrt (\<lambda>x y. stop s' x < unat y) C"
    using sz M by (auto simp: sorted_wrt_append intro: sorted_cong [of s])
  then have "sorted_wrt (\<lambda>x y. stop s' x < unat y) (A @ p # C)" using M st jz(2) by (auto simp: sorted_wrt_append)
  moreover have "0 < um_size s p + z" using jz(1) M by (simp add: word_less_nat_alt)
  ultimately have "heap b s' (A @ p # C)" using M st jz(2) pb sz by (auto simp: heap_def f)
  moreover have "span s' p = span s p \<union> {unat bp..<unat bp + 8 * unat z}"
    using e jz(2) start_le_stop [of p s] by (auto simp: span_def)
  moreover have "spans s' A = spans s A" "spans s' C = spans s C" using sz by (auto intro!: spans_cong)
  moreover have "z \<le> um_size s' p" using jz(1) by (simp add: word_le_nat_alt f)
  ultimately show ?thesis
    unfolding s'_def [symmetric] joined_def using M by (auto simp: spans_append spans_Cons f)
qed

lemma join_left_insert:
  assumes m: "between b s A p C bp z r" and e: "stop s p < unat bp"
  shows "joined b s (A @ p # C) bp z (join_left bp p (set_ptr bp r (set_size bp z s))) (A @ p # bp # C)"
proof -
  note M = m [unfolded between_def]
  have d: "distinct (A @ p # C)" using sorted_less(2) M by blast
  have pb: "p \<noteq> bp" "hd (A @ p # bp # C) = b" using M by (auto simp: hd_append)
  have w: "p + 8 * um_size s p \<noteq> bp" using stop_word [of s p] M e by (auto simp: word_unat_eq_iff)
  define s' where "s' = join_left bp p (set_ptr bp r (set_size bp z s))"
  have f: "um_ptr s' = (um_ptr s)(bp := r, p := bp)" "um_size s' = (um_size s)(bp := z)" "um_freep s' = p"
    using pb w by (simp_all add: s'_def join_left_def Let_def)
  have sz: "um_size s' x = um_size s x" if "x \<in> set A \<union> set C \<union> {p}" for x using that M by (auto simp: f)
  have st: "stop s' x = stop s x" if "x \<in> set A \<union> set C \<union> {p}" for x using sz [OF that] by (simp add: stop_def)
  have sb: "stop s' bp = unat bp + 8 * unat z" by (simp add: stop_def f)
  have "path (um_ptr s') b (A @ p # bp # C) b" using M d by (auto simp: path_append f)
  moreover have "sorted_wrt (\<lambda>x y. stop s' x < unat y) A" "sorted_wrt (\<lambda>x y. stop s' x < unat y) C"
    using sz M by (auto simp: sorted_wrt_append intro: sorted_cong [of s])
  then have "sorted_wrt (\<lambda>x y. stop s' x < unat y) (A @ p # bp # C)"
    using M st sb e start_le_stop [of p s] start_le_stop [of bp s'] by (fastforce simp: sorted_wrt_append)
  ultimately have "heap b s' (A @ p # bp # C)" using M pb st sb sz by (auto simp: heap_def f)
  moreover have "span s' bp = {unat bp..<unat bp + 8 * unat z}" "span s' p = span s p" using sb st by (simp_all add: span_def)
  moreover have "spans s' A = spans s A" "spans s' C = spans s C" using sz by (auto intro!: spans_cong)
  ultimately show ?thesis
    unfolding s'_def [symmetric] joined_def by (auto simp: spans_append spans_Cons f)
qed

lemma free_ok:
  assumes h: "heap b s ns" and t: "taken b s ns bp" and n: "length ns < n"
  shows "\<exists>s' ns'. free n (bp + 8) s = Inr s' \<and> heap b s' ns' \<and> spans s' ns' = spans s ns \<union> span s bp \<and>
     length ns' \<le> Suc (length ns) \<and> (\<forall>x. x \<notin> insert bp (set ns) \<longrightarrow> um_size s' x = um_size s x) \<and>
     set ns' \<subseteq> insert bp (set ns) \<and> (\<exists>x \<in> set ns'. um_size s bp \<le> um_size s' x)"
proof -
  note H = heapD [OF h]
  obtain A p B where ns: "ns = A @ p # B" and A: "\<forall>x \<in> set (A @ [p]). x < bp \<and> stop s x \<le> unat bp"
      and B: "\<forall>y \<in> set B. bp < y \<and> stop s bp \<le> unat y" using taken_split [OF h t] by blast
  obtain z r C where j: "join_right bp p s = set_ptr bp r (set_size bp z s)" "path (um_ptr s) r C b" "set C \<subseteq> set B"
      "sorted_wrt (\<lambda>x y. stop s x < unat y) C" "\<forall>y \<in> set C. unat bp + 8 * unat z < unat y"
      "unat (um_size s bp) \<le> unat z" "unat bp + 8 * unat z < 4294967296" "length C \<le> length B"
      "{unat bp..<unat bp + 8 * unat z} \<union> spans s C = span s bp \<union> spans s B"
    using join_right_ok [OF h t ns B] by blast
  have "path (um_ptr s) b A p" "hd (A @ p # C) = b" using H(2,5) ns by (auto simp: path_append hd_append)
  moreover have "0 < z" using t j(6) by (simp add: taken_def word_less_nat_alt)
  moreover have "sorted_wrt (\<lambda>x y. stop s x < unat y) (A @ p # C)" using H(7) ns j(3,4) by (auto simp: sorted_wrt_append)
  moreover have "\<forall>x \<in> set (A @ p # C). stop s x < 4294967296 \<and> (x \<noteq> b \<longrightarrow> 0 < um_size s x)" using H(8,10) ns j(3) by auto
  ultimately have m: "between b s A p C bp z r" using H(3,4) t A ns j(2,3,5,7) by (auto simp: between_def taken_def)
  let ?s' = "join_left bp p (set_ptr bp r (set_size bp z s))"
  obtain ns' where J: "joined b s (A @ p # C) bp z ?s' ns'"
    using join_left_merge [OF m] join_left_insert [OF m] A by (cases "stop s p = unat bp") (auto simp: order.order_iff_strict)
  have "free_scan n bp (um_freep s) s = Inr p" using scan_ok [OF h _ ns _ _ n] t A B by (simp add: taken_def)
  then have fr: "free n (bp + 8) s = Inr ?s'" using j(1) unfolding free_def join_right_def [symmetric] join_left_def by (simp add: Let_def)
  have u: "spans s (A @ p # C) \<union> {unat bp..<unat bp + 8 * unat z} = spans s ns \<union> span s bp"
    unfolding ns using j(9) by (auto simp: spans_append spans_Cons)
  have "um_size s bp \<le> z" using j(6) by (simp add: word_le_nat_alt)
  moreover have "set (A @ p # C) \<subseteq> set ns" "length (A @ p # C) \<le> length ns" using j(3,8) ns by auto
  ultimately show ?thesis
    using joinedD [OF J] fr unfolding u by (intro exI [of _ ?s'] exI [of _ ns']) simp
qed

section \<open>Taking a block\<close>

definition carve :: "u32 \<Rightarrow> u32 \<Rightarrow> u32 \<Rightarrow> umem \<Rightarrow> u32 \<times> umem" where
  "carve nunits prevp p s =
     (let (p, s) = (if um_size s p = nunits
                    then (p, set_ptr prevp (um_ptr s p) s)
                    else let s = set_size p (um_size s p - nunits) s;
                             p = p + 8 * um_size s p
                         in (p, set_size p nunits s))
      in (p, s\<lparr>um_freep := prevp\<rparr>))"

definition taken_from :: "u32 \<Rightarrow> umem \<Rightarrow> u32 list \<Rightarrow> u32 \<Rightarrow> u32 \<times> umem \<Rightarrow> bool" where
  "taken_from b s ns nunits r \<longleftrightarrow> (case r of (p, s') \<Rightarrow>
     \<exists>ns'. heap b s' ns' \<and> length ns' \<le> length ns \<and> taken b s' ns' p \<and> um_size s' p = nunits \<and>
       spans s' ns' \<union> span s' p = spans s ns)"

lemma spans_disjoint:
  assumes "sorted_wrt (\<lambda>x y. stop s x < unat y) (A @ p # B)" and "x \<in> set A \<union> set B"
  shows "span s x \<inter> span s p = {}"
  using assms start_le_stop [of x s] start_le_stop [of p s] by (fastforce simp: sorted_wrt_append span_def)

lemma prev_split:
  assumes h: "heap b s ns" and x: "x \<in> set ns" "um_ptr s x = p" "p \<noteq> b"
  shows "\<exists>A B. ns = A @ x # p # B"
proof -
  obtain A D where ns: "ns = A @ x # D" using x(1) by (metis split_list)
  then have P: "path (um_ptr s) b (A @ x # D) b" using heapD(5) [OF h] by simp
  then have "D \<noteq> []" using ring_last x(2,3) by blast
  then obtain d B where D: "D = d # B" by (cases D) auto
  then have "d = p" using P ring_next x(2) by blast
  then show ?thesis using ns D by blast
qed

lemma carve_exact:
  assumes h: "heap b s ns" and x: "prevp \<in> set ns" "um_ptr s prevp = p" and z: "um_size s p = nunits" "0 < nunits"
  shows "taken_from b s ns nunits (carve nunits prevp p s)"
proof -
  note H = heapD [OF h]
  have "p \<noteq> b" using H(4) z by auto
  then obtain A B where ns: "ns = A @ prevp # p # B" using prev_split [OF h x] by blast
  let ?s = "(set_ptr prevp (um_ptr s p) s)\<lparr>um_freep := prevp\<rparr>" and ?ns = "A @ prevp # B"
  have c: "carve nunits prevp p s = (p, ?s)" using z by (simp add: carve_def)
  have st: "stop ?s = stop s" "span ?s = span s" "spans ?s = spans s" by (simp_all add: fun_eq_iff stop_def span_def spans_def)
  have d: "distinct ns" "sorted_wrt (<) ns" using sorted_less [OF H(7)] by blast+
  have "path (um_ptr ?s) b ?ns b" using H(5) d(1) unfolding ns by (auto simp: path_append)
  moreover have "hd ?ns = b" using H(2) ns by (cases A) auto
  moreover have "sorted_wrt (\<lambda>x y. stop s x < unat y) ?ns" using H(7) ns by (auto simp: sorted_wrt_append)
  ultimately have hp: "heap b ?s ?ns" using H(3,4,8,10) ns st by (auto simp: heap_def)
  have dis: "span s y \<inter> span s p = {}" if "y \<in> set ?ns" for y
    using that H(7) unfolding ns by (intro spans_disjoint [of s "A @ [prevp]" p B]) auto
  have "b < p" using d(2) H(2) ns by (cases A) (auto simp: sorted_wrt_append)
  then have "taken b ?s ?ns p"
    using z H(8) [of p] d(1) dis ns st by (auto simp: taken_def spans_def)
  moreover have "spans s ?ns \<union> span s p = spans s ns" unfolding ns by (auto simp: spans_append spans_Cons)
  ultimately show ?thesis using hp z ns st unfolding taken_from_def c by (auto intro!: exI [of _ ?ns])
qed

lemma unat_scaled: "unat p + 8 * unat r < 4294967296 \<Longrightarrow> unat (p + 8 * r :: u32) = unat p + 8 * unat r"
  by (simp add: unat_word_ariths)

lemma carve_rest:
  assumes h: "heap b s ns" and x: "prevp \<in> set ns" "p \<in> set ns" and z: "nunits < um_size s p" "0 < nunits"
  shows "taken_from b s ns nunits (carve nunits prevp p s)"
proof -
  note H = heapD [OF h]
  define r where "r = um_size s p - nunits"
  define q where "q = p + 8 * r"
  define s' where "s' = (set_size q nunits (set_size p r s))\<lparr>um_freep := prevp\<rparr>"
  have pb: "p \<noteq> b" using H(4) z by auto
  obtain A B where ns: "ns = A @ p # B" using x(2) by (metis split_list)
  have lt: "stop s p < 4294967296" using H(8) x(2) by blast
  have r: "unat r + unat nunits = unat (um_size s p)" "0 < unat nunits" "0 < unat r"
    using z by (simp_all add: r_def unat_sub_if' word_less_nat_alt)
  then have q: "unat q = unat p + 8 * unat r" using lt unfolding q_def by (intro unat_scaled) (simp add: stop_def)
  have qs: "unat q + 8 * unat nunits = stop s p" using q r by (simp add: stop_def)
  have c: "carve nunits prevp p s = (q, s')" using z by (auto simp: carve_def Let_def s'_def q_def r_def)
  have qn: "q \<notin> set ns"
  proof
    assume "q \<in> set ns"
    moreover have "q \<noteq> p" using q r(3) by auto
    ultimately consider "q \<in> set A" | "q \<in> set B" using ns by auto
    then show False
    proof cases
      case 1
      then have "stop s q < unat p" using H(7) ns by (auto simp: sorted_wrt_append)
      then show False using start_le_stop [of q s] q by simp
    next
      case 2
      then have "stop s p < unat q" using H(7) ns by (auto simp: sorted_wrt_append)
      then show False using qs r(2) by simp
    qed
  qed
  have f: "um_size s' = (um_size s)(p := r, q := nunits)" "um_ptr s' = um_ptr s" "um_freep s' = prevp" by (simp_all add: s'_def)
  have sz: "um_size s' y = (if y = p then r else um_size s y)" if "y \<in> set ns" for y using that qn by (auto simp: f)
  have st: "stop s' y = (if y = p then unat q else stop s y)" if "y \<in> set ns" for y using sz [OF that] q by (simp add: stop_def)
  have sq: "stop s' q = stop s p" using qs by (simp add: stop_def f)
  have le: "stop s' y \<le> stop s y" if "y \<in> set ns" for y using st [OF that] qs by auto
  have "sorted_wrt (\<lambda>x y. stop s' x < unat y) ns"
    by (rule sorted_wrt_mono_rel [OF _ H(7)]) (use le in \<open>auto intro: le_less_trans\<close>)
  moreover have "0 < r" using r by (simp add: word_less_nat_alt)
  moreover have "um_size s' b = 0" using sz [OF H(9)] pb H(4) by simp
  moreover have "stop s' y < 4294967296 \<and> (y \<noteq> b \<longrightarrow> 0 < um_size s' y)" if "y \<in> set ns" for y
    using le [OF that] H(8,10) [OF that] sz [OF that] \<open>0 < r\<close> by (auto intro: le_less_trans)
  ultimately have hp: "heap b s' ns" using H(1-3,5) x(1) unfolding heap_def f(2,3) by blast
  have sp: "span s' p \<union> span s' q = span s p" "span s' p \<inter> span s' q = {}"
    using st [OF x(2)] sq q qs by (auto simp: span_def)
  have other: "span s' y = span s y" "span s y \<inter> span s p = {}" if "y \<in> set A \<union> set B" for y
  proof -
    have "y \<in> set ns" "y \<noteq> p" using that ns sorted_less(2) [OF H(7)] by auto
    then show "span s' y = span s y" using st by (simp add: span_def)
    show "span s y \<inter> span s p = {}" using H(7) that unfolding ns by (rule spans_disjoint)
  qed
  have "spans s' ns \<union> span s' q = spans s ns" unfolding ns spans_def using other(1) sp(1) by auto
  moreover have "span s' y \<inter> span s' q = {}" if "y \<in> set A \<union> set B" for y using other [OF that] sp(1) by blast
  then have "span s' q \<inter> spans s' ns = {}" unfolding ns spans_def using sp(2) by auto
  moreover have "b < q"
  proof -
    have "stop s b < unat p" using H(2,7) pb ns by (cases A) (auto simp: sorted_wrt_append)
    then show ?thesis using start_le_stop [of b s] q by (simp add: word_less_nat_alt)
  qed
  ultimately show ?thesis
    using hp qn sq lt z by (auto simp: taken_from_def c taken_def f intro!: exI [of _ ns])
qed

lemma carve_ok:
  assumes "heap b s ns" and "prevp \<in> set ns" and "um_ptr s prevp = p" and "p \<in> set ns" and "nunits \<le> um_size s p" and "0 < nunits"
  shows "taken_from b s ns nunits (carve nunits prevp p s)"
  using carve_exact [OF assms(1-3)] carve_rest [OF assms(1,2,4)] assms(5,6) by (cases "um_size s p = nunits") auto

section \<open>The search\<close>

lemma malloc_step:
  "malloc_loop (Suc n) m sbrk nunits prevp p s k =
     (if nunits \<le> um_size s p then (let (q, s') = carve nunits prevp p s in Inr (q + 8, s', k))
      else if p = um_freep s
      then and_then (morecore m sbrk nunits s k) (\<lambda>(p, s, k).
             if p = 0 then Inr (0, s, k)
             else malloc_loop n m sbrk nunits p (um_ptr s p) s k)
      else malloc_loop n m sbrk nunits p (um_ptr s p) s k)"
  by (simp add: carve_def Let_def)

declare malloc_loop.simps(2) [simp del]

lemma ring_from:
  assumes "heap b s ns" and "f \<in> set ns"
  shows "\<exists>xs. path (um_ptr s) (um_ptr s f) xs f \<and> f \<notin> set xs \<and> set xs \<union> {f} = set ns \<and> Suc (length xs) = length ns"
proof -
  note H = heapD [OF assms(1)]
  obtain A B where ns: "ns = A @ f # B" using assms(2) by (metis split_list)
  then have "path (um_ptr s) (um_ptr s f) (B @ A) f" using H(5) by (auto simp: path_append)
  then show ?thesis using ns sorted_less(2) [OF H(7)] by (intro exI [of _ "B @ A"]) auto
qed

lemma malloc_fits:
  assumes h: "heap b s ns" and z: "0 < nunits"
  shows "path (um_ptr s) p xs (um_freep s) \<Longrightarrow> um_freep s \<notin> set xs \<Longrightarrow> set xs \<subseteq> set ns \<Longrightarrow> prevp \<in> set ns \<Longrightarrow>
     um_ptr s prevp = p \<Longrightarrow> length xs < n \<Longrightarrow> \<exists>x \<in> set xs \<union> {um_freep s}. nunits \<le> um_size s x \<Longrightarrow>
     \<exists>q s'. malloc_loop n m sbrk nunits prevp p s k = Inr (q + 8, s', k) \<and> taken_from b s ns nunits (q, s')"
proof (induction xs arbitrary: p prevp n)
  case Nil
  then obtain n' where n: "n = Suc n'" by (cases n) auto
  have p: "p = um_freep s" "p \<in> set ns" using Nil heapD(6) [OF h] by auto
  then show ?case using carve_ok [OF h Nil.prems(4,5) p(2) _ z] Nil.prems(7)
    by (auto simp: n malloc_step split: prod.splits)
next
  case (Cons x xs)
  then obtain n' where n: "n = Suc n'" by (cases n) auto
  have p: "p = x" "p \<in> set ns" "p \<noteq> um_freep s" using Cons.prems by auto
  show ?case
  proof (cases "nunits \<le> um_size s p")
    case True
    then show ?thesis using carve_ok [OF h Cons.prems(4,5) p(2) True z] by (auto simp: n malloc_step split: prod.splits)
  next
    case False
    then show ?thesis using Cons.IH [of "um_ptr s p" p n'] Cons.prems p by (auto simp: n malloc_step)
  qed
qed

lemma malloc_none:
  "path (um_ptr s) p xs (um_freep s) \<Longrightarrow> um_freep s \<notin> set xs \<Longrightarrow> \<forall>x \<in> set xs \<union> {um_freep s}. \<not> nunits \<le> um_size s x \<Longrightarrow>
     malloc_loop (length xs + Suc n) m sbrk nunits prevp p s k =
       and_then (morecore m sbrk nunits s k) (\<lambda>(p, s, k).
         if p = 0 then Inr (0, s, k) else malloc_loop n m sbrk nunits p (um_ptr s p) s k)"
proof (induction xs arbitrary: p prevp)
  case Nil
  then show ?case by (simp add: malloc_step)
next
  case (Cons x xs)
  then show ?case using Cons.IH [of "um_ptr s p" p] by (auto simp: malloc_step)
qed

text \<open>
  What \<open>malloc\<close> relies on: \<open>sbrk\<close> with a positive argument fails and changes nothing, or
  returns the old end of the memory of the process and moves it up by the argument.
\<close>

definition sbrk_ok :: "(u32 \<Rightarrow> 'k \<Rightarrow> u32 \<times> 'k) \<Rightarrow> ('k \<Rightarrow> nat) \<Rightarrow> bool" where
  "sbrk_ok sbrk brk \<longleftrightarrow> (\<forall>n k. unat n < 2147483648 \<longrightarrow> (case sbrk n k of (a, k') \<Rightarrow>
     a = -1 \<and> brk k' = brk k \<or> a \<noteq> -1 \<and> unat a = brk k \<and> brk k' = brk k + unat n \<and> brk k' < 4294967296))"

definition below :: "umem \<Rightarrow> u32 list \<Rightarrow> u32 \<Rightarrow> nat \<Rightarrow> bool" where
  "below s ns b e \<longleftrightarrow> unat b < e \<and> (\<forall>x \<in> set ns. stop s x \<le> e)"

lemma heap_nonzero:
  assumes "heap b s ns" and "x \<in> set ns"
  shows "x \<noteq> 0"
proof -
  note H = heapD [OF assms(1)]
  obtain ys where "ns = b # ys" using H(1,2) by (cases ns) auto
  then show ?thesis using assms(2) H(3) sorted_less(1) [OF H(7)] by auto
qed

lemma morecore_ok:
  assumes h: "heap b s ns" and l: "below s ns b (brk k)" and sb: "sbrk_ok sbrk brk" and nu: "unat nu < 268435456" and m: "length ns < m"
  shows "\<exists>k'. morecore m sbrk nu s k = Inr (0, s, k') \<and> brk k' = brk k \<or>
     (\<exists>s' ns'. morecore m sbrk nu s k = Inr (um_freep s', s', k') \<and> heap b s' ns' \<and> brk k \<le> brk k' \<and>
        spans s' ns' = spans s ns \<union> {brk k..<brk k'} \<and> length ns' \<le> Suc (length ns) \<and> (\<exists>x \<in> set ns'. nu \<le> um_size s' x))"
proof -
  define N where "N = (if nu < 4096 then 4096 else nu)"
  have N: "nu \<le> N" "0 < N" "unat N < 268435456" "unat (N * 8) = 8 * unat N"
    using nu by (auto simp: N_def word_less_nat_alt word_le_nat_alt unat_word_ariths)
  obtain p k' where r: "sbrk (N * 8) k = (p, k')" by fastforce
  have "unat (N * 8) < 2147483648" using N by simp
  then have "case sbrk (N * 8) k of (a, k') \<Rightarrow>
      a = -1 \<and> brk k' = brk k \<or> a \<noteq> -1 \<and> unat a = brk k \<and> brk k' = brk k + unat (N * 8) \<and> brk k' < 4294967296"
    by (rule sb [unfolded sbrk_ok_def, THEN spec, THEN spec, THEN mp])
  then have S: "p = -1 \<and> brk k' = brk k \<or> p \<noteq> -1 \<and> unat p = brk k \<and> brk k' = brk k + 8 * unat N \<and> brk k' < 4294967296"
    unfolding r N(4) by simp
  show ?thesis
  proof (cases "p = -1")
    case True
    then show ?thesis using S r by (auto simp: morecore_def Let_def N_def [symmetric] split: if_splits)
  next
    case False
    let ?s = "set_size p N s"
    have P: "unat p = brk k" "brk k' = brk k + 8 * unat N" "brk k' < 4294967296" using S False by auto
    have new: "p \<notin> set ns"
    proof
      assume p: "p \<in> set ns"
      then have "p \<noteq> b" using l P by (auto simp: below_def)
      then have "0 < um_size s p" using heapD(10) [OF h p] by blast
      then show False using l P p by (auto simp: below_def stop_def word_less_nat_alt)
    qed
    have sz: "um_size ?s x = um_size s x" if "x \<in> set ns" for x using that new by auto
    have st: "stop ?s x = stop s x" if "x \<in> set ns" for x using sz [OF that] by (simp add: stop_def)
    have sp: "spans ?s ns = spans s ns" using sz by (rule spans_cong)
    have h1: "heap b ?s ns"
      using h sorted_cong [OF heapD(7) [OF h], of ?s] st sz heapD(9) [OF h] unfolding heap_def by auto
    have own: "span ?s p = {brk k..<brk k'}" using P by (simp add: span_def stop_def)
    have "span ?s x \<inter> {brk k..<brk k'} = {}" if "x \<in> set ns" for x using l st [OF that] that by (auto simp: below_def span_def)
    then have "span ?s p \<inter> spans ?s ns = {}" unfolding own spans_def by blast
    moreover have "b < p" using l P by (simp add: below_def word_less_nat_alt)
    ultimately have "taken b ?s ns p" using N(2) P new by (simp add: taken_def stop_def)
    from free_ok [OF h1 this m] obtain s' ns' where f: "free m (p + 8) ?s = Inr s'" "heap b s' ns'"
        "spans s' ns' = spans ?s ns \<union> span ?s p" "length ns' \<le> Suc (length ns)" "\<exists>x \<in> set ns'. N \<le> um_size s' x" by auto
    have "morecore m sbrk nu s k = Inr (um_freep s', s', k')"
      using r False f(1) by (simp add: morecore_def Let_def N_def [symmetric])
    then show ?thesis using f P N(1) unfolding sp own by (fastforce intro: order_trans)
  qed
qed

lemma malloc_loop_ok:
  assumes h: "heap b s ns" and l: "below s ns b (brk k)" and sb: "sbrk_ok sbrk brk" and z: "0 < nunits" "unat nunits < 268435456"
    and n: "2 * length ns + 2 \<le> n"
  shows "\<exists>k'. malloc_loop n n sbrk nunits (um_freep s) (um_ptr s (um_freep s)) s k = Inr (0, s, k') \<and> brk k' = brk k \<or>
     (\<exists>p s' ns1 s1. malloc_loop n n sbrk nunits (um_freep s) (um_ptr s (um_freep s)) s k = Inr (p + 8, s', k') \<and>
        taken_from b s1 ns1 nunits (p, s') \<and> length ns1 \<le> Suc (length ns) \<and> brk k \<le> brk k' \<and>
        spans s1 ns1 = spans s ns \<union> {brk k..<brk k'})"
proof -
  note H = heapD [OF h]
  obtain xs where x: "path (um_ptr s) (um_ptr s (um_freep s)) xs (um_freep s)" "um_freep s \<notin> set xs"
      "set xs \<union> {um_freep s} = set ns" "Suc (length xs) = length ns"
    using ring_from [OF h H(6)] by blast
  show ?thesis
  proof (cases "\<exists>x \<in> set ns. nunits \<le> um_size s x")
    case True
    have T: "set xs \<subseteq> set ns" "length xs < n" "\<exists>x \<in> set xs \<union> {um_freep s}. nunits \<le> um_size s x" using True x(3,4) n by auto
    obtain p s' where "malloc_loop n n sbrk nunits (um_freep s) (um_ptr s (um_freep s)) s k = Inr (p + 8, s', k)"
        "taken_from b s ns nunits (p, s')"
      using malloc_fits [OF h z(1) x(1,2) T(1) H(6) refl T(2,3), of n sbrk k] by blast
    then show ?thesis by (intro exI [of _ k] disjI2 exI [of _ p] exI [of _ s'] exI [of _ ns] exI [of _ s]) simp
  next
    case False
    define n' where "n' = n - length ns"
    have n': "n = length xs + Suc n'" "length ns < n" "length ns < n'" using x(4) n by (simp_all add: n'_def)
    have no: "\<forall>x \<in> set xs \<union> {um_freep s}. \<not> nunits \<le> um_size s x" using False x(3) by blast
    have e: "malloc_loop n n sbrk nunits (um_freep s) (um_ptr s (um_freep s)) s k =
       and_then (morecore n sbrk nunits s k) (\<lambda>(p, s, k).
         if p = 0 then Inr (0, s, k) else malloc_loop n' n sbrk nunits p (um_ptr s p) s k)"
      using malloc_none [OF x(1,2) no, of n' n sbrk "um_freep s" k, folded n'(1)] .
    obtain k' where "morecore n sbrk nunits s k = Inr (0, s, k') \<and> brk k' = brk k \<or>
       (\<exists>s1 ns1. morecore n sbrk nunits s k = Inr (um_freep s1, s1, k') \<and> heap b s1 ns1 \<and> brk k \<le> brk k' \<and>
        spans s1 ns1 = spans s ns \<union> {brk k..<brk k'} \<and> length ns1 \<le> Suc (length ns) \<and> (\<exists>x \<in> set ns1. nunits \<le> um_size s1 x))"
      using morecore_ok [OF h l sb z(2) n'(2)] by blast
    then show ?thesis
    proof
      assume "morecore n sbrk nunits s k = Inr (0, s, k') \<and> brk k' = brk k"
      then show ?thesis unfolding e by (intro exI [of _ k']) simp
    next
      assume "\<exists>s1 ns1. morecore n sbrk nunits s k = Inr (um_freep s1, s1, k') \<and> heap b s1 ns1 \<and> brk k \<le> brk k' \<and>
        spans s1 ns1 = spans s ns \<union> {brk k..<brk k'} \<and> length ns1 \<le> Suc (length ns) \<and> (\<exists>x \<in> set ns1. nunits \<le> um_size s1 x)"
      then obtain s1 ns1 where m: "morecore n sbrk nunits s k = Inr (um_freep s1, s1, k')" "heap b s1 ns1" "brk k \<le> brk k'"
        "spans s1 ns1 = spans s ns \<union> {brk k..<brk k'}" "length ns1 \<le> Suc (length ns)" "\<exists>x \<in> set ns1. nunits \<le> um_size s1 x" by blast
      note f = heapD(6) [OF m(2)]
      obtain ys where y: "path (um_ptr s1) (um_ptr s1 (um_freep s1)) ys (um_freep s1)" "um_freep s1 \<notin> set ys"
          "set ys \<union> {um_freep s1} = set ns1" "Suc (length ys) = length ns1"
        using ring_from [OF m(2) f] by blast
      then have Y: "set ys \<subseteq> set ns1" "length ys < n'" "\<exists>x \<in> set ys \<union> {um_freep s1}. nunits \<le> um_size s1 x"
        using m(5,6) n'(3) by auto
      obtain p s' where "malloc_loop n' n sbrk nunits (um_freep s1) (um_ptr s1 (um_freep s1)) s1 k' = Inr (p + 8, s', k')"
          "taken_from b s1 ns1 nunits (p, s')"
        using malloc_fits [OF m(2) z(1) y(1,2) Y(1) f refl Y(2,3), of n sbrk k'] by blast
      then show ?thesis unfolding e using m heap_nonzero [OF m(2) f]
        by (intro exI [of _ k'] disjI2 exI [of _ p] exI [of _ s'] exI [of _ ns1] exI [of _ s1]) simp
    qed
  qed
qed


definition sample_sbrk :: "u32 \<Rightarrow> nat \<Rightarrow> u32 \<times> nat" where
  "sample_sbrk n k = (if k + unat n < 2147483648 then (of_nat k, k + unat n) else (-1, k))"

definition sample_umem :: umem where
  "sample_umem = \<lparr>um_ptr = (\<lambda>_. 0), um_size = (\<lambda>_. 0), um_freep = 0\<rparr>"

lemma sample_sbrk_ok: "sbrk_ok sample_sbrk (\<lambda>k. k)"
proof -
  have "unat (of_nat k :: u32) = k \<and> (of_nat k :: u32) \<noteq> -1" if "k < 2147483648" for k
  proof -
    have u: "unat (of_nat k :: u32) = k" using that by (simp add: unat_of_nat)
    have "unat (0xFFFFFFFF :: u32) = 4294967295" by simp
    moreover have "(-1 :: u32) = 0xFFFFFFFF" by simp
    ultimately have "unat (-1 :: u32) = 4294967295" by (simp only:)
    then have "unat (of_nat k :: u32) \<noteq> unat (-1 :: u32)" unfolding u using that by linarith
    then show ?thesis using u by auto
  qed
  then show ?thesis by (auto simp: sbrk_ok_def sample_sbrk_def)
qed


end
